(* ===== verification/JayPrelude.thy ===== *)
theory JayPrelude
  imports Main "HOL-Library.Word" "HOL-Library.Char_ord" "HOL-Library.List_Lexorder"
    "HOL-Library.Sublist" "HOL-Library.AList" "HOL-Library.Multiset"
begin

text \<open>
  The prelude of the JayDB development: the parts of the Go language and of its standard
  library that the components share. Go strings are byte sequences, modelled as HOL strings
  (a \<open>char\<close> has exactly 256 values) under the bytewise lexicographic order of
  \<open>List_Lexorder\<close> and \<open>Char_ord\<close>; byte slices are lists of 8-bit words; Go maps that the
  code iterates over or takes the length of are association lists with distinct keys; a
  \<open>time.Time\<close> or \<open>time.Duration\<close> is its number of nanoseconds. The functions of the
  packages strings, strconv/fmt (decimal and hexadecimal verbs), encoding/binary, hash/fnv and
  sort that the code calls follow, each with the laws the component theories use.
\<close>

unbundle bit_operations_syntax

section \<open>Types and rule collections\<close>

type_synonym byte = "8 word"
type_synonym bytes = "byte list"
type_synonym gotime = int
type_synonym duration = int
type_synonym ('k, 'v) gomap = "('k \<times> 'v) list"

named_theorems go_strings \<open>facts about the functions of package strings\<close>
named_theorems wire_simps \<open>encode/decode laws of the binary frames\<close>
named_theorems inv_intros \<open>introduction rules for invariants kept by operations\<close>

abbreviation maxUint16 :: nat where
  "maxUint16 \<equiv> 65535"

abbreviation maxUint32 :: nat where
  "maxUint32 \<equiv> 4294967295"

text \<open>The zero value of \<open>time.Time\<close>: January 1, year 1, in nanoseconds from the Unix epoch.\<close>

definition zeroTime :: gotime where
  "zeroTime = - 62135596800 * 1000000000"

section \<open>Bytes and strings\<close>

definition bytes_of_string :: "string \<Rightarrow> bytes" where
  "bytes_of_string s = map (\<lambda>c. word_of_nat (of_char c)) s"

definition string_of_bytes :: "bytes \<Rightarrow> string" where
  "string_of_bytes bs = map (\<lambda>b. char_of (unat b)) bs"

definition HasPrefix :: "string \<Rightarrow> string \<Rightarrow> bool" where
  "HasPrefix s p = prefix p s"

definition HasSuffix :: "string \<Rightarrow> string \<Rightarrow> bool" where
  "HasSuffix s p = (take (length p) (rev s) = rev p)"

definition TrimPrefix :: "string \<Rightarrow> string \<Rightarrow> string" where
  "TrimPrefix s p = (if HasPrefix s p then drop (length p) s else s)"

definition TrimSuffix :: "string \<Rightarrow> string \<Rightarrow> string" where
  "TrimSuffix s p = (if HasSuffix s p then take (length s - length p) s else s)"

text \<open>\<open>strings.Trim\<close> with a cutset of one character, the only use in the code.\<close>

definition Trim :: "string \<Rightarrow> char \<Rightarrow> string" where
  "Trim s c = rev (dropWhile (\<lambda>x. x = c) (rev (dropWhile (\<lambda>x. x = c) s)))"

text \<open>\<open>strings.Split\<close> with a one-character separator.\<close>

fun Split :: "string \<Rightarrow> char \<Rightarrow> string list" where
  "Split [] c = [[]]"
| "Split (x # xs) c =
     (if x = c then [] # Split xs c
      else (case Split xs c of [] \<Rightarrow> [[x]] | w # ws \<Rightarrow> (x # w) # ws))"

fun Join :: "string list \<Rightarrow> string \<Rightarrow> string" where
  "Join [] sep = []"
| "Join [w] sep = w"
| "Join (w # ws) sep = w @ sep @ Join ws sep"

text \<open>\<open>strings.Index\<close>: the first position of the substring, \<open>None\<close> for Go's -1.\<close>

fun Index :: "string \<Rightarrow> string \<Rightarrow> nat option" where
  "Index [] sub = (if sub = [] then Some 0 else None)"
| "Index (x # xs) sub =
     (if prefix sub (x # xs) then Some 0 else map_option Suc (Index xs sub))"

section \<open>Formatting\<close>

definition digit :: "nat \<Rightarrow> char" where
  "digit n = char_of (48 + n)"

fun show_nat :: "nat \<Rightarrow> string" where
  "show_nat n = (if n < 10 then [digit n] else show_nat (n div 10) @ [digit (n mod 10)])"

declare show_nat.simps [simp del]

text \<open>The verb \<open>%d\<close> on a signed integer.\<close>

definition show_int :: "int \<Rightarrow> string" where
  "show_int i = (if i < 0 then CHR ''-'' # show_nat (nat (- i)) else show_nat (nat i))"

definition hexdigit :: "nat \<Rightarrow> char" where
  "hexdigit n = (if n < 10 then char_of (48 + n) else char_of (87 + n))"

text \<open>The verb \<open>%x\<close> on a byte slice, also \<open>hex.EncodeToString\<close>.\<close>

definition hex_of_bytes :: "bytes \<Rightarrow> string" where
  "hex_of_bytes bs = concat (map (\<lambda>b. [hexdigit (unat b div 16), hexdigit (unat b mod 16)]) bs)"

section \<open>Package encoding/binary: big-endian integers\<close>

fun put_be :: "nat \<Rightarrow> nat \<Rightarrow> bytes" where
  "put_be 0 v = []"
| "put_be (Suc n) v = put_be n (v div 256) @ [word_of_nat v]"

definition get_be :: "bytes \<Rightarrow> nat" where
  "get_be bs = foldl (\<lambda>a b. a * 256 + unat b) 0 bs"

definition PutUint16 :: "16 word \<Rightarrow> bytes" where
  "PutUint16 v = put_be 2 (unat v)"

definition PutUint32 :: "32 word \<Rightarrow> bytes" where
  "PutUint32 v = put_be 4 (unat v)"

definition PutUint64 :: "64 word \<Rightarrow> bytes" where
  "PutUint64 v = put_be 8 (unat v)"

definition Uint16 :: "bytes \<Rightarrow> 16 word" where
  "Uint16 bs = word_of_nat (get_be bs)"

definition Uint32 :: "bytes \<Rightarrow> 32 word" where
  "Uint32 bs = word_of_nat (get_be bs)"

definition Uint64 :: "bytes \<Rightarrow> 64 word" where
  "Uint64 bs = word_of_nat (get_be bs)"

section \<open>Package hash/fnv: 32-bit FNV-1a\<close>

definition fnv1a_step :: "32 word \<Rightarrow> byte \<Rightarrow> 32 word" where
  "fnv1a_step h b = (h XOR ucast b) * 16777619"

definition fnv1a32 :: "bytes \<Rightarrow> 32 word" where
  "fnv1a32 bs = foldl fnv1a_step 2166136261 bs"

section \<open>Package sort: \<open>SearchStrings\<close> as the binary search of \<open>sort.Search\<close>\<close>

function search_loop :: "('a::linorder) list \<Rightarrow> 'a \<Rightarrow> nat \<Rightarrow> nat \<Rightarrow> nat" where
  "search_loop xs x i j =
     (if i < j then
        let h = (i + j) div 2 in
        if xs ! h < x then search_loop xs x (h + 1) j else search_loop xs x i h
      else i)"
  by pat_completeness auto
termination
  by (relation "measure (\<lambda>(xs, x, i, j). j - i)") auto

declare search_loop.simps [simp del]

definition SearchStrings :: "('a::linorder) list \<Rightarrow> 'a \<Rightarrow> nat" where
  "SearchStrings xs x = search_loop xs x 0 (length xs)"

section \<open>Laws of the string functions\<close>

lemma length_bytes_of_string [simp]: "length (bytes_of_string s) = length s"
  by (simp add: bytes_of_string_def)

lemma bytes_of_string_Nil [simp]: "bytes_of_string [] = []"
  by (simp add: bytes_of_string_def)

lemma string_of_bytes_Nil [simp]: "string_of_bytes [] = []"
  by (simp add: string_of_bytes_def)

lemma char_code_bound: "(of_char c :: nat) < 256"
  using nat_of_char_less_256 by simp

lemma string_of_bytes_of_string [simp, wire_simps]: "string_of_bytes (bytes_of_string s) = s"
proof -
  have "char_of (unat (word_of_nat (of_char c) :: byte)) = c" for c
    using char_code_bound [of c] by (simp add: unat_of_nat)
  then show ?thesis
    by (simp add: string_of_bytes_def bytes_of_string_def comp_def)
qed

lemma HasPrefix_Nil [simp, go_strings]: "HasPrefix s []"
  by (simp add: HasPrefix_def)

lemma HasPrefix_append [simp, go_strings]: "HasPrefix (p @ s) p"
  by (simp add: HasPrefix_def)

lemma TrimPrefix_append [simp, go_strings]: "TrimPrefix (p @ s) p = s"
  by (simp add: TrimPrefix_def)

lemma HasPrefix_TrimPrefix: "HasPrefix s p \<Longrightarrow> p @ TrimPrefix s p = s"
  by (auto simp: TrimPrefix_def HasPrefix_def prefix_def)

lemma Split_not_Nil [simp]: "Split s c \<noteq> []"
  by (cases s) (auto split: list.splits)

lemma Join_Cons: "ws \<noteq> [] \<Longrightarrow> Join (w # ws) sep = w @ sep @ Join ws sep"
  by (cases ws) auto

text \<open>Joining the parts of a split gives the string back.\<close>

lemma Join_Split [simp, go_strings]: "Join (Split s c) [c] = s"
proof (induction s)
  case (Cons x xs)
  obtain w ws where ws: "Split xs c = w # ws"
    using Split_not_Nil by (cases "Split xs c") auto
  from Cons ws show ?case
    by (cases ws) auto
qed simp

lemma Split_no_sep: "w \<in> set (Split s c) \<Longrightarrow> c \<notin> set w"
  by (induction s arbitrary: w) (auto split: list.splits if_splits)

lemma Split_single: "c \<notin> set w \<Longrightarrow> Split w c = [w]"
  by (induction w) auto

lemma Split_append_sep: "c \<notin> set w \<Longrightarrow> Split (w @ c # s) c = w # Split s c"
  by (induction w) auto

text \<open>Splitting a join gives the parts back, when no part holds the separator.\<close>

lemma Split_Join [go_strings]:
  "ws \<noteq> [] \<Longrightarrow> \<forall>w \<in> set ws. c \<notin> set w \<Longrightarrow> Split (Join ws [c]) c = ws"
proof (induction ws)
  case (Cons w ws)
  then show ?case
    by (cases ws) (auto simp: Split_single Split_append_sep)
qed simp

text \<open>A separator outside both left parts makes a concatenation unambiguous.\<close>

lemma append_sep_eq_iff:
  assumes "c \<notin> set a" and "c \<notin> set a'"
  shows "a @ c # b = a' @ c # b' \<longleftrightarrow> a = a' \<and> b = b'"
proof
  assume eq: "a @ c # b = a' @ c # b'"
  have "takeWhile (\<lambda>x. x \<noteq> c) (a @ c # b) = a" "takeWhile (\<lambda>x. x \<noteq> c) (a' @ c # b') = a'"
    using assms by (auto simp: takeWhile_append2 takeWhile_tail)
  with eq show "a = a' \<and> b = b'" by auto
qed auto

section \<open>Laws of the number formats\<close>

lemma of_char_digit: "n < 10 \<Longrightarrow> (of_char (digit n) :: nat) = 48 + n"
  by (simp add: digit_def)

lemma digit_inject: "m < 10 \<Longrightarrow> n < 10 \<Longrightarrow> digit m = digit n \<longleftrightarrow> m = n"
  using of_char_digit by (metis add_left_imp_eq)

lemma set_show_nat: "set (show_nat n) \<subseteq> digit ` {..<10}"
proof (induction n rule: show_nat.induct)
  case (1 n)
  show ?case
  proof (cases "n < 10")
    case True
    then show ?thesis by (subst show_nat.simps) auto
  next
    case False
    with 1 have "set (show_nat (n div 10)) \<subseteq> digit ` {..<10}" by blast
    moreover have "digit (n mod 10) \<in> digit ` {..<10}" by simp
    ultimately show ?thesis using False by (subst show_nat.simps) auto
  qed
qed

lemma show_nat_chars: "c \<in> set (show_nat n) \<Longrightarrow> 48 \<le> (of_char c :: nat) \<and> (of_char c :: nat) \<le> 57"
  using set_show_nat [of n] by (auto simp: of_char_digit)

lemma show_nat_not_Nil [simp]: "show_nat n \<noteq> []"
  by (subst show_nat.simps) simp

lemma show_nat_inject [simp]: "show_nat m = show_nat n \<longleftrightarrow> m = n"
proof
  assume "show_nat m = show_nat n"
  then show "m = n"
  proof (induction m arbitrary: n rule: show_nat.induct)
    case (1 m)
    show ?case
    proof (cases "m < 10 \<or> n < 10")
      case True
      with "1.prems" show ?thesis
        using show_nat_not_Nil [THEN not_sym]
        by (auto simp: show_nat.simps [of m] show_nat.simps [of n] digit_inject split: if_splits)
    next
      case False
      with "1.prems" have "show_nat (m div 10) = show_nat (n div 10)" "m mod 10 = n mod 10"
        by (auto simp: show_nat.simps [of m] show_nat.simps [of n] digit_inject)
      with False "1.IH" have "m div 10 = n div 10" "m mod 10 = n mod 10" by auto
      then show ?thesis by (metis div_mult_mod_eq)
    qed
  qed
qed simp

lemma dash_notin_show_nat: "CHR ''-'' \<notin> set (show_nat n)"
  using show_nat_chars [of "CHR ''-''" n] by auto

lemma show_int_inject [simp]: "show_int i = show_int j \<longleftrightarrow> i = j"
proof
  assume eq: "show_int i = show_int j"
  have "hd (show_nat n) \<noteq> CHR ''-''" for n
    using dash_notin_show_nat hd_in_set [OF show_nat_not_Nil] by metis
  then have "CHR ''-'' # xs \<noteq> show_nat n" for xs n
    by (metis list.sel(1))
  with eq show "i = j"
    by (auto simp: show_int_def split: if_splits) (metis)+
qed simp

lemma show_int_chars:
  "c \<in> set (show_int i) \<Longrightarrow> c = CHR ''-'' \<or> 48 \<le> (of_char c :: nat) \<and> (of_char c :: nat) \<le> 57"
  using show_nat_chars by (auto simp: show_int_def split: if_splits)

section \<open>Laws of the big-endian integers\<close>

lemma length_put_be [simp]: "length (put_be n v) = n"
  by (induction n arbitrary: v) auto

lemma get_be_snoc: "get_be (bs @ [b]) = get_be bs * 256 + unat b"
  by (simp add: get_be_def)

lemma get_be_put_be: "get_be (put_be n v) = v mod 256 ^ n"
proof (induction n arbitrary: v)
  case (Suc n)
  have "get_be (put_be (Suc n) v) = (v div 256) mod 256 ^ n * 256 + v mod 256"
    by (simp add: get_be_snoc Suc unat_of_nat)
  also have "\<dots> = v mod (256 * 256 ^ n)"
    by (simp add: mod_mult2_eq mult.commute)
  finally show ?case by simp
qed (simp add: get_be_def)

lemma length_PutUint [simp]:
  "length (PutUint16 a) = 2" "length (PutUint32 b) = 4" "length (PutUint64 c) = 8"
  by (simp_all add: PutUint16_def PutUint32_def PutUint64_def)

lemma Uint_PutUint [simp, wire_simps]:
  "Uint16 (PutUint16 a) = a" "Uint32 (PutUint32 b) = b" "Uint64 (PutUint64 c) = c"
proof -
  have "unat a < 65536" "unat b < 4294967296" "unat c < 18446744073709551616"
    using unsigned_less [of a] unsigned_less [of b] unsigned_less [of c] by simp_all
  then show "Uint16 (PutUint16 a) = a" "Uint32 (PutUint32 b) = b" "Uint64 (PutUint64 c) = c"
    by (simp_all add: Uint16_def PutUint16_def Uint32_def PutUint32_def Uint64_def
        PutUint64_def get_be_put_be)
qed

section \<open>Laws of the binary search\<close>

text \<open>
  On a sorted list the binary search keeps everything left of \<open>i\<close> below \<open>x\<close> and
  everything from \<open>j\<close> on at least \<open>x\<close>, so it returns the insertion point.
\<close>

lemma search_loop_correct:
  assumes "sorted xs" and "i \<le> j" and "j \<le> length xs"
    and "\<And>k. k < i \<Longrightarrow> xs ! k < x" and "\<And>k. j \<le> k \<Longrightarrow> k < length xs \<Longrightarrow> x \<le> xs ! k"
  shows "(\<forall>k < search_loop xs x i j. xs ! k < x) \<and>
    (\<forall>k. search_loop xs x i j \<le> k \<and> k < length xs \<longrightarrow> x \<le> xs ! k)"
  using assms
proof (induction xs x i j rule: search_loop.induct)
  case (1 xs x i j)
  show ?case
  proof (cases "i < j")
    case True
    define h where "h = (i + j) div 2"
    have h: "i \<le> h" "h < j" using True by (auto simp: h_def)
    show ?thesis
    proof (cases "xs ! h < x")
      case less: True
      have "xs ! k < x" if "k < h + 1" for k
        using less sorted_nth_mono [OF "1.prems"(1), of k h] that h "1.prems"(3)
        by (metis Suc_eq_plus1 less_Suc_eq_le order.strict_trans1 order.strict_trans2)
      with "1.IH"(1) [OF True h_def less] "1.prems" h show ?thesis
        by (subst (1 2) search_loop.simps) (simp add: True less flip: h_def)
    next
      case ge: False
      have "x \<le> xs ! k" if "h \<le> k" "k < length xs" for k
        using ge sorted_nth_mono [OF "1.prems"(1), of h k] that by force
      with "1.IH"(2) [OF True h_def ge] "1.prems" h show ?thesis
        by (subst (1 2) search_loop.simps) (simp add: True ge flip: h_def)
    qed
  qed (use "1.prems" in \<open>auto simp: search_loop.simps [of xs x j j]\<close>)
qed

lemma SearchStrings_member:
  assumes "sorted xs" and "x \<in> set xs"
  shows "SearchStrings xs x < length xs" and "xs ! SearchStrings xs x = x"
proof -
  let ?r = "SearchStrings xs x"
  have spec: "\<forall>k < ?r. xs ! k < x" "\<forall>k. ?r \<le> k \<and> k < length xs \<longrightarrow> x \<le> xs ! k"
    using search_loop_correct [OF assms(1), of 0 "length xs" x] by (simp_all add: SearchStrings_def)
  obtain p where p: "p < length xs" "xs ! p = x"
    using assms(2) by (auto simp: in_set_conv_nth)
  with spec(1) have "?r \<le> p" by (metis less_irrefl not_le)
  with p show "?r < length xs" by simp
  with spec(2) have "x \<le> xs ! ?r" by simp
  moreover have "xs ! ?r \<le> x"
    using sorted_nth_mono [OF assms(1) \<open>?r \<le> p\<close> p(1)] p(2) by simp
  ultimately show "xs ! ?r = x" by simp
qed

section \<open>Laws of maps as association lists\<close>

abbreviation wf_map :: "('k, 'v) gomap \<Rightarrow> bool" where
  "wf_map m \<equiv> distinct (map fst m)"

lemma wf_map_update [simp, inv_intros]: "wf_map m \<Longrightarrow> wf_map (AList.update k v m)"
  by (rule distinct_update)

lemma wf_map_delete [simp, inv_intros]: "wf_map m \<Longrightarrow> wf_map (AList.delete k m)"
  by (rule distinct_delete)

lemma map_of_update [simp]: "map_of (AList.update k v m) = (map_of m)(k \<mapsto> v)"
  by (rule update_conv')

lemma map_of_delete [simp]: "map_of (AList.delete k m) = (map_of m)(k := None)"
  by (rule delete_conv')

lemma keys_update [simp]: "fst ` set (AList.update k v m) = insert k (fst ` set m)"
  by (simp add: dom_update)

lemma keys_delete [simp]: "fst ` set (AList.delete k m) = fst ` set m - {k}"
  using delete_keys [of k m] by (metis list.set_map set_removeAll)

lemma keys_iff: "k \<in> fst ` set m \<longleftrightarrow> map_of m k \<noteq> None"
  by (simp add: dom_map_of_conv_image_fst [symmetric] domIff)

lemma wf_map_in_set: "wf_map m \<Longrightarrow> (k, v) \<in> set m \<longleftrightarrow> map_of m k = Some v"
  by auto

text \<open>Map facts are kept as lookups; the library rules that turn them into list membership are not.\<close>

declare map_of_eq_Some_iff [simp del] Some_eq_map_of_iff [simp del]

lemma sum_mset_int_nonneg: "\<forall>x \<in># M. 0 \<le> f x \<Longrightarrow> (0::int) \<le> (\<Sum>x \<in># M. f x)"
  by (induction M) auto

end
