(* ===== verification/Sharding.thy ===== *)
theory Sharding
  imports JayPrelude
begin

text \<open>
  pkg/sharding: the deterministic partition ring. \<open>PartitionKey\<close> cuts a hierarchical key to
  its first segments; a \<open>Ring\<close> holds the sorted node addresses, the membership set and the
  generation counter (a 64-bit word, so \<open>Add(1)\<close> wraps). The mutex-protected methods are
  functions on the record; an execution of the ring is a list of \<open>ring_op\<close>s.
\<close>

section \<open>Definitions\<close>

definition PartitionKey :: "string \<Rightarrow> int \<Rightarrow> string" where
  "PartitionKey key depth =
     (let cleaned = Trim key (CHR ''/'') in
      if depth \<le> 0 then cleaned
      else let parts = Split cleaned (CHR ''/'') in
        if int (length parts) \<le> depth then cleaned
        else Join (take (nat depth) parts) ''/'')"

record Ring =
  nodes :: "string list"
  nodeSet :: "(string, unit) gomap"
  replicas :: int
  partitionDepth :: int
  generation :: "64 word"

definition NewRing :: "int \<Rightarrow> int \<Rightarrow> Ring" where
  "NewRing reps depth =
     \<lparr>nodes = [], nodeSet = [], replicas = (if reps \<le> 0 then 100 else reps),
      partitionDepth = depth, generation = 0\<rparr>"

definition hashString :: "string \<Rightarrow> 32 word" where
  "hashString s = fnv1a32 (bytes_of_string s)"

definition AddNode :: "string \<Rightarrow> Ring \<Rightarrow> Ring" where
  "AddNode nodeAddr r =
     (if map_of (nodeSet r) nodeAddr \<noteq> None then r
      else r\<lparr>nodeSet := AList.update nodeAddr () (nodeSet r),
             nodes := sort (nodes r @ [nodeAddr]),
             generation := generation r + 1\<rparr>)"

definition RemoveNode :: "string \<Rightarrow> Ring \<Rightarrow> Ring" where
  "RemoveNode nodeAddr r =
     (if map_of (nodeSet r) nodeAddr = None then r
      else r\<lparr>nodeSet := AList.delete nodeAddr (nodeSet r),
             nodes := filter (\<lambda>n. n \<noteq> nodeAddr) (nodes r),
             generation := generation r + 1\<rparr>)"

definition dedup_addrs :: "string list \<Rightarrow> (string, unit) gomap" where
  "dedup_addrs nodeAddrs =
     fold (\<lambda>addr m. if addr \<noteq> [] then AList.update addr () m else m) nodeAddrs []"

definition SetNodes :: "string list \<Rightarrow> Ring \<Rightarrow> Ring" where
  "SetNodes nodeAddrs r =
     (let dedup = dedup_addrs nodeAddrs;
          newNodes = sort (map fst dedup)
      in if length newNodes = length (nodes r) \<and>
            list_all (\<lambda>i. newNodes ! i = nodes r ! i) [0..<length newNodes] then r
         else r\<lparr>nodes := newNodes, nodeSet := dedup, generation := generation r + 1\<rparr>)"

definition Generation :: "Ring \<Rightarrow> 64 word" where
  "Generation r = generation r"

definition shard_index :: "Ring \<Rightarrow> string \<Rightarrow> nat" where
  "shard_index r key =
     unat (hashString (PartitionKey key (partitionDepth r)) mod word_of_nat (length (nodes r)))"

definition ShardFor :: "Ring \<Rightarrow> string \<Rightarrow> int" where
  "ShardFor r key = (if length (nodes r) = 0 then -1 else int (shard_index r key))"

definition GetNode :: "Ring \<Rightarrow> string \<Rightarrow> string" where
  "GetNode r key = (if length (nodes r) = 0 then [] else nodes r ! shard_index r key)"

definition NodeIndex :: "Ring \<Rightarrow> string \<Rightarrow> int" where
  "NodeIndex r nodeAddr =
     (let idx = SearchStrings (nodes r) nodeAddr in
      if idx < length (nodes r) \<and> nodes r ! idx = nodeAddr then int idx else -1)"

definition IsOwner :: "Ring \<Rightarrow> string \<Rightarrow> string \<Rightarrow> bool" where
  "IsOwner r key selfAddr = (GetNode r key = selfAddr)"

definition NodeCount :: "Ring \<Rightarrow> nat" where
  "NodeCount r = length (nodes r)"

definition HasNode :: "Ring \<Rightarrow> string \<Rightarrow> bool" where
  "HasNode r nodeAddr = (map_of (nodeSet r) nodeAddr \<noteq> None)"

datatype ring_op = OpAdd string | OpRemove string | OpSet "string list"

fun ring_step :: "ring_op \<Rightarrow> Ring \<Rightarrow> Ring" where
  "ring_step (OpAdd a) r = AddNode a r"
| "ring_step (OpRemove a) r = RemoveNode a r"
| "ring_step (OpSet as) r = SetNodes as r"

definition ring_run :: "ring_op list \<Rightarrow> Ring \<Rightarrow> Ring" where
  "ring_run ops r = fold ring_step ops r"

text \<open>The membership a ring represents, and its representation invariant.\<close>

definition members :: "Ring \<Rightarrow> string set" where
  "members r = dom (map_of (nodeSet r))"

definition ring_ok :: "Ring \<Rightarrow> bool" where
  "ring_ok r \<longleftrightarrow>
     sorted (nodes r) \<and> distinct (nodes r) \<and> wf_map (nodeSet r) \<and> set (nodes r) = members r"

section \<open>The representation invariant\<close>

lemma ring_ok_NewRing [inv_intros]: "ring_ok (NewRing reps depth)"
  by (simp add: ring_ok_def NewRing_def members_def)

lemma ring_ok_AddNode [inv_intros]: "ring_ok r \<Longrightarrow> ring_ok (AddNode a r)"
  by (auto simp: ring_ok_def AddNode_def members_def)

lemma ring_ok_RemoveNode [inv_intros]: "ring_ok r \<Longrightarrow> ring_ok (RemoveNode a r)"
  by (auto simp: ring_ok_def RemoveNode_def members_def sorted_wrt_filter)

lemma wf_dedup_fold:
  "wf_map m \<Longrightarrow> wf_map (fold (\<lambda>addr m. if addr \<noteq> [] then AList.update addr () m else m) as m)"
  by (induction as arbitrary: m) auto

lemma keys_dedup_fold:
  "set (map fst (fold (\<lambda>addr m. if addr \<noteq> [] then AList.update addr () m else m) as m)) =
   set (map fst m) \<union> (set as - {[]})"
  by (induction as arbitrary: m) (auto simp: dom_update)

lemma dedup_addrs_wf: "wf_map (dedup_addrs as)"
  using wf_dedup_fold [of "[]" as] by (simp add: dedup_addrs_def)

lemma dedup_addrs_keys: "set (map fst (dedup_addrs as)) = set as - {[]}"
  using keys_dedup_fold [of as "[]"] by (simp add: dedup_addrs_def)

lemma ring_ok_SetNodes [inv_intros]: "ring_ok r \<Longrightarrow> ring_ok (SetNodes as r)"
  using dedup_addrs_wf [of as]
  by (simp add: ring_ok_def SetNodes_def Let_def members_def dom_map_of_conv_image_fst)

lemma ring_ok_step [inv_intros]: "ring_ok r \<Longrightarrow> ring_ok (ring_step opn r)"
  by (cases opn) (auto intro: inv_intros)

lemma ring_ok_run [inv_intros]: "ring_ok r \<Longrightarrow> ring_ok (ring_run ops r)"
  unfolding ring_run_def by (induction ops arbitrary: r) (auto intro: ring_ok_step)

text \<open>A ring is determined by its membership: the node list is the sorted member set.\<close>

lemma nodes_eq_sorted_members: "ring_ok r \<Longrightarrow> nodes r = sorted_list_of_set (members r)"
  by (metis ring_ok_def sorted_list_of_set.idem_if_sorted_distinct)

section \<open>Refinement of a set of members\<close>

text \<open>The abstract ring is its member set; every operation acts on it as a set operation.\<close>

fun members_step :: "ring_op \<Rightarrow> string set \<Rightarrow> string set" where
  "members_step (OpAdd a) M = insert a M"
| "members_step (OpRemove a) M = M - {a}"
| "members_step (OpSet as) M = set as - {[]}"

lemma identical_iff_eq:
  "length xs = length ys \<and> list_all (\<lambda>i. xs ! i = ys ! i) [0..<length xs] \<longleftrightarrow> xs = ys"
  by (auto simp: list_all_iff intro: nth_equalityI)

lemma SetNodes_eq:
  "SetNodes as r =
     (if sort (map fst (dedup_addrs as)) = nodes r then r
      else r\<lparr>nodes := sort (map fst (dedup_addrs as)), nodeSet := dedup_addrs as,
             generation := generation r + 1\<rparr>)"
  unfolding SetNodes_def Let_def identical_iff_eq by simp

lemma members_AddNode [simp]: "members (AddNode a r) = insert a (members r)"
  by (auto simp: members_def AddNode_def)

lemma members_RemoveNode [simp]: "members (RemoveNode a r) = members r - {a}"
  by (auto simp: members_def RemoveNode_def)

lemma members_SetNodes:
  assumes "ring_ok r"
  shows "members (SetNodes as r) = set as - {[]}"
proof (cases "sort (map fst (dedup_addrs as)) = nodes r")
  case True
  then have "set (nodes r) = set as - {[]}"
    by (metis dedup_addrs_keys set_sort)
  with True assms show ?thesis by (simp add: SetNodes_eq ring_ok_def)
next
  case False
  then show ?thesis using dedup_addrs_keys [of as] 
    by (simp add: SetNodes_eq members_def dom_map_of_conv_image_fst)
qed

lemma members_ring_step: "ring_ok r \<Longrightarrow> members (ring_step opn r) = members_step opn (members r)"
  by (cases opn) (simp_all add: members_SetNodes)

lemma members_ring_run:
  "ring_ok r \<Longrightarrow> members (ring_run ops r) = fold members_step ops (members r)"
  unfolding ring_run_def
  by (induction ops arbitrary: r) (simp_all add: members_ring_step ring_ok_step)

lemma partitionDepth_run [simp]: "partitionDepth (ring_run ops r) = partitionDepth r"
proof -
  have "partitionDepth (ring_step opn r) = partitionDepth r" for opn r
    by (cases opn) (auto simp: AddNode_def RemoveNode_def SetNodes_eq)
  then show ?thesis
    unfolding ring_run_def by (induction ops arbitrary: r) auto
qed

section \<open>Ownership\<close>

lemma shard_index_less:
  assumes "nodes r \<noteq> []" and "length (nodes r) < 2 ^ 32"
  shows "shard_index r key < length (nodes r)"
  using assms by (simp add: shard_index_def unat_mod unat_of_nat take_bit_nat_eq_self)

lemma GetNode_member:
  assumes "ring_ok r" and "nodes r \<noteq> []" and "length (nodes r) < 2 ^ 32"
  shows "GetNode r key \<in> members r"
  using nth_mem [OF shard_index_less [OF assms(2,3), of key]] assms(1,2)
  by (simp add: GetNode_def ring_ok_def)

lemma GetNode_cong:
  assumes "ring_ok r" and "ring_ok r'" and "members r = members r'"
    and "partitionDepth r = partitionDepth r'"
  shows "GetNode r key = GetNode r' key" and "ShardFor r key = ShardFor r' key"
proof -
  have "nodes r = nodes r'" using assms nodes_eq_sorted_members by metis
  with assms(4) show "GetNode r key = GetNode r' key" "ShardFor r key = ShardFor r' key"
    by (simp_all add: GetNode_def ShardFor_def shard_index_def)
qed

lemma NodeIndex_nth:
  assumes "ring_ok r" and "i < length (nodes r)"
  shows "NodeIndex r (nodes r ! i) = int i"
proof -
  let ?s = "SearchStrings (nodes r) (nodes r ! i)"
  have r: "sorted (nodes r)" "distinct (nodes r)" using assms(1) by (simp_all add: ring_ok_def)
  note s = SearchStrings_member [OF r(1) nth_mem [OF assms(2)]]
  with r(2) assms(2) have "?s = i" using nth_eq_iff_index_eq by blast
  with s show ?thesis by (simp add: NodeIndex_def Let_def)
qed

lemma NodeIndex_absent: "ring_ok r \<Longrightarrow> a \<notin> members r \<Longrightarrow> NodeIndex r a = -1"
  using nth_mem [of "SearchStrings (nodes r) a" "nodes r"]
  by (auto simp: NodeIndex_def Let_def ring_ok_def)

section \<open>Partition keys\<close>

text \<open>A key written as segments: non-empty and without the separator.\<close>

definition segments_ok :: "string list \<Rightarrow> bool" where
  "segments_ok ps \<longleftrightarrow> ps \<noteq> [] \<and> (\<forall>p \<in> set ps. p \<noteq> [] \<and> CHR ''/'' \<notin> set p)"

lemma hd_Join: "ps \<noteq> [] \<Longrightarrow> hd ps \<noteq> [] \<Longrightarrow> Join ps sep \<noteq> [] \<and> hd (Join ps sep) = hd (hd ps)"
  by (cases "(ps, sep)" rule: Join.cases) auto

lemma last_Join:
  "ps \<noteq> [] \<Longrightarrow> last ps \<noteq> [] \<Longrightarrow> Join ps sep \<noteq> [] \<and> last (Join ps sep) = last (last ps)"
proof (induction ps)
  case (Cons p ps)
  then show ?case by (cases ps) auto
qed simp

lemma Trim_id: "s \<noteq> [] \<Longrightarrow> hd s \<noteq> c \<Longrightarrow> last s \<noteq> c \<Longrightarrow> Trim s c = s"
proof -
  assume "s \<noteq> []" "hd s \<noteq> c" "last s \<noteq> c"
  then have "dropWhile (\<lambda>x. x = c) s = s" "dropWhile (\<lambda>x. x = c) (rev s) = rev s"
    by (simp_all add: dropWhile_eq_self_iff hd_rev)
  then show ?thesis by (simp add: Trim_def)
qed

lemma Trim_Join:
  assumes "segments_ok ps"
  shows "Trim (Join ps ''/'') (CHR ''/'') = Join ps ''/''"
proof -
  from assms have ps: "ps \<noteq> []" "hd ps \<noteq> []" "last ps \<noteq> []"
    "CHR ''/'' \<notin> set (hd ps)" "CHR ''/'' \<notin> set (last ps)"
    by (auto simp: segments_ok_def)
  then have "hd (hd ps) \<noteq> CHR ''/''" "last (last ps) \<noteq> CHR ''/''"
    by (metis hd_in_set, metis last_in_set)
  with ps show ?thesis
    using hd_Join [of ps "''/''"] last_Join [of ps "''/''"] by (intro Trim_id) auto
qed

lemma PartitionKey_Join:
  assumes "segments_ok ps" and "0 < depth"
  shows "PartitionKey (Join ps ''/'') depth = Join (take (nat depth) ps) ''/''"
proof -
  have "Split (Join ps ''/'') (CHR ''/'') = ps"
    using assms(1) by (intro Split_Join) (auto simp: segments_ok_def)
  with assms show ?thesis by (simp add: PartitionKey_def Trim_Join)
qed

lemma segments_ok_append: "segments_ok ps \<Longrightarrow> segments_ok (ps @ qs) \<longleftrightarrow> qs = [] \<or> segments_ok qs"
  by (auto simp: segments_ok_def)

section \<open>Properties\<close>

text \<open>
  C38: after any sequence of AddNode, RemoveNode and SetNodes calls on a fresh ring the node
  list is sorted and duplicate-free, agrees with the membership set, and that set is the one
  the operations denote as set operations (insert, delete, replace without empty addresses).
\<close>

theorem ring_refines_member_set:
  "ring_ok (ring_run ops (NewRing reps depth)) \<and>
   members (ring_run ops (NewRing reps depth)) = fold members_step ops {}"
proof -
  have "members (NewRing reps depth) = {}" by (simp add: members_def NewRing_def)
  with ring_ok_NewRing [of reps depth] show ?thesis
    using members_ring_run [of "NewRing reps depth" ops] by (simp add: ring_ok_run)
qed

text \<open>
  Consensus-free determinism. Two nodes that saw different sequences of membership
  operations but ended with the same members compute the same owner and the same shard index
  for every key.
\<close>

theorem ring_agreement:
  assumes "fold members_step ops {} = fold members_step ops' {}"
  shows "GetNode (ring_run ops (NewRing reps depth)) key = GetNode (ring_run ops' (NewRing reps' depth)) key
    \<and> ShardFor (ring_run ops (NewRing reps depth)) key = ShardFor (ring_run ops' (NewRing reps' depth)) key"
proof -
  have m: "members (NewRing a depth) = {}" for a by (simp add: members_def NewRing_def)
  have "members (ring_run ops (NewRing reps depth)) = members (ring_run ops' (NewRing reps' depth))"
    using assms by (simp add: members_ring_run ring_ok_NewRing m)
  moreover have "partitionDepth (NewRing a depth) = depth" for a by (simp add: NewRing_def)
  ultimately show ?thesis
    using GetNode_cong ring_ok_run ring_ok_NewRing by (metis partitionDepth_run)
qed

theorem ring_agreement_witness:
  "GetNode (ring_run [OpAdd ''b'', OpAdd ''a''] (NewRing 1 2)) ''k'' =
   GetNode (ring_run [OpSet [''a'', ''c'', ''b''], OpRemove ''c''] (NewRing 9 2)) ''k''"
proof -
  have "fold members_step [OpAdd ''b'', OpAdd ''a''] {} =
        fold members_step [OpSet [''a'', ''c'', ''b''], OpRemove ''c''] {}"
    by auto
  from ring_agreement [OF this] show ?thesis by blast
qed

text \<open>
  Every key of a non-empty ring has exactly one owner, and it is a member; its shard index
  is that owner's position in the sorted node list as \<open>NodeIndex\<close> finds it by binary search,
  and an address outside the ring has index -1. (The length bound is that of the conversion to
  \<open>uint32\<close>.)
\<close>

theorem unique_owner:
  assumes "ring_ok r" and "nodes r \<noteq> []" and "length (nodes r) < 2 ^ 32"
  shows "(\<exists>!a. a \<in> members r \<and> IsOwner r key a) \<and>
    NodeIndex r (GetNode r key) = ShardFor r key \<and>
    (a \<notin> members r \<longrightarrow> NodeIndex r a = -1)"
proof -
  have "NodeIndex r (GetNode r key) = ShardFor r key"
    using assms NodeIndex_nth [OF assms(1) shard_index_less [OF assms(2,3), of key]]
    by (simp add: GetNode_def ShardFor_def)
  with assms show ?thesis
    using GetNode_member [OF assms, of key] NodeIndex_absent by (auto simp: IsOwner_def)
qed

theorem unique_owner_witness:
  "let r = ring_run [OpAdd ''n2'', OpAdd ''n1''] (NewRing 0 2) in
   NodeIndex r (GetNode r ''users/1'') = ShardFor r ''users/1'' \<and> NodeIndex r ''x'' = -1"
proof -
  let ?r = "ring_run [OpAdd ''n2'', OpAdd ''n1''] (NewRing 0 2)"
  have ok: "ring_ok ?r" by (intro ring_ok_run ring_ok_NewRing)
  have n: "nodes ?r = [''n1'', ''n2'']"
    by (simp add: ring_run_def AddNode_def NewRing_def)
  have m: "members ?r = {''n1'', ''n2''}" using ok n by (simp add: ring_ok_def)
  show ?thesis
    using unique_owner [OF ok, of "''users/1''" "''x''"] n m by simp
qed

text \<open>
  The generation counter moves by exactly one when an operation changes the membership,
  and an operation that does not change it leaves the whole ring unchanged.
\<close>

theorem generation_tracks_membership:
  assumes "ring_ok r"
  shows "if members (ring_step opn r) = members r then ring_step opn r = r
         else Generation (ring_step opn r) = Generation r + 1"
proof (cases opn)
  case (OpSet as)
  let ?ns = "sort (map fst (dedup_addrs as))"
  have "set as - {[]} \<noteq> members r" if "?ns \<noteq> nodes r"
  proof
    assume "set as - {[]} = members r"
    then have "set ?ns = members r" using dedup_addrs_keys by simp
    moreover have "?ns = sorted_list_of_set (set ?ns)"
      using dedup_addrs_wf [of as] by (intro sorted_list_of_set.idem_if_sorted_distinct [symmetric]) auto
    ultimately show False using that by (simp only: nodes_eq_sorted_members [OF assms])
  qed
  moreover have "members (ring_step opn r) = set as - {[]}"
    using OpSet assms by (simp add: members_SetNodes)
  ultimately show ?thesis
    using OpSet by (cases "?ns = nodes r") (simp_all add: SetNodes_eq Generation_def)
next
  case (OpAdd a)
  have "members (AddNode a r) \<noteq> members r" if "map_of (nodeSet r) a = None"
    using that by (auto simp: members_def AddNode_def)
  with OpAdd show ?thesis
    by (cases "map_of (nodeSet r) a") (simp_all add: Generation_def AddNode_def)
next
  case (OpRemove a)
  have "members (RemoveNode a r) \<noteq> members r" if "map_of (nodeSet r) a \<noteq> None"
    using that by (auto simp: members_def RemoveNode_def)
  with OpRemove show ?thesis
    by (cases "map_of (nodeSet r) a") (simp_all add: Generation_def RemoveNode_def)
qed

theorem generation_tracks_membership_witness:
  "Generation (ring_step (OpAdd ''a'') (NewRing 0 2)) = Generation (NewRing 0 2) + 1"
proof -
  have "members (ring_step (OpAdd ''a'') (NewRing 0 2)) \<noteq> members (NewRing 0 2)"
    by (simp add: members_def NewRing_def AddNode_def)
  then show ?thesis
    using generation_tracks_membership [OF ring_ok_NewRing, of "OpAdd ''a''" 0 2] by simp
qed

text \<open>
  Partition locality. With partition depth \<open>d > 0\<close> the partition of a well-formed key is
  its first \<open>d\<close> segments, so all documents below one directory of depth \<open>d\<close> have the owner of
  the directory itself, whatever follows.
\<close>

theorem partition_locality:
  assumes "segments_ok ps" and "qs = [] \<or> segments_ok qs"
    and "0 < partitionDepth r" and "length ps = nat (partitionDepth r)"
  shows "PartitionKey (Join (ps @ qs) ''/'') (partitionDepth r) = Join ps ''/''
    \<and> GetNode r (Join (ps @ qs) ''/'') = GetNode r (Join ps ''/'')"
proof -
  have "segments_ok (ps @ qs)" using assms segments_ok_append by blast
  then have "PartitionKey (Join (ps @ qs) ''/'') (partitionDepth r) = Join ps ''/''"
    and "PartitionKey (Join ps ''/'') (partitionDepth r) = Join ps ''/''"
    using assms PartitionKey_Join by simp_all
  then show ?thesis by (simp add: GetNode_def shard_index_def)
qed

theorem partition_locality_witness:
  "GetNode (AddNode ''n1'' (NewRing 0 2)) ''users/123/posts/456'' =
   GetNode (AddNode ''n1'' (NewRing 0 2)) ''users/123''"
  using partition_locality [of "[''users'', ''123'']" "[''posts'', ''456'']" "AddNode ''n1'' (NewRing 0 2)"]
  by (simp add: segments_ok_def AddNode_def NewRing_def)

end
