(* ===== verification/Storage.thy ===== *)
theory Storage
  imports JayPrelude
begin

text \<open>
  pkg/storage/driver.go: the error values, the stored data types and the \<open>Driver\<close> interface.
  An interface value is a record of its methods over a state type \<open>'s\<close>; every method takes
  and returns the state. A Go result pair of a pointer and an error is a sum: \<open>Inl\<close> is a
  non-nil error, \<open>Inr None\<close> a nil pointer with a nil error. The contracts of the interface
  are locales, from the weakest that keeps a cache coherent to the exact compare-and-swap one;
  the client lemmas that need only a contract are proved in the client theories.
\<close>

section \<open>Errors\<close>

text \<open>
  The sentinel errors of the repository, plain messages (\<open>errors.New\<close>, \<open>fmt.Errorf\<close>) and
  messages that wrap another error with \<open>%w\<close> at their end.
\<close>

datatype gerror =
    ErrNotFound
  | ErrVersionMismatch
  | ErrAlreadyExists
  | ErrInvalidMagic
  | ErrInvalidVer
  | ErrUnauthenticated
  | ErrIncompleteResponse
  | ErrPeerPoolClosed
  | EOF
  | ErrUnexpectedEOF
  | ContextDone
  | ErrorMsg string
  | Wrapped string gerror

fun Error :: "gerror \<Rightarrow> string" where
  "Error ErrNotFound = ''storage: object not found''"
| "Error ErrVersionMismatch = ''storage: CAS version mismatch (412 Precondition Failed)''"
| "Error ErrAlreadyExists = ''storage: object already exists''"
| "Error ErrInvalidMagic = ''jaydb cluster: invalid protocol magic''"
| "Error ErrInvalidVer = ''jaydb cluster: unsupported protocol version''"
| "Error ErrUnauthenticated = ''jaydb cluster: unauthenticated inter-query request''"
| "Error ErrIncompleteResponse =
     ''jaydb cluster: response contained neither an object nor an error''"
| "Error ErrPeerPoolClosed = ''jaydb cluster: peer pool is closed''"
| "Error EOF = ''EOF''"
| "Error ErrUnexpectedEOF = ''unexpected EOF''"
| "Error ContextDone = ''context deadline exceeded''"
| "Error (ErrorMsg m) = m"
| "Error (Wrapped m e) = m @ Error e"

definition MatchAnyETag :: string where
  "MatchAnyETag = ''*''"

section \<open>Data\<close>

record Object =
  oKey :: string
  oValue :: bytes
  oETag :: string
  oModTime :: gotime
  oMetadata :: "(string, string) gomap"

record KeyMeta =
  kmKey :: string
  kmSize :: int
  kmETag :: string
  kmModTime :: gotime

record ListOptions =
  loLimit :: int
  loCursor :: string
  loDelimiter :: string

record 's Driver =
  dGet :: "'s \<Rightarrow> string \<Rightarrow> (gerror + Object option) \<times> 's"
  dPut :: "'s \<Rightarrow> string \<Rightarrow> bytes \<Rightarrow> string \<Rightarrow> (gerror + Object option) \<times> 's"
  dDelete :: "'s \<Rightarrow> string \<Rightarrow> string \<Rightarrow> gerror option \<times> 's"
  dList :: "'s \<Rightarrow> string \<Rightarrow> ListOptions \<Rightarrow> (gerror + (KeyMeta list \<times> string)) \<times> 's"
  dClose :: "'s \<Rightarrow> gerror option \<times> 's"

type_synonym doc = "bytes \<times> string"

text \<open>What a document is to a reader: its payload and its ETag.\<close>

definition doc_of :: "Object \<Rightarrow> doc" where
  "doc_of obj = (oValue obj, oETag obj)"

text \<open>The precondition of \<open>Put\<close> that the interface documents, as the error it reports.\<close>

definition put_precondition :: "string \<Rightarrow> doc option \<Rightarrow> gerror option" where
  "put_precondition expected cur =
     (if expected = [] then None
      else if expected = MatchAnyETag then (if cur = None then None else Some ErrAlreadyExists)
      else case cur of
        None \<Rightarrow> Some ErrNotFound
      | Some (v, etag) \<Rightarrow> if etag = expected then None else Some ErrVersionMismatch)"

definition delete_precondition :: "string \<Rightarrow> doc option \<Rightarrow> gerror option" where
  "delete_precondition expected cur =
     (case cur of
        None \<Rightarrow> Some ErrNotFound
      | Some (v, etag) \<Rightarrow>
          if expected \<noteq> [] \<and> expected \<noteq> MatchAnyETag \<and> etag \<noteq> expected
          then Some ErrVersionMismatch else None)"

section \<open>Contracts of the interface\<close>

text \<open>
  The contract a coherent cache needs. It allows any error from any call, and a failed write
  may or may not have reached the stored object (an object store that times out): only that a
  read reports the stored document, that a successful write stores the object it returns, and
  that a call for one key leaves the others alone.
\<close>

locale driver =
  fixes d :: "'s Driver"
    and stored :: "'s \<Rightarrow> string \<Rightarrow> doc option"
    and drv_ok :: "'s \<Rightarrow> bool"
  assumes get_frame: "drv_ok s \<Longrightarrow> dGet d s k = (r, s') \<Longrightarrow> drv_ok s' \<and> stored s' = stored s"
    and get_result: "drv_ok s \<Longrightarrow> dGet d s k = (Inr (Some obj), s') \<Longrightarrow> stored s k = Some (doc_of obj)"
    and put_ok: "drv_ok s \<Longrightarrow> dPut d s k v e = (r, s') \<Longrightarrow> drv_ok s'"
    and put_frame: "drv_ok s \<Longrightarrow> dPut d s k v e = (r, s') \<Longrightarrow> k' \<noteq> k \<Longrightarrow> stored s' k' = stored s k'"
    and put_result: "drv_ok s \<Longrightarrow> dPut d s k v e = (Inr (Some obj), s') \<Longrightarrow> stored s' k = Some (doc_of obj)"
    and put_some: "drv_ok s \<Longrightarrow> dPut d s k v e \<noteq> (Inr None, s')"
    and delete_ok: "drv_ok s \<Longrightarrow> dDelete d s k e = (de, s') \<Longrightarrow> drv_ok s'"
    and delete_frame: "drv_ok s \<Longrightarrow> dDelete d s k e = (de, s') \<Longrightarrow> k' \<noteq> k \<Longrightarrow> stored s' k' = stored s k'"

text \<open>
  The exact contract of the interface comment: reads find every stored document, writes and
  deletes are guarded by their preconditions and change nothing when they fail.
\<close>

locale cas_driver = driver +
  assumes get_exact: "drv_ok s \<Longrightarrow> dGet d s k = (r, s') \<Longrightarrow>
      case stored s k of None \<Rightarrow> r = Inl ErrNotFound
      | Some dc \<Rightarrow> \<exists>obj. r = Inr (Some obj) \<and> oKey obj = k \<and> doc_of obj = dc"
    and put_exact: "drv_ok s \<Longrightarrow> dPut d s k v e = (r, s') \<Longrightarrow>
      case put_precondition e (stored s k) of
        Some err \<Rightarrow> r = Inl err \<and> stored s' = stored s
      | None \<Rightarrow> \<exists>obj. r = Inr (Some obj) \<and> oKey obj = k \<and> oValue obj = v
          \<and> stored s' = (stored s)(k \<mapsto> doc_of obj)"
    and delete_exact: "drv_ok s \<Longrightarrow> dDelete d s k e = (de, s') \<Longrightarrow>
      de = delete_precondition e (stored s k) \<and>
      stored s' = (if de = None then (stored s)(k := None) else stored s)"

text \<open>
  The same contracts for the drivers that keep them on some keys only, and what a write or a
  delete may leave behind when it fails. \<open>run_calls\<close> is a sequence of calls on a driver.
\<close>

datatype drv_call = CallGet string | CallPut string bytes string | CallDelete string string

fun call_key :: "drv_call \<Rightarrow> string" where
  "call_key (CallGet k) = k"
| "call_key (CallPut k v e) = k"
| "call_key (CallDelete k e) = k"

fun run_call :: "'s Driver \<Rightarrow> drv_call \<Rightarrow> 's \<Rightarrow> 's" where
  "run_call d (CallGet k) s = snd (dGet d s k)"
| "run_call d (CallPut k v e) s = snd (dPut d s k v e)"
| "run_call d (CallDelete k e) s = snd (dDelete d s k e)"

definition run_calls :: "'s Driver \<Rightarrow> drv_call list \<Rightarrow> 's \<Rightarrow> 's" where
  "run_calls d cs s = fold (run_call d) cs s"

text \<open>What may be stored at \<open>k\<close> after the calls, when \<open>cur\<close> was before.\<close>

definition traceable :: "drv_call list \<Rightarrow> string \<Rightarrow> doc option \<Rightarrow> doc option \<Rightarrow> bool" where
  "traceable cs k cur now \<longleftrightarrow> now = cur \<or>
     (case now of
        None \<Rightarrow> \<exists>e. CallDelete k e \<in> set cs
      | Some (v, etag) \<Rightarrow> \<exists>e. CallPut k v e \<in> set cs)"

locale keyed_driver =
  fixes d :: "'s Driver"
    and stored :: "'s \<Rightarrow> string \<Rightarrow> doc option"
    and drv_ok :: "'s \<Rightarrow> bool"
    and good :: "string \<Rightarrow> bool"
  assumes kget_frame: "drv_ok s \<Longrightarrow> good k \<Longrightarrow> dGet d s k = (r, s') \<Longrightarrow> drv_ok s' \<and> stored s' = stored s"
    and kget_result: "drv_ok s \<Longrightarrow> good k \<Longrightarrow> dGet d s k = (Inr (Some obj), s') \<Longrightarrow>
      oKey obj = k \<and> stored s k = Some (doc_of obj)"
    and kput_ok: "drv_ok s \<Longrightarrow> good k \<Longrightarrow> dPut d s k v e = (r, s') \<Longrightarrow> drv_ok s'"
    and kput_frame: "drv_ok s \<Longrightarrow> good k \<Longrightarrow> dPut d s k v e = (r, s') \<Longrightarrow> k' \<noteq> k \<Longrightarrow>
      stored s' k' = stored s k'"
    and kput_atomic: "drv_ok s \<Longrightarrow> good k \<Longrightarrow> dPut d s k v e = (r, s') \<Longrightarrow>
      stored s' k = stored s k \<or> (\<exists>etag. stored s' k = Some (v, etag))"
    and kput_result: "drv_ok s \<Longrightarrow> good k \<Longrightarrow> dPut d s k v e = (Inr (Some obj), s') \<Longrightarrow>
      oKey obj = k \<and> oValue obj = v \<and> stored s' k = Some (doc_of obj)"
    and kdelete_ok: "drv_ok s \<Longrightarrow> good k \<Longrightarrow> dDelete d s k e = (de, s') \<Longrightarrow> drv_ok s'"
    and kdelete_frame: "drv_ok s \<Longrightarrow> good k \<Longrightarrow> dDelete d s k e = (de, s') \<Longrightarrow> k' \<noteq> k \<Longrightarrow>
      stored s' k' = stored s k'"
    and kdelete_atomic: "drv_ok s \<Longrightarrow> good k \<Longrightarrow> dDelete d s k e = (de, s') \<Longrightarrow>
      stored s' k = stored s k \<or> stored s' k = None"
begin

lemma call_traceable:
  assumes "drv_ok s" and "good (call_key c)"
  shows "drv_ok (run_call d c s) \<and> traceable [c] k (stored s k) (stored (run_call d c s) k)"
proof (cases c)
  case (CallGet q)
  then show ?thesis
    using assms kget_frame [of s q "fst (dGet d s q)" "snd (dGet d s q)"] by (simp add: traceable_def)
next
  case (CallPut q v e)
  let ?r = "fst (dPut d s q v e)" and ?s = "snd (dPut d s q v e)"
  have "drv_ok ?s" "q \<noteq> k \<Longrightarrow> stored ?s k = stored s k"
    "stored ?s q = stored s q \<or> (\<exists>etag. stored ?s q = Some (v, etag))"
    using assms CallPut kput_ok [of s q v e ?r ?s] kput_frame [of s q v e ?r ?s k] kput_atomic [of s q v e ?r ?s]
    by simp_all
  then show ?thesis using CallPut by (cases "q = k") (auto simp: traceable_def)
next
  case (CallDelete q e)
  let ?r = "fst (dDelete d s q e)" and ?s = "snd (dDelete d s q e)"
  have "drv_ok ?s" "q \<noteq> k \<Longrightarrow> stored ?s k = stored s k" "stored ?s q = stored s q \<or> stored ?s q = None"
    using assms CallDelete kdelete_ok [of s q e ?r ?s] kdelete_frame [of s q e ?r ?s k] kdelete_atomic [of s q e ?r ?s]
    by simp_all
  then show ?thesis using CallDelete by (cases "q = k") (auto simp: traceable_def)
qed

lemma traceable_trans:
  "traceable cs k a b \<Longrightarrow> traceable cs' k b c \<Longrightarrow> traceable (cs @ cs') k a c"
  by (auto simp: traceable_def split: option.splits prod.splits)

text \<open>Whatever the calls returned: a document is what it was or was put there, never a mixture.\<close>

lemma calls_traceable:
  assumes "drv_ok s" and "\<forall>c \<in> set cs. good (call_key c)"
  shows "drv_ok (run_calls d cs s) \<and> traceable cs k (stored s k) (stored (run_calls d cs s) k)"
  using assms
proof (induction cs arbitrary: s)
  case Nil
  then show ?case by (simp add: run_calls_def traceable_def)
next
  case (Cons c cs)
  from Cons.prems call_traceable [of s c k]
  have c: "drv_ok (run_call d c s)" "traceable [c] k (stored s k) (stored (run_call d c s) k)" by simp_all
  with Cons.IH [OF c(1)] Cons.prems traceable_trans [OF c(2)] show ?case
    by (simp add: run_calls_def)
qed

end

locale keyed_cas = keyed_driver +
  assumes kget_exact: "drv_ok s \<Longrightarrow> good k \<Longrightarrow> dGet d s k = (r, s') \<Longrightarrow>
      case stored s k of None \<Rightarrow> r = Inl ErrNotFound
      | Some dc \<Rightarrow> \<exists>obj. r = Inr (Some obj) \<and> oKey obj = k \<and> doc_of obj = dc"
    and kput_exact: "drv_ok s \<Longrightarrow> good k \<Longrightarrow> dPut d s k v e = (r, s') \<Longrightarrow>
      case put_precondition e (stored s k) of
        Some err \<Rightarrow> r = Inl err \<and> stored s' = stored s
      | None \<Rightarrow> \<exists>obj. r = Inr (Some obj) \<and> oKey obj = k \<and> oValue obj = v
          \<and> stored s' = (stored s)(k \<mapsto> doc_of obj)"
    and kdelete_exact: "drv_ok s \<Longrightarrow> good k \<Longrightarrow> dDelete d s k e = (de, s') \<Longrightarrow>
      de = delete_precondition e (stored s k) \<and>
      stored s' = (if de = None then (stored s)(k := None) else stored s)"

sublocale cas_driver \<subseteq> keyed_cas d stored drv_ok "\<lambda>_. True"
proof (unfold_locales, goal_cases)
  case (1 s k r s')
  then show ?case using get_frame by blast
next
  case (2 s k obj s')
  then show ?case using get_exact [of s k "Inr (Some obj)" s'] by (auto split: option.splits)
next
  case (3 s k v e r s')
  then show ?case using put_ok by blast
next
  case (4 s k v e r s' k')
  then show ?case using put_frame by blast
next
  case (5 s k v e r s')
  then show ?case using put_exact [of s k v e r s'] by (auto simp: doc_of_def split: option.splits)
next
  case (6 s k v e obj s')
  then show ?case using put_exact [of s k v e "Inr (Some obj)" s'] by (auto split: option.splits)
next
  case (7 s k e de s')
  then show ?case using delete_ok by blast
next
  case (8 s k e de s' k')
  then show ?case using delete_frame by blast
next
  case (9 s k e de s')
  then show ?case using delete_exact [of s k e de s'] by (auto split: if_splits)
qed (use get_exact put_exact delete_exact in blast)+

text \<open>
  The contract of \<open>List\<close> that a page cache needs: a listing under a prefix is determined by
  what is listed for the keys under that prefix, listing changes nothing, and a write or delete
  changes the listing of its own key only, and nothing when it fails.
\<close>

locale list_driver =
  fixes d :: "'s Driver"
    and listed :: "'s \<Rightarrow> string \<Rightarrow> KeyMeta option"
    and drv_ok :: "'s \<Rightarrow> bool"
  assumes list_frame: "drv_ok s \<Longrightarrow> dList d s p opts = (r, s') \<Longrightarrow> drv_ok s' \<and> listed s' = listed s"
    and list_local: "drv_ok s \<Longrightarrow> drv_ok t \<Longrightarrow> \<forall>k. HasPrefix k p \<longrightarrow> listed s k = listed t k \<Longrightarrow>
      fst (dList d s p opts) = fst (dList d t p opts)"
    and lput_frame: "drv_ok s \<Longrightarrow> dPut d s k v e = (pr, s') \<Longrightarrow> drv_ok s' \<and>
      (\<forall>k'. k' \<noteq> k \<longrightarrow> listed s' k' = listed s k') \<and> ((\<exists>err. pr = Inl err) \<longrightarrow> listed s' = listed s)"
    and ldelete_frame: "drv_ok s \<Longrightarrow> dDelete d s k e = (de, s') \<Longrightarrow> drv_ok s' \<and>
      (\<forall>k'. k' \<noteq> k \<longrightarrow> listed s' k' = listed s k') \<and> (de \<noteq> None \<longrightarrow> listed s' = listed s)"
    and lget_frame: "drv_ok s \<Longrightarrow> dGet d s k = (gr, s') \<Longrightarrow> drv_ok s' \<and> listed s' = listed s"

text \<open>
  The contract of paging, with \<open>rest s p c\<close> the entries under prefix \<open>p\<close> that remain after
  cursor \<open>c\<close>. A page is a leading part of the rest, no longer than the limit; an empty next
  cursor means the page was all of it, any other cursor resumes right behind the page.
\<close>

definition page_opts :: "int \<Rightarrow> string \<Rightarrow> ListOptions" where
  "page_opts limit cursor = \<lparr>loLimit = limit, loCursor = cursor, loDelimiter = []\<rparr>"

definition is_page :: "KeyMeta list \<Rightarrow> (string \<Rightarrow> KeyMeta list) \<Rightarrow> int \<Rightarrow> KeyMeta list \<times> string \<Rightarrow> bool" where
  "is_page remaining after limit res \<longleftrightarrow>
     (let (page, next) = res in
      int (length page) \<le> limit \<and> page = take (length page) remaining \<and>
      (if next = [] then page = remaining
       else page \<noteq> [] \<and> after next = drop (length page) remaining))"

locale pager =
  fixes d :: "'s Driver"
    and rest :: "'s \<Rightarrow> string \<Rightarrow> string \<Rightarrow> KeyMeta list"
    and drv_ok :: "'s \<Rightarrow> bool"
  assumes page_result: "drv_ok s \<Longrightarrow> 0 < limit \<Longrightarrow> dList d s p (page_opts limit c) = (r, s') \<Longrightarrow>
      drv_ok s' \<and> (\<forall>p c. rest s' p c = rest s p c) \<and>
      (\<exists>res. r = Inr res \<and> is_page (rest s p c) (rest s p) limit res)"

section \<open>Laws of the data\<close>

lemma doc_of_simps [simp]: "doc_of obj = (v, e) \<longleftrightarrow> oValue obj = v \<and> oETag obj = e"
  by (simp add: doc_of_def)

lemma Error_sentinels_distinct:
  "Error ErrNotFound \<noteq> Error ErrVersionMismatch" "Error ErrNotFound \<noteq> Error ErrAlreadyExists"
  "Error ErrVersionMismatch \<noteq> Error ErrAlreadyExists"
  by simp_all

lemma put_precondition_unconditional [simp]: "put_precondition [] cur = None"
  by (simp add: put_precondition_def)

lemma put_precondition_create [simp]:
  "put_precondition MatchAnyETag cur = (if cur = None then None else Some ErrAlreadyExists)"
  by (simp add: put_precondition_def MatchAnyETag_def)

lemma go_result_cases:
  fixes r :: "gerror + 'a option"
  obtains (failed) err where "r = Inl err" | (nilobj) "r = Inr None" | (found) obj where "r = Inr (Some obj)"
  by (metis option.exhaust sum.exhaust)

end
