(* ===== verification/MemoryDriver.thy ===== *)
theory MemoryDriver
  imports Storage
begin

text \<open>
  pkg/storage/memory/memory.go: the in-memory driver. Its state is the data map and its clock,
  the function field of the struct: the readings it will return and how many were taken. The
  SHA-256 of the ETag is the parameter \<open>sha\<close>; no property depends on it. The driver is shown
  to satisfy the exact compare-and-swap contract, the listing contract and the paging contract
  of the interface.
\<close>

section \<open>Definitions\<close>

record entry =
  e_value :: bytes
  e_etag :: string
  e_modTime :: gotime

record MemDriver =
  mem_data :: "(string, entry) gomap"
  mem_clock :: "nat \<Rightarrow> gotime"
  mem_ticks :: nat

definition mem_NewDriver :: "(nat \<Rightarrow> gotime) \<Rightarrow> MemDriver" where
  "mem_NewDriver clk = \<lparr>mem_data = [], mem_clock = clk, mem_ticks = 0\<rparr>"

definition generateETag :: "(bytes \<Rightarrow> bytes) \<Rightarrow> bytes \<Rightarrow> gotime \<Rightarrow> string" where
  "generateETag sha data modTime =
     [CHR 0x22] @ hex_of_bytes (take 12 (sha (data @ bytes_of_string (show_int modTime)))) @ [CHR 0x22]"

definition mem_object :: "string \<Rightarrow> entry \<Rightarrow> Object" where
  "mem_object key e =
     \<lparr>oKey = key, oValue = e_value e, oETag = e_etag e, oModTime = e_modTime e, oMetadata = []\<rparr>"

definition mem_Get :: "MemDriver \<Rightarrow> string \<Rightarrow> (gerror + Object option) \<times> MemDriver" where
  "mem_Get d key =
     (case map_of (mem_data d) key of
        None \<Rightarrow> (Inl ErrNotFound, d)
      | Some e \<Rightarrow> (Inr (Some (mem_object key e)), d))"

definition mem_write :: "(bytes \<Rightarrow> bytes) \<Rightarrow> MemDriver \<Rightarrow> string \<Rightarrow> bytes \<Rightarrow> (gerror + Object option) \<times> MemDriver" where
  "mem_write sha d key value =
     (let now = mem_clock d (mem_ticks d);
          newETag = generateETag sha value now;
          newEntry = \<lparr>e_value = value, e_etag = newETag, e_modTime = now\<rparr>
      in (Inr (Some \<lparr>oKey = key, oValue = value, oETag = newETag, oModTime = now, oMetadata = []\<rparr>),
          d\<lparr>mem_data := AList.update key newEntry (mem_data d), mem_ticks := mem_ticks d + 1\<rparr>))"

definition mem_Put ::
  "(bytes \<Rightarrow> bytes) \<Rightarrow> MemDriver \<Rightarrow> string \<Rightarrow> bytes \<Rightarrow> string \<Rightarrow> (gerror + Object option) \<times> MemDriver" where
  "mem_Put sha d key value expectedETag =
     (let existing = map_of (mem_data d) key in
      if expectedETag \<noteq> [] then
        (if expectedETag = MatchAnyETag then
           (case existing of
              Some _ \<Rightarrow> (Inl ErrAlreadyExists, d)
            | None \<Rightarrow> mem_write sha d key value)
         else
           (case existing of
              None \<Rightarrow> (Inl ErrNotFound, d)
            | Some e \<Rightarrow>
                if e_etag e \<noteq> expectedETag then (Inl ErrVersionMismatch, d)
                else mem_write sha d key value))
      else mem_write sha d key value)"

definition mem_Delete :: "MemDriver \<Rightarrow> string \<Rightarrow> string \<Rightarrow> gerror option \<times> MemDriver" where
  "mem_Delete d key expectedETag =
     (case map_of (mem_data d) key of
        None \<Rightarrow> (Some ErrNotFound, d)
      | Some existing \<Rightarrow>
          if expectedETag \<noteq> [] \<and> expectedETag \<noteq> MatchAnyETag \<and> e_etag existing \<noteq> expectedETag
          then (Some ErrVersionMismatch, d)
          else (None, d\<lparr>mem_data := AList.delete key (mem_data d)\<rparr>))"

definition mem_meta :: "string \<Rightarrow> entry \<Rightarrow> KeyMeta" where
  "mem_meta k e =
     \<lparr>kmKey = k, kmSize = int (length (e_value e)), kmETag = e_etag e, kmModTime = e_modTime e\<rparr>"

definition mem_list_keys :: "MemDriver \<Rightarrow> string \<Rightarrow> string \<Rightarrow> string list" where
  "mem_list_keys d prefx cursor =
     sort (filter (\<lambda>k. HasPrefix k prefx \<and> \<not> (cursor \<noteq> [] \<and> k \<le> cursor)) (map fst (mem_data d)))"

text \<open>
  The collecting loop of \<open>List\<close>. The map lookup cannot fail for a key of the iteration; the
  equation for the impossible case skips the key.
\<close>

fun mem_list_loop ::
  "MemDriver \<Rightarrow> string \<Rightarrow> ListOptions \<Rightarrow> string list \<Rightarrow> KeyMeta list \<Rightarrow> string \<Rightarrow> KeyMeta list \<times> string" where
  "mem_list_loop d prefx opts [] results nextCursor = (results, nextCursor)"
| "mem_list_loop d prefx opts (k # ks) results nextCursor =
     (if loLimit opts > 0 \<and> int (length results) \<ge> loLimit opts then (results, nextCursor)
      else
        let rel = TrimPrefix k prefx;
            plain = (case map_of (mem_data d) k of
                None \<Rightarrow> mem_list_loop d prefx opts ks results nextCursor
              | Some e \<Rightarrow> mem_list_loop d prefx opts ks (results @ [mem_meta k e]) k)
        in if loDelimiter opts \<noteq> [] then
             (case Index rel (loDelimiter opts) of
                Some idx \<Rightarrow>
                  let dirKey = prefx @ take (idx + length (loDelimiter opts)) rel in
                  if results \<noteq> [] \<and> kmKey (last results) = dirKey
                  then mem_list_loop d prefx opts ks results nextCursor
                  else mem_list_loop d prefx opts ks
                    (results @ [\<lparr>kmKey = dirKey, kmSize = 0, kmETag = [], kmModTime = zeroTime\<rparr>]) k
              | None \<Rightarrow> plain)
           else plain)"

definition mem_List ::
  "MemDriver \<Rightarrow> string \<Rightarrow> ListOptions \<Rightarrow> (gerror + (KeyMeta list \<times> string)) \<times> MemDriver" where
  "mem_List d prefx opts =
     (let (results, nextCursor) =
        mem_list_loop d prefx opts (mem_list_keys d prefx (loCursor opts)) [] [];
          nextCursor' = (if loLimit opts \<le> 0 \<or> int (length results) < loLimit opts then [] else nextCursor)
      in (Inr (results, nextCursor'), d))"

definition mem_Close :: "MemDriver \<Rightarrow> gerror option \<times> MemDriver" where
  "mem_Close d = (None, d)"

text \<open>The interface value that \<open>NewDriver\<close> returns.\<close>

definition mem_driver :: "(bytes \<Rightarrow> bytes) \<Rightarrow> MemDriver Driver" where
  "mem_driver sha =
     \<lparr>dGet = mem_Get, dPut = mem_Put sha, dDelete = mem_Delete, dList = mem_List, dClose = mem_Close\<rparr>"

section \<open>Abstractions\<close>

definition mem_stored :: "MemDriver \<Rightarrow> string \<Rightarrow> doc option" where
  "mem_stored d k = map_option (\<lambda>e. (e_value e, e_etag e)) (map_of (mem_data d) k)"

definition mem_listed :: "MemDriver \<Rightarrow> string \<Rightarrow> KeyMeta option" where
  "mem_listed d k = map_option (mem_meta k) (map_of (mem_data d) k)"

definition mem_ok :: "MemDriver \<Rightarrow> bool" where
  "mem_ok d \<longleftrightarrow> wf_map (mem_data d)"

definition mem_rest :: "MemDriver \<Rightarrow> string \<Rightarrow> string \<Rightarrow> KeyMeta list" where
  "mem_rest d prefx cursor = map (\<lambda>k. the (mem_listed d k)) (mem_list_keys d prefx cursor)"

text \<open>The cursor is a key, so paging needs that the empty string, Go's "no cursor", is none.\<close>

definition mem_pageable :: "MemDriver \<Rightarrow> bool" where
  "mem_pageable d \<longleftrightarrow> mem_ok d \<and> map_of (mem_data d) [] = None"

section \<open>The compare-and-swap contract\<close>

lemma mem_ok_NewDriver [inv_intros]: "mem_ok (mem_NewDriver clk)"
  by (simp add: mem_ok_def mem_NewDriver_def)

lemma mem_stored_NewDriver [simp]: "mem_stored (mem_NewDriver clk) = Map.empty"
  by (simp add: mem_stored_def mem_NewDriver_def fun_eq_iff)

lemma mem_write_spec:
  assumes "mem_write sha d k v = (r, d')"
  obtains obj where "r = Inr (Some obj)" "oKey obj = k" "oValue obj = v"
    "oETag obj = generateETag sha v (mem_clock d (mem_ticks d))"
    "mem_stored d' = (mem_stored d)(k \<mapsto> doc_of obj)"
    "\<And>k'. k' \<noteq> k \<Longrightarrow> mem_listed d' k' = mem_listed d k'" "mem_ok d \<Longrightarrow> mem_ok d'"
  using assms that
  by (auto simp: mem_write_def Let_def mem_stored_def mem_listed_def mem_ok_def doc_of_def fun_eq_iff)

lemma mem_Put_eq:
  "mem_Put sha d k v e =
     (case put_precondition e (mem_stored d k) of
        Some err \<Rightarrow> (Inl err, d)
      | None \<Rightarrow> mem_write sha d k v)"
  by (auto simp: mem_Put_def put_precondition_def mem_stored_def Let_def split: option.splits)

lemma mem_Delete_eq:
  "mem_Delete d k e =
     (case delete_precondition e (mem_stored d k) of
        Some err \<Rightarrow> (Some err, d)
      | None \<Rightarrow> (None, d\<lparr>mem_data := AList.delete k (mem_data d)\<rparr>))"
  by (auto simp: mem_Delete_def delete_precondition_def mem_stored_def split: option.splits)

lemma mem_stored_delete [simp]:
  "mem_stored (d\<lparr>mem_data := AList.delete k (mem_data d)\<rparr>) = (mem_stored d)(k := None)"
  by (auto simp: mem_stored_def)

lemma mem_listed_delete [simp]:
  "mem_listed (d\<lparr>mem_data := AList.delete k (mem_data d)\<rparr>) = (mem_listed d)(k := None)"
  by (auto simp: mem_listed_def)

lemma mem_driver_simps [simp]:
  "dGet (mem_driver sha) = mem_Get" "dPut (mem_driver sha) = mem_Put sha"
  "dDelete (mem_driver sha) = mem_Delete" "dList (mem_driver sha) = mem_List"
  "dClose (mem_driver sha) = mem_Close"
  by (simp_all add: mem_driver_def)

lemma mem_Get_state [simp]: "snd (mem_Get d k) = d"
  by (simp add: mem_Get_def split: option.splits)

lemma mem_Put_cases:
  assumes "mem_Put sha d k v e = (r, d')"
  obtains (refused) err where "put_precondition e (mem_stored d k) = Some err" "r = Inl err" "d' = d"
  | (written) "put_precondition e (mem_stored d k) = None" "mem_write sha d k v = (r, d')"
  using assms by (auto simp: mem_Put_eq split: option.splits)

lemma mem_Delete_cases:
  assumes "mem_Delete d k e = (de, d')"
  obtains (refused) err where "delete_precondition e (mem_stored d k) = Some err" "de = Some err" "d' = d"
  | (deleted) "delete_precondition e (mem_stored d k) = None" "de = None"
      "d' = d\<lparr>mem_data := AList.delete k (mem_data d)\<rparr>"
  using assms by (auto simp: mem_Delete_eq split: option.splits)

interpretation mem: cas_driver "mem_driver sha" mem_stored mem_ok
proof (unfold_locales, goal_cases)
  case (1 s k r s')
  then show ?case by (simp add: mem_Get_def split: option.splits)
next
  case (2 s k obj s')
  then show ?case
    by (auto simp: mem_Get_def mem_stored_def mem_object_def doc_of_def split: option.splits)
next
  case (3 s k v e r s')
  then show ?case by (auto elim!: mem_Put_cases mem_write_spec)
next
  case (4 s k v e r s' k')
  then show ?case by (auto elim!: mem_Put_cases mem_write_spec)
next
  case (5 s k v e obj s')
  then show ?case by (auto elim!: mem_Put_cases mem_write_spec)
next
  case (6 s k v e s')
  then show ?case by (auto elim!: mem_Put_cases mem_write_spec)
next
  case (7 s k e de s')
  then show ?case by (auto elim!: mem_Delete_cases simp: mem_ok_def)
next
  case (8 s k e de s' k')
  then show ?case by (auto elim!: mem_Delete_cases)
next
  case (9 s k r s')
  then show ?case
    by (auto simp: mem_Get_def mem_stored_def mem_object_def doc_of_def split: option.splits)
next
  case (10 s k v e r s')
  then show ?case by (auto elim!: mem_Put_cases mem_write_spec)
next
  case (11 s k e de s')
  then show ?case by (auto elim!: mem_Delete_cases)
qed

section \<open>The listing and paging contracts\<close>

lemma mem_list_keys_set:
  assumes "mem_ok d"
  shows "mem_list_keys d p c =
    sorted_list_of_set {k. HasPrefix k p \<and> \<not> (c \<noteq> [] \<and> k \<le> c) \<and> mem_listed d k \<noteq> None}"
proof -
  let ?ks = "filter (\<lambda>k. HasPrefix k p \<and> \<not> (c \<noteq> [] \<and> k \<le> c)) (map fst (mem_data d))"
  have "set ?ks = {k. HasPrefix k p \<and> \<not> (c \<noteq> [] \<and> k \<le> c) \<and> mem_listed d k \<noteq> None}"
    by (auto simp: mem_listed_def keys_iff)
  moreover have "sort ?ks = sorted_list_of_set (set ?ks)"
    using assms by (simp only: sorted_list_of_set_sort_remdups distinct_remdups_id
        distinct_filter mem_ok_def)
  ultimately show ?thesis by (simp only: mem_list_keys_def)
qed

lemma mem_list_keys_props:
  assumes "mem_ok d"
  shows "sorted (mem_list_keys d p c)" "distinct (mem_list_keys d p c)"
    "k \<in> set (mem_list_keys d p c) \<longleftrightarrow>
      HasPrefix k p \<and> \<not> (c \<noteq> [] \<and> k \<le> c) \<and> mem_listed d k \<noteq> None"
  using assms
  by (auto simp: mem_list_keys_def mem_ok_def mem_listed_def keys_iff intro: distinct_filter)

lemma mem_list_loop_cong:
  assumes "\<forall>k \<in> set ks. mem_listed d k = mem_listed d' k"
  shows "mem_list_loop d p opts ks res nc = mem_list_loop d' p opts ks res nc"
  using assms
proof (induction ks arbitrary: res nc)
  case (Cons k ks)
  from Cons.prems have "mem_listed d k = mem_listed d' k" by simp
  moreover have "mem_list_loop d p opts ks a b = mem_list_loop d' p opts ks a b" for a b
    using Cons by simp
  ultimately show ?case
    by (cases "map_of (mem_data d) k"; cases "map_of (mem_data d') k")
      (simp_all add: mem_listed_def Let_def split: option.split)
qed simp

text \<open>Without a delimiter the loop appends the entries of the leading keys, up to the limit.\<close>

lemma mem_list_loop_plain:
  assumes "loDelimiter opts = []" and "0 < loLimit opts" and "int (length res) \<le> loLimit opts"
    and "\<forall>k \<in> set ks. mem_listed d k \<noteq> None"
  shows "mem_list_loop d p opts ks res nc =
    (let page = take (nat (loLimit opts) - length res) ks in
     (res @ map (\<lambda>k. the (mem_listed d k)) page, if page = [] then nc else last page))"
  using assms
proof (induction ks arbitrary: res nc)
  case (Cons k ks)
  show ?case
  proof (cases "int (length res) \<ge> loLimit opts")
    case True
    with Cons.prems show ?thesis by simp
  next
    case False
    then obtain m where m: "nat (loLimit opts) - length res = Suc m"
      using Cons.prems(3) by (metis not_gr0 not0_implies_Suc diff_is_0_eq nat_le_iff)
    then have m': "nat (loLimit opts) - Suc (length res) = m" by simp
    from Cons.prems obtain e where "map_of (mem_data d) k = Some e"
      by (auto simp: mem_listed_def)
    with Cons False m m' show ?thesis
      by (auto simp: Let_def mem_listed_def)
  qed
qed simp

lemma mem_List_state [simp]: "snd (mem_List d p opts) = d"
  by (simp add: mem_List_def Let_def split: prod.splits)

interpretation mem: list_driver "mem_driver sha" mem_listed mem_ok
proof (unfold_locales, goal_cases)
  case (1 s p opts r s')
  then show ?case by (metis mem_driver_simps(4) mem_List_state snd_conv)
next
  case (2 s t p opts)
  then have keys: "mem_list_keys s p (loCursor opts) = mem_list_keys t p (loCursor opts)"
    by (simp add: mem_list_keys_set) (metis (lifting))
  moreover have "\<forall>k \<in> set (mem_list_keys t p (loCursor opts)). mem_listed s k = mem_listed t k"
    using 2 by (auto simp: mem_list_keys_props(3))
  ultimately show ?case
    using mem_list_loop_cong [of "mem_list_keys t p (loCursor opts)" s t p opts "[]" "[]"]
    by (simp add: mem_List_def Let_def split: prod.splits)
next
  case (3 s k v e pr s')
  then show ?case by (auto elim!: mem_Put_cases mem_write_spec)
next
  case (4 s k e de s')
  then show ?case by (auto elim!: mem_Delete_cases simp: mem_ok_def)
next
  case (5 s k gr s')
  then show ?case by (metis mem_driver_simps(1) mem_Get_state snd_conv)
qed

lemma mem_List_page:
  assumes "mem_ok d" and "0 < limit"
  shows "mem_List d p (page_opts limit c) =
    (let page = take (nat limit) (mem_list_keys d p c) in
     (Inr (map (\<lambda>k. the (mem_listed d k)) page,
       if length page < nat limit then [] else last page), d))"
proof -
  have "\<forall>k \<in> set (mem_list_keys d p c). mem_listed d k \<noteq> None"
    using assms(1) by (simp add: mem_list_keys_props(3))
  then have "mem_list_loop d p (page_opts limit c) (mem_list_keys d p c) [] [] =
    (let page = take (nat limit) (mem_list_keys d p c) in
     (map (\<lambda>k. the (mem_listed d k)) page, if page = [] then [] else last page))"
    using assms(2) mem_list_loop_plain [of "page_opts limit c" "[]"] by (simp add: page_opts_def)
  with assms(2) show ?thesis
    by (auto simp: mem_List_def page_opts_def Let_def)
qed

text \<open>Resuming at the last key of a page leaves exactly what follows the page.\<close>

lemma mem_list_keys_resume:
  assumes "mem_ok d" and "n \<noteq> 0" and "n \<le> length (mem_list_keys d p c)"
    and "last (take n (mem_list_keys d p c)) \<noteq> []"
  shows "mem_list_keys d p (last (take n (mem_list_keys d p c))) = drop n (mem_list_keys d p c)"
proof -
  define ks where "ks = mem_list_keys d p c"
  define l where "l = ks ! (n - 1)"
  note ks = mem_list_keys_props [OF assms(1), where p = p and c = c, folded ks_def]
  have sd: "sorted_wrt (<) ks" using ks(1,2) by (simp add: strict_sorted_iff)
  have ne: "take n ks \<noteq> []" using assms(2,3) by (auto simp: ks_def)
  then have l: "last (take n ks) = l" "l \<in> set ks"
    using assms(2,3) by (auto simp: l_def ks_def last_conv_nth min_def)
  have split: "sorted_wrt (<) (take n ks @ drop n ks)" using sd by simp
  have upper: "l < k" if "k \<in> set (drop n ks)" for k
    using split l(1) that last_in_set [OF ne] by (metis sorted_wrt_append)
  have lower: "k \<le> l" if k: "k \<in> set (take n ks)" for k
  proof -
    from k obtain i where i: "i < n" "k = ks ! i"
      using assms(3) by (auto simp: in_set_conv_nth ks_def)
    with sorted_nth_mono [OF ks(1), of i "n - 1"] assms(2,3) show ?thesis
      by (auto simp: l_def ks_def)
  qed
  have c_le: "\<not> (c \<noteq> [] \<and> k \<le> c)" if "l < k" for k
    using l(2) that ks(3) [of l] by (meson order.strict_implies_order order.trans)
  have "k \<in> set (mem_list_keys d p l) \<longleftrightarrow> k \<in> set (drop n ks)" for k
  proof -
    have "k \<in> set (mem_list_keys d p l) \<longleftrightarrow> k \<in> set ks \<and> l < k"
      using assms(4) c_le l by (auto simp: mem_list_keys_props(3) [OF assms(1)] ks(3) ks_def)
    also have "\<dots> \<longleftrightarrow> k \<in> set (drop n ks)"
      using upper lower by (metis append_take_drop_id Un_iff set_append leD in_set_dropD)
    finally show ?thesis .
  qed
  then have "set (mem_list_keys d p l) = set (drop n ks)" by blast
  moreover have "sorted_wrt (<) (mem_list_keys d p l)" "sorted_wrt (<) (drop n ks)"
    using mem_list_keys_props [OF assms(1)] split
    by (simp_all add: strict_sorted_iff sorted_wrt_append)
  ultimately have "mem_list_keys d p l = drop n ks" by (intro strict_sorted_equal) auto
  then show ?thesis by (simp add: l ks_def [symmetric])
qed

interpretation mem: pager "mem_driver sha" mem_rest mem_pageable
proof (unfold_locales, goal_cases)
  case (1 s limit p c r s')
  let ?ks = "mem_list_keys s p c" and ?page = "take (nat limit) (mem_list_keys s p c)"
  let ?res = "(map (\<lambda>k. the (mem_listed s k)) ?page,
    if length ?page < nat limit then [] else last ?page)"
  have ok: "mem_ok s" and noempty: "map_of (mem_data s) [] = None"
    using 1 by (simp_all add: mem_pageable_def)
  have r: "r = Inr ?res" "s' = s"
    using 1 mem_List_page [OF ok, of limit p c] by (auto simp: Let_def)
  have "is_page (mem_rest s p c) (mem_rest s p) limit ?res"
  proof (cases "length ?page < nat limit")
    case True
    then show ?thesis using 1(2) by (simp add: is_page_def mem_rest_def)
  next
    case False
    then have n: "nat limit \<noteq> 0" "nat limit \<le> length ?ks" using 1(2) by auto
    then have "last ?page \<in> set ?ks" by (metis in_set_takeD last_in_set take_eq_Nil le_zero_eq list.size(3))
    then have "last ?page \<noteq> []"
      using noempty by (auto simp: mem_list_keys_props(3) [OF ok] mem_listed_def)
    with n mem_list_keys_resume [OF ok n this] False show ?thesis
      by (auto simp: is_page_def mem_rest_def drop_map take_map)
  qed
  with r 1 show ?case by simp
qed

section \<open>Properties\<close>

text \<open>
  C32: the in-memory driver implements the documented compare-and-swap semantics exactly. A read
  returns the stored payload and ETag or ErrNotFound; a write whose precondition fails reports
  the documented error and changes nothing, any other write stores the payload under a new ETag
  and leaves every other key alone; a delete likewise.
\<close>

theorem mem_cas_semantics:
  "fst (mem_Get d k) =
     (case map_of (mem_data d) k of None \<Rightarrow> Inl ErrNotFound | Some e \<Rightarrow> Inr (Some (mem_object k e)))
   \<and> (case put_precondition e (mem_stored d k) of
        Some err \<Rightarrow> mem_Put sha d k v e = (Inl err, d)
      | None \<Rightarrow> \<exists>obj d'. mem_Put sha d k v e = (Inr (Some obj), d') \<and> oKey obj = k \<and> oValue obj = v
          \<and> mem_stored d' = (mem_stored d)(k \<mapsto> (v, oETag obj)) \<and> fst (mem_Get d' k) = Inr (Some obj))
   \<and> (case delete_precondition e (mem_stored d k) of
        Some err \<Rightarrow> mem_Delete d k e = (Some err, d)
      | None \<Rightarrow> \<exists>d'. mem_Delete d k e = (None, d') \<and> mem_stored d' = (mem_stored d)(k := None))"
proof (intro conjI)
  show "case put_precondition e (mem_stored d k) of
        Some err \<Rightarrow> mem_Put sha d k v e = (Inl err, d)
      | None \<Rightarrow> \<exists>obj d'. mem_Put sha d k v e = (Inr (Some obj), d') \<and> oKey obj = k \<and> oValue obj = v
          \<and> mem_stored d' = (mem_stored d)(k \<mapsto> (v, oETag obj)) \<and> fst (mem_Get d' k) = Inr (Some obj)"
    by (auto simp: mem_Put_eq mem_write_def mem_stored_def mem_Get_def mem_object_def Let_def
        fun_eq_iff split: option.split)
qed (auto simp: mem_Get_def mem_Delete_eq split: option.split)

text \<open>
  No lost update. After a conditional write against ETag \<open>e\<close> succeeded, a second writer
  that still holds \<open>e\<close> is refused with ErrVersionMismatch and the first write stays, unless the
  new ETag happens to equal \<open>e\<close>.
\<close>

theorem mem_no_lost_update:
  assumes "mem_Put sha d k v e = (Inr (Some obj), d')" and "e \<noteq> []" and "e \<noteq> MatchAnyETag"
    and "oETag obj \<noteq> e"
  shows "mem_Put sha d' k w e = (Inl ErrVersionMismatch, d') \<and> mem_stored d' k = Some (v, oETag obj)"
proof -
  from assms(1) have st: "mem_stored d' k = Some (v, oETag obj)"
    by (auto elim!: mem_Put_cases mem_write_spec simp: doc_of_def)
  with assms(2-4) have "put_precondition e (mem_stored d' k) = Some ErrVersionMismatch"
    by (simp add: put_precondition_def)
  with st show ?thesis by (simp add: mem_Put_eq)
qed

theorem mem_no_lost_update_witness:
  "let d0 = snd (mem_Put (\<lambda>bs. bs) (mem_NewDriver (\<lambda>n. int n)) ''k'' [1] []);
       e = generateETag (\<lambda>bs. bs) [1] 0;
       d1 = snd (mem_Put (\<lambda>bs. bs) d0 ''k'' [2] e)
   in mem_Put (\<lambda>bs. bs) d1 ''k'' [3] e = (Inl ErrVersionMismatch, d1)"
proof -
  let ?sha = "\<lambda>bs::bytes. bs"
  let ?e = "generateETag ?sha [1] 0"
  let ?d0 = "snd (mem_Put ?sha (mem_NewDriver (\<lambda>n. int n)) ''k'' [1] [])"
  have digits: "show_int 0 = ''0''" "show_int 1 = ''1''"
    by code_simp+
  have e: "?e \<noteq> []" "?e \<noteq> MatchAnyETag" "generateETag ?sha [2] 1 \<noteq> ?e"
    by (simp_all add: generateETag_def MatchAnyETag_def digits hex_of_bytes_def hexdigit_def)
  have put: "mem_Put ?sha ?d0 ''k'' [2] ?e =
    (Inr (Some \<lparr>oKey = ''k'', oValue = [2], oETag = generateETag ?sha [2] 1, oModTime = 1, oMetadata = []\<rparr>),
     snd (mem_Put ?sha ?d0 ''k'' [2] ?e))"
    using e by (simp add: mem_Put_def mem_write_def mem_NewDriver_def Let_def)
  show ?thesis
    using mem_no_lost_update [OF put e(1,2), of "[3]"] e(3) by (simp add: Let_def)
qed

text \<open>
  Paging of the in-memory driver. With a positive limit and no delimiter, \<open>List\<close> returns
  the entries of the smallest matching keys after the cursor in ascending order; an empty next
  cursor means nothing is left, any other cursor continues exactly behind the page. (The empty
  string is not a stored key: as a cursor it means "from the start".)
\<close>

theorem mem_List_pages:
  assumes "mem_pageable d" and "0 < limit"
  shows "\<exists>page nxt. mem_List d p (page_opts limit c) = (Inr (page, nxt), d)
    \<and> is_page (mem_rest d p c) (mem_rest d p) limit (page, nxt)
    \<and> sorted_wrt (<) (map kmKey (mem_rest d p c))
    \<and> set (map kmKey (mem_rest d p c)) = {k. HasPrefix k p \<and> (c = [] \<or> c < k) \<and> mem_stored d k \<noteq> None}"
proof -
  from assms have ok: "mem_ok d" by (simp add: mem_pageable_def)
  obtain page nxt where pg: "mem_List d p (page_opts limit c) = (Inr (page, nxt), d)"
    "is_page (mem_rest d p c) (mem_rest d p) limit (page, nxt)"
    using mem.page_result [OF assms, of undefined p c "fst (mem_List d p (page_opts limit c))" d]
    by (auto simp: prod_eq_iff)
  have key: "map kmKey (mem_rest d p c) = mem_list_keys d p c"
    using mem_list_keys_props(3) [OF ok, of _ p c]
    by (auto simp: mem_rest_def mem_listed_def mem_meta_def intro!: map_idI)
  have "sorted_wrt (<) (mem_list_keys d p c)"
    using mem_list_keys_props(1,2) [OF ok] by (simp add: strict_sorted_iff)
  with pg key show ?thesis
    using mem_list_keys_props(3) [OF ok] by (auto simp: mem_stored_def mem_listed_def not_le)
qed

theorem mem_List_pages_witness:
  "let d = snd (mem_Put (\<lambda>bs. bs) (mem_NewDriver (\<lambda>n. 0)) ''a/b'' [7] []) in
   \<exists>page nxt. mem_List d ''a/'' (page_opts 5 []) = (Inr (page, nxt), d)
     \<and> is_page (mem_rest d ''a/'' []) (mem_rest d ''a/'') 5 (page, nxt)"
proof -
  let ?d = "snd (mem_Put (\<lambda>bs. bs) (mem_NewDriver (\<lambda>n. 0)) ''a/b'' [7] [])"
  have "mem_pageable ?d"
    by (simp add: mem_pageable_def mem_ok_def mem_Put_def mem_write_def mem_NewDriver_def Let_def)
  then show ?thesis using mem_List_pages [of ?d 5 "''a/''" "[]"] by (auto simp: Let_def)
qed

text \<open>
  Listing with a delimiter is not paged consistently. The cursor of a page that ends with a
  directory entry is the first key inside that directory, so the next page starts inside it and
  reports the same directory again: two one-entry pages over the keys a/1, a/2 return the
  directory a/ twice.
\<close>

theorem mem_List_delimiter_repeats:
  "let put = (\<lambda>d k. snd (mem_Put (\<lambda>bs. bs) d k [] []));
       d = put (put (mem_NewDriver (\<lambda>n. 0)) ''a/1'') ''a/2'';
       opts = (\<lambda>c. \<lparr>loLimit = 1, loCursor = c, loDelimiter = ''/''\<rparr>);
       dir = \<lparr>kmKey = ''a/'', kmSize = 0, kmETag = [], kmModTime = zeroTime\<rparr>
   in fst (mem_List d [] (opts [])) = Inr ([dir], ''a/1'')
      \<and> fst (mem_List d [] (opts ''a/1'')) = Inr ([dir], ''a/2'')"
  by (simp add: Let_def mem_Put_def mem_write_def mem_NewDriver_def mem_List_def mem_list_keys_def
      TrimPrefix_def)

end
