(* ===== verification/GoList.thy ===== *)
theory GoList
  imports JayPrelude
begin

text \<open>
  Package container/list, the doubly linked list under both caches. An element pointer is its
  allocation number, so that pointer comparison and in-place mutation of an element's value
  can be written as the code has them; the list itself is the sequence of its elements from
  front to back. \<open>gl_ok\<close> is the representation invariant: no element occurs twice and the next
  allocation number is fresh.
\<close>

section \<open>Definitions\<close>

record 'v golist =
  gl_elems :: "(nat \<times> 'v) list"
  gl_next :: nat

definition gl_New :: "'v golist" where
  "gl_New = \<lparr>gl_elems = [], gl_next = 0\<rparr>"

definition gl_PushFront :: "'v \<Rightarrow> 'v golist \<Rightarrow> nat \<times> 'v golist" where
  "gl_PushFront v l = (gl_next l, l\<lparr>gl_elems := (gl_next l, v) # gl_elems l, gl_next := Suc (gl_next l)\<rparr>)"

definition gl_Remove :: "nat \<Rightarrow> 'v golist \<Rightarrow> 'v golist" where
  "gl_Remove el l = l\<lparr>gl_elems := AList.delete el (gl_elems l)\<rparr>"

definition gl_Value :: "nat \<Rightarrow> 'v golist \<Rightarrow> 'v option" where
  "gl_Value el l = map_of (gl_elems l) el"

text \<open>\<open>MoveToFront\<close> does nothing for an element that is not of this list.\<close>

definition gl_MoveToFront :: "nat \<Rightarrow> 'v golist \<Rightarrow> 'v golist" where
  "gl_MoveToFront el l =
     (case gl_Value el l of
        None \<Rightarrow> l
      | Some v \<Rightarrow> l\<lparr>gl_elems := (el, v) # AList.delete el (gl_elems l)\<rparr>)"

text \<open>Assigning through the pointer in \<open>el.Value\<close>.\<close>

definition gl_Mutate :: "nat \<Rightarrow> ('v \<Rightarrow> 'v) \<Rightarrow> 'v golist \<Rightarrow> 'v golist" where
  "gl_Mutate el f l = l\<lparr>gl_elems := map (\<lambda>(i, v). (i, if i = el then f v else v)) (gl_elems l)\<rparr>"

definition gl_Front :: "'v golist \<Rightarrow> (nat \<times> 'v) option" where
  "gl_Front l = (case gl_elems l of [] \<Rightarrow> None | x # _ \<Rightarrow> Some x)"

definition gl_Back :: "'v golist \<Rightarrow> (nat \<times> 'v) option" where
  "gl_Back l = (if gl_elems l = [] then None else Some (last (gl_elems l)))"

definition gl_Len :: "'v golist \<Rightarrow> nat" where
  "gl_Len l = length (gl_elems l)"

definition gl_ok :: "'v golist \<Rightarrow> bool" where
  "gl_ok l \<longleftrightarrow> wf_map (gl_elems l) \<and> (\<forall>i \<in> fst ` set (gl_elems l). i < gl_next l)"

section \<open>Laws\<close>

lemma gl_ok_New [inv_intros]: "gl_ok gl_New"
  by (simp add: gl_ok_def gl_New_def)

lemma gl_ok_PushFront [inv_intros]: "gl_ok l \<Longrightarrow> gl_ok (snd (gl_PushFront v l))"
  by (auto simp: gl_ok_def gl_PushFront_def)

lemma gl_ok_Remove [inv_intros]: "gl_ok l \<Longrightarrow> gl_ok (gl_Remove el l)"
  by (auto simp: gl_ok_def gl_Remove_def)

lemma gl_ok_MoveToFront [inv_intros]: "gl_ok l \<Longrightarrow> gl_ok (gl_MoveToFront el l)"
proof (cases "gl_Value el l")
  case (Some v)
  assume ok: "gl_ok l"
  from Some have "el \<in> fst ` set (gl_elems l)"
    by (simp add: gl_Value_def keys_iff)
  with Some ok show ?thesis
    by (auto simp: gl_ok_def gl_MoveToFront_def)
qed (simp add: gl_MoveToFront_def)

lemma map_fst_Mutate [simp]: "map fst (gl_elems (gl_Mutate el f l)) = map fst (gl_elems l)"
  by (simp add: gl_Mutate_def case_prod_beta comp_def)

lemma gl_ok_Mutate [inv_intros]: "gl_ok l \<Longrightarrow> gl_ok (gl_Mutate el f l)"
proof -
  assume "gl_ok l"
  moreover have "fst ` set (gl_elems (gl_Mutate el f l)) = fst ` set (gl_elems l)"
    by (metis list.set_map map_fst_Mutate)
  moreover have "gl_next (gl_Mutate el f l) = gl_next l" by (simp add: gl_Mutate_def)
  ultimately show ?thesis unfolding gl_ok_def map_fst_Mutate by metis
qed

lemma gl_Value_New [simp]: "gl_Value el gl_New = None"
  by (simp add: gl_Value_def gl_New_def)

lemma gl_Value_PushFront [simp]:
  "gl_Value el (snd (gl_PushFront v l)) = (if el = gl_next l then Some v else gl_Value el l)"
  by (simp add: gl_Value_def gl_PushFront_def)

lemma gl_Value_Remove [simp]: "gl_Value el' (gl_Remove el l) = (if el' = el then None else gl_Value el' l)"
  by (simp add: gl_Value_def gl_Remove_def)

lemma gl_Value_MoveToFront [simp]: "gl_Value el' (gl_MoveToFront el l) = gl_Value el' l"
  by (auto simp: gl_Value_def gl_MoveToFront_def split: option.splits)

lemma map_of_mutate: "map_of (map (\<lambda>(i, v). (i, if i = el then f v else v)) xs) el' =
    (if el' = el then map_option f (map_of xs el) else map_of xs el')"
  by (induction xs) auto

lemma gl_Value_Mutate [simp]:
  "gl_Value el' (gl_Mutate el f l) = (if el' = el then map_option f (gl_Value el l) else gl_Value el' l)"
  by (simp add: gl_Value_def gl_Mutate_def map_of_mutate)

lemma gl_next_simps [simp]:
  "gl_next (gl_Remove el l) = gl_next l" "gl_next (gl_MoveToFront el l) = gl_next l"
  "gl_next (gl_Mutate el f l) = gl_next l" "gl_next (snd (gl_PushFront v l)) = Suc (gl_next l)"
  "fst (gl_PushFront v l) = gl_next l"
  by (simp_all add: gl_Remove_def gl_MoveToFront_def gl_Mutate_def gl_PushFront_def split: option.splits)

lemma gl_Value_fresh: "gl_ok l \<Longrightarrow> gl_Value (gl_next l) l = None"
  by (metis gl_ok_def gl_Value_def keys_iff less_irrefl)

lemma in_elems_iff: "gl_ok l \<Longrightarrow> (el, v) \<in> set (gl_elems l) \<longleftrightarrow> gl_Value el l = Some v"
  by (metis gl_ok_def gl_Value_def wf_map_in_set)

lemma gl_Back_Value: "gl_ok l \<Longrightarrow> gl_Back l = Some (el, v) \<Longrightarrow> gl_Value el l = Some v"
  by (simp add: gl_Back_def split: if_splits) (metis in_elems_iff last_in_set)

text \<open>The multiset of values: what an operation adds or takes away, whatever the order.\<close>

definition gl_values :: "'v golist \<Rightarrow> 'v multiset" where
  "gl_values l = image_mset snd (mset (gl_elems l))"

lemma gl_values_New [simp]: "gl_values gl_New = {#}"
  by (simp add: gl_values_def gl_New_def)

lemma gl_values_PushFront [simp]: "gl_values (snd (gl_PushFront v l)) = add_mset v (gl_values l)"
  by (simp add: gl_values_def gl_PushFront_def)

lemma mset_delete:
  "wf_map xs \<Longrightarrow> map_of xs k = Some v \<Longrightarrow> mset xs = add_mset (k, v) (mset (AList.delete k xs))"
  by (induction xs) (auto simp: AList.delete_id split: if_splits)

lemma gl_values_Remove:
  assumes "gl_ok l" and "gl_Value el l = Some v"
  shows "gl_values l = add_mset v (gl_values (gl_Remove el l))"
  using assms mset_delete [of "gl_elems l" el v]
  by (simp add: gl_values_def gl_Remove_def gl_ok_def gl_Value_def)

lemma gl_values_MoveToFront:
  assumes "gl_ok l"
  shows "gl_values (gl_MoveToFront el l) = gl_values l"
proof (cases "gl_Value el l")
  case (Some v)
  with assms mset_delete [of "gl_elems l" el v] show ?thesis
    by (simp add: gl_values_def gl_MoveToFront_def gl_ok_def gl_Value_def)
qed (simp add: gl_MoveToFront_def)

lemma mset_mutate:
  "wf_map xs \<Longrightarrow> map_of xs el = Some v \<Longrightarrow>
   add_mset v (image_mset snd (mset (map (\<lambda>(i, v). (i, if i = el then f v else v)) xs))) =
   add_mset (f v) (image_mset snd (mset xs))"
proof (induction xs)
  case (Cons x xs)
  obtain i w where x: "x = (i, w)" by (cases x)
  show ?case
  proof (cases "i = el")
    case True
    with Cons.prems x have "map (\<lambda>(i, v). (i, if i = el then f v else v)) xs = xs"
      by (intro map_idI) force
    with True Cons.prems x show ?thesis by simp
  next
    case False
    with Cons x show ?thesis by (simp add: add_mset_commute [of v] add_mset_commute [of "f v"])
  qed
qed simp

lemma gl_values_Mutate:
  assumes "gl_ok l" and "gl_Value el l = Some v"
  shows "add_mset v (gl_values (gl_Mutate el f l)) = add_mset (f v) (gl_values l)"
  using assms mset_mutate [of "gl_elems l" el v f]
  by (simp add: gl_values_def gl_Mutate_def gl_ok_def gl_Value_def)

text \<open>A map that indexes a list by a key of its values has as many entries as the list.\<close>

lemma index_length:
  assumes ok: "gl_ok l" and wf: "wf_map m"
    and m: "\<And>k el. map_of m k = Some el \<Longrightarrow> \<exists>v. gl_Value el l = Some v \<and> K v = k"
    and l: "\<And>el v. gl_Value el l = Some v \<Longrightarrow> map_of m (K v) = Some el"
  shows "gl_Len l = length m"
proof -
  let ?E = "gl_elems l"
  have d: "distinct (map fst ?E)" "distinct (map fst m)" using ok wf by (auto simp: gl_ok_def)
  have in_E: "(el, v) \<in> set ?E \<longleftrightarrow> gl_Value el l = Some v" for el v using ok by (rule in_elems_iff)
  have in_M: "(k, el) \<in> set m \<longleftrightarrow> map_of m k = Some el" for k el using d(2) by (simp add: map_of_eq_Some_iff)
  have "snd ` set m = fst ` set ?E"
  proof safe
    fix k el assume "(k, el) \<in> set m"
    then show "snd (k, el) \<in> fst ` set ?E" using in_E in_M m by (metis fst_conv image_eqI snd_conv)
  next
    fix el v assume "(el, v) \<in> set ?E"
    then show "fst (el, v) \<in> snd ` set m" using in_E in_M l by (metis fst_conv image_eqI snd_conv)
  qed
  moreover have "inj_on snd (set m)"
  proof (rule inj_onI, clarsimp)
    fix a b el assume "(a, el) \<in> set m" "(b, el) \<in> set m"
    then show "a = b" using in_M m by (metis option.inject)
  qed
  moreover have "inj_on fst (set ?E)" using d(1) by (simp add: distinct_map)
  ultimately have "card (set m) = card (set ?E)" by (metis card_image)
  then show ?thesis using d by (simp add: gl_Len_def distinct_card distinct_map)
qed

end
