(* ===== verification/Budget.thy ===== *)
theory Budget
  imports JayPrelude
begin

text \<open>
  pkg/cache/budget.go: the byte accountant that several cache Managers share. An \<open>Evictor\<close> is
  a method on some state \<open>'m\<close>; the evictors of the process live in a heap \<open>nat \<Rightarrow> 'm\<close> and the
  budget holds their addresses, so that the same evictor is reached from the budget and from
  its owner. The loops that call \<open>EvictOldest\<close> may only end because of what the evictor
  promises: they are partial functions into \<open>option\<close> (None: the loop does not end, or an index
  is out of range), and the locale \<open>evictor\<close> states the promise and proves that they return.
  Byte counts are unbounded integers: they count bytes held in memory.
\<close>

section \<open>Definitions\<close>

record Budget =
  b_limit :: int
  b_used :: int
  b_evictors :: "nat list"
  b_cursor :: nat

type_synonym 'm evict = "'m \<Rightarrow> (int \<times> bool) \<times> 'm"

definition NewBudget :: "int \<Rightarrow> Budget" where
  "NewBudget limitBytes = \<lparr>b_limit = limitBytes, b_used = 0, b_evictors = [], b_cursor = 0\<rparr>"

definition Register :: "nat \<Rightarrow> Budget \<Rightarrow> Budget" where
  "Register e b = b\<lparr>b_evictors := b_evictors b @ [e]\<rparr>"

definition sub_used :: "int \<Rightarrow> Budget \<Rightarrow> Budget" where
  "sub_used freed b = b\<lparr>b_used := (if b_used b - freed < 0 then 0 else b_used b - freed)\<rparr>"

text \<open>The drain loop of \<open>Unregister\<close>.\<close>

partial_function (option) drain_loop :: "'m evict \<Rightarrow> 'm \<Rightarrow> Budget \<Rightarrow> ('m \<times> Budget) option" where
  "drain_loop EvictOldest m b =
     (case EvictOldest m of ((freed, ok), m') \<Rightarrow>
        if \<not> ok then Some (m', b) else drain_loop EvictOldest m' (sub_used freed b))"

fun index_of :: "nat \<Rightarrow> nat list \<Rightarrow> nat option" where
  "index_of e [] = None"
| "index_of e (x # xs) = (if x = e then Some 0 else map_option Suc (index_of e xs))"

definition remove_evictor :: "nat \<Rightarrow> Budget \<Rightarrow> Budget" where
  "remove_evictor i b =
     (let evs = take i (b_evictors b) @ drop (i + 1) (b_evictors b);
          cur = (if b_cursor b > i then b_cursor b - 1 else b_cursor b)
      in b\<lparr>b_evictors := evs,
           b_cursor := (if length evs = 0 then 0
                        else if cur \<ge> length evs then cur mod length evs else cur)\<rparr>)"

definition Unregister :: "'m evict \<Rightarrow> nat \<Rightarrow> Budget \<Rightarrow> (nat \<Rightarrow> 'm) \<Rightarrow> (Budget \<times> (nat \<Rightarrow> 'm)) option" where
  "Unregister EvictOldest e b h =
     (case index_of e (b_evictors b) of
        None \<Rightarrow> Some (b, h)
      | Some i \<Rightarrow>
          (case drain_loop EvictOldest (h e) b of
             None \<Rightarrow> None
           | Some (m', b') \<Rightarrow> Some (remove_evictor i b', h(e := m'))))"

text \<open>The round-robin loop of \<open>Reserve\<close>; an index beyond the slice would panic.\<close>

partial_function (option) reserve_loop ::
  "'m evict \<Rightarrow> int \<Rightarrow> Budget \<Rightarrow> (nat \<Rightarrow> 'm) \<Rightarrow> nat \<Rightarrow> (bool \<times> Budget \<times> (nat \<Rightarrow> 'm)) option" where
  "reserve_loop EvictOldest n b h exhausted =
     (if length (b_evictors b) > 0 \<and> exhausted < length (b_evictors b) then
        if b_cursor b \<ge> length (b_evictors b) then None
        else
          let e = b_evictors b ! b_cursor b;
              b1 = b\<lparr>b_cursor := (b_cursor b + 1) mod length (b_evictors b)\<rparr>
          in (case EvictOldest (h e) of ((freed, ok), m') \<Rightarrow>
                if \<not> ok then reserve_loop EvictOldest n b1 (h(e := m')) (exhausted + 1)
                else
                  let b2 = sub_used freed b1 in
                  if b_used b2 + n \<le> b_limit b2
                  then Some (True, b2\<lparr>b_used := b_used b2 + n\<rparr>, h(e := m'))
                  else reserve_loop EvictOldest n b2 (h(e := m')) 0)
      else Some (False, b, h))"

definition Reserve :: "'m evict \<Rightarrow> int \<Rightarrow> Budget \<Rightarrow> (nat \<Rightarrow> 'm) \<Rightarrow> (bool \<times> Budget \<times> (nat \<Rightarrow> 'm)) option" where
  "Reserve EvictOldest n0 b h =
     (let n = (if n0 < 0 then 0 else n0) in
      if b_limit b \<le> 0 \<or> b_used b + n \<le> b_limit b then Some (True, b\<lparr>b_used := b_used b + n\<rparr>, h)
      else if n > b_limit b then Some (False, b, h)
      else reserve_loop EvictOldest n b h 0)"

definition Release :: "int \<Rightarrow> Budget \<Rightarrow> Budget" where
  "Release n b = (if n \<le> 0 then b else sub_used n b)"

definition Used :: "Budget \<Rightarrow> int" where
  "Used b = b_used b"

definition Limit :: "Budget \<Rightarrow> int" where
  "Limit b = b_limit b"

section \<open>The accounting invariant\<close>

text \<open>
  \<open>accounted held ok pend b h\<close>: the evictors are distinct and well formed, the cursor is in
  range, and the bytes used are those the evictors hold plus \<open>pend\<close>, reserved for entries that
  are not stored yet.
\<close>

definition held_sum :: "('m \<Rightarrow> int) \<Rightarrow> (nat \<Rightarrow> 'm) \<Rightarrow> nat list \<Rightarrow> int" where
  "held_sum held h evs = (\<Sum>e\<leftarrow>evs. held (h e))"

definition accounted :: "('m \<Rightarrow> int) \<Rightarrow> ('m \<Rightarrow> bool) \<Rightarrow> int \<Rightarrow> Budget \<Rightarrow> (nat \<Rightarrow> 'm) \<Rightarrow> bool" where
  "accounted held ev_ok pend b h \<longleftrightarrow>
     distinct (b_evictors b) \<and> (\<forall>e \<in> set (b_evictors b). ev_ok (h e)) \<and>
     (b_evictors b = [] \<and> b_cursor b = 0 \<or> b_cursor b < length (b_evictors b)) \<and>
     b_used b = held_sum held h (b_evictors b) + pend \<and> 0 \<le> pend"

lemma held_sum_upd_notin [simp]: "e \<notin> set evs \<Longrightarrow> held_sum held (h(e := m)) evs = held_sum held h evs"
  unfolding held_sum_def by (rule arg_cong [where f = sum_list]) auto

lemma held_sum_upd:
  "distinct evs \<Longrightarrow> e \<in> set evs \<Longrightarrow>
   held_sum held (h(e := m)) evs = held_sum held h evs - held (h e) + held m"
proof (induction evs)
  case (Cons x evs)
  then show ?case
    using held_sum_upd_notin [of e evs held h m] by (cases "x = e") (auto simp: held_sum_def)
qed simp

lemma held_sum_append [simp]: "held_sum held h (xs @ ys) = held_sum held h xs + held_sum held h ys"
  by (simp add: held_sum_def)

lemma index_of_Some: "index_of e xs = Some i \<Longrightarrow> i < length xs \<and> xs ! i = e"
  by (induction xs arbitrary: i) (auto split: if_splits)

lemma index_of_None [simp]: "index_of e xs = None \<longleftrightarrow> e \<notin> set xs"
  by (induction xs) auto

lemma sub_used_simps [simp]:
  "b_limit (sub_used n b) = b_limit b" "b_evictors (sub_used n b) = b_evictors b"
  "b_cursor (sub_used n b) = b_cursor b"
  by (simp_all add: sub_used_def)

text \<open>Positions still to be visited, counted from the cursor, reach every index.\<close>

lemma rotate_reaches:
  fixes c :: nat assumes "j < len" and "c < len"
  shows "\<exists>i < len. j = (c + i) mod len"
proof (cases "c \<le> j")
  case True
  with assms show ?thesis by (intro exI [of _ "j - c"]) auto
next
  case False
  with assms show ?thesis by (intro exI [of _ "len + j - c"]) auto
qed

section \<open>The Evictor contract and its consequences\<close>

text \<open>
  What \<open>EvictOldest\<close> promises: with entries left it drops exactly one and reports its bytes,
  without entries it reports failure and changes nothing.
\<close>

locale evictor =
  fixes EvictOldest :: "'m evict"
    and entries :: "'m \<Rightarrow> nat"
    and held :: "'m \<Rightarrow> int"
    and ev_ok :: "'m \<Rightarrow> bool"
  assumes evict_entry: "ev_ok m \<Longrightarrow> entries m \<noteq> 0 \<Longrightarrow>
      \<exists>freed m'. EvictOldest m = ((freed, True), m') \<and> ev_ok m' \<and> 0 \<le> freed \<and>
        Suc (entries m') = entries m \<and> held m' = held m - freed"
    and evict_empty: "ev_ok m \<Longrightarrow> entries m = 0 \<Longrightarrow> EvictOldest m = ((0, False), m) \<and> held m = 0"
    and held_nonneg: "ev_ok m \<Longrightarrow> 0 \<le> held m"
begin

lemma held_sum_nonneg: "\<forall>e \<in> set evs. ev_ok (h e) \<Longrightarrow> 0 \<le> held_sum held h evs"
  by (induction evs) (auto simp: held_sum_def intro!: add_nonneg_nonneg held_nonneg)

lemma accounted_used_nonneg: "accounted held ev_ok pend b h \<Longrightarrow> 0 \<le> b_used b"
  using held_sum_nonneg by (fastforce simp: accounted_def)

text \<open>One successful eviction keeps the accounting: the clamp at zero never acts.\<close>

lemma accounted_evict:
  assumes "accounted held ev_ok pend b h" and "e \<in> set (b_evictors b)"
    and "ev_ok m'" and "0 \<le> freed" and "held m' = held (h e) - freed"
  shows "accounted held ev_ok pend (sub_used freed b) (h(e := m'))"
    and "b_used (sub_used freed b) = b_used b - freed"
proof -
  have sum: "held_sum held (h(e := m')) (b_evictors b) = held_sum held h (b_evictors b) - freed"
    using assms by (simp add: accounted_def held_sum_upd)
  have "\<forall>x \<in> set (b_evictors b). ev_ok ((h(e := m')) x)"
    using assms by (simp add: accounted_def)
  then have nn: "0 \<le> held_sum held (h(e := m')) (b_evictors b)" by (rule held_sum_nonneg)
  with sum assms(1) show "b_used (sub_used freed b) = b_used b - freed"
    by (simp add: sub_used_def accounted_def)
  with sum assms show "accounted held ev_ok pend (sub_used freed b) (h(e := m'))"
    by (simp add: accounted_def)
qed

lemma accounted_cursor:
  "accounted held ev_ok pend b h \<Longrightarrow> c < length (b_evictors b) \<Longrightarrow>
   accounted held ev_ok pend (b\<lparr>b_cursor := c\<rparr>) h"
  by (auto simp: accounted_def)

text \<open>
  The reserve loop returns. It succeeds exactly when the pending bytes leave room for the
  request, since on the way to failure it has drained every evictor.
\<close>

definition entries_sum :: "(nat \<Rightarrow> 'm) \<Rightarrow> nat list \<Rightarrow> nat" where
  "entries_sum h evs = (\<Sum>e\<leftarrow>evs. entries (h e))"

lemma entries_sum_upd:
  "distinct evs \<Longrightarrow> e \<in> set evs \<Longrightarrow> Suc (entries m) = entries (h e) \<Longrightarrow>
   Suc (entries_sum (h(e := m)) evs) = entries_sum h evs"
proof (induction evs)
  case (Cons x evs)
  have "e \<notin> set evs \<Longrightarrow> (\<Sum>x\<leftarrow>evs. entries ((h(e := m)) x)) = (\<Sum>x\<leftarrow>evs. entries (h x))"
    by (rule arg_cong [where f = sum_list]) auto
  with Cons show ?case by (cases "x = e") (auto simp: entries_sum_def)
qed simp

lemma drained_held: "\<forall>e \<in> set evs. ev_ok (h e) \<and> entries (h e) = 0 \<Longrightarrow> held_sum held h evs = 0"
  by (induction evs) (auto simp: held_sum_def dest: evict_empty)

definition unvisited_cover :: "Budget \<Rightarrow> (nat \<Rightarrow> 'm) \<Rightarrow> nat \<Rightarrow> bool" where
  "unvisited_cover b h exhausted \<longleftrightarrow>
     (\<forall>j < length (b_evictors b). entries (h (b_evictors b ! j)) \<noteq> 0 \<longrightarrow>
        (\<exists>i < length (b_evictors b) - exhausted. j = (b_cursor b + i) mod length (b_evictors b)))"

lemma unvisited_cover_0: "accounted held ev_ok pend b h \<Longrightarrow> unvisited_cover b h 0"
  unfolding unvisited_cover_def accounted_def by (auto intro: rotate_reaches)

lemma unvisited_cover_step:
  assumes "unvisited_cover b h exhausted" and "b_cursor b < length (b_evictors b)"
    and "exhausted < length (b_evictors b)" and "entries (h (b_evictors b ! b_cursor b)) = 0"
  shows "unvisited_cover (b\<lparr>b_cursor := (b_cursor b + 1) mod length (b_evictors b)\<rparr>) h (exhausted + 1)"
  unfolding unvisited_cover_def
proof (intro allI impI)
  let ?len = "length (b_evictors b)"
  fix j assume j: "j < length (b_evictors (b\<lparr>b_cursor := (b_cursor b + 1) mod ?len\<rparr>))"
    "entries (h (b_evictors (b\<lparr>b_cursor := (b_cursor b + 1) mod ?len\<rparr>) ! j)) \<noteq> 0"
  with assms(1) obtain i where i: "i < ?len - exhausted" "j = (b_cursor b + i) mod ?len"
    by (auto simp: unvisited_cover_def)
  have "i \<noteq> 0" using i j(2) assms(2,4) by (cases i) auto
  then obtain i' where "i = Suc i'" by (cases i) auto
  then have "j = ((b_cursor b + 1) mod ?len + i') mod ?len" "i' < ?len - (exhausted + 1)"
    using i assms(3) by (auto simp: mod_add_left_eq)
  then show "\<exists>i < length (b_evictors (b\<lparr>b_cursor := (b_cursor b + 1) mod ?len\<rparr>)) - (exhausted + 1).
      j = (b_cursor (b\<lparr>b_cursor := (b_cursor b + 1) mod ?len\<rparr>) + i) mod
        length (b_evictors (b\<lparr>b_cursor := (b_cursor b + 1) mod ?len\<rparr>))"
    by auto
qed

text \<open>What a series of evictions can turn an evictor into.\<close>

definition evicted :: "'m \<Rightarrow> 'm \<Rightarrow> bool" where
  "evicted m m' \<longleftrightarrow> (\<exists>n. m' = ((\<lambda>m. snd (EvictOldest m)) ^^ n) m)"

lemma evicted_refl [simp]: "evicted m m"
  unfolding evicted_def by (rule exI [of _ 0]) simp

lemma evicted_step: "evicted (snd (EvictOldest m)) m' \<Longrightarrow> evicted m m'"
  unfolding evicted_def by (metis funpow_Suc_right comp_apply)

lemma evicted_upd:
  "\<forall>x. evicted ((h(e := snd (EvictOldest (h e)))) x) (h' x) \<Longrightarrow> \<forall>x. evicted (h x) (h' x)"
  using evicted_step by (metis fun_upd_apply)

lemma all_visited:
  assumes "accounted held ev_ok pend b h" and "unvisited_cover b h (length (b_evictors b))"
  shows "b_used b = pend"
proof -
  have "\<forall>e \<in> set (b_evictors b). ev_ok (h e) \<and> entries (h e) = 0"
    using assms by (auto simp: accounted_def unvisited_cover_def in_set_conv_nth)
  from drained_held [OF this] assms(1) show ?thesis by (simp add: accounted_def)
qed

definition reserve_post :: "int \<Rightarrow> int \<Rightarrow> Budget \<Rightarrow> (nat \<Rightarrow> 'm) \<Rightarrow> bool \<Rightarrow> Budget \<Rightarrow> (nat \<Rightarrow> 'm) \<Rightarrow> bool" where
  "reserve_post pend n b h r b' h' \<longleftrightarrow>
     accounted held ev_ok (pend + (if r then n else 0)) b' h' \<and>
     b_limit b' = b_limit b \<and> b_evictors b' = b_evictors b \<and>
     (r \<longleftrightarrow> b_limit b \<le> 0 \<or> pend + n \<le> b_limit b) \<and>
     (r \<longrightarrow> 0 < b_limit b \<longrightarrow> b_used b' \<le> b_limit b) \<and>
     (\<forall>e. e \<notin> set (b_evictors b) \<longrightarrow> h' e = h e) \<and> (\<forall>e. evicted (h e) (h' e))"

lemma reserve_post_step:
  assumes "reserve_post pend n bb (h(e := snd (EvictOldest (h e)))) r b' h'"
    and "e \<in> set (b_evictors b)" and "b_limit bb = b_limit b" and "b_evictors bb = b_evictors b"
  shows "reserve_post pend n b h r b' h'"
  using assms evicted_upd [of h e h'] by (auto simp: reserve_post_def)

lemma reserve_loop_returns:
  assumes "accounted held ev_ok pend b h" and "unvisited_cover b h ex" and "ex \<le> length (b_evictors b)"
    and "0 \<le> n" and "0 < b_limit b" and "b_limit b < b_used b + n"
  shows "\<exists>r b' h'. reserve_loop EvictOldest n b h ex = Some (r, b', h') \<and> reserve_post pend n b h r b' h'"
  using assms
proof (induction "entries_sum h (b_evictors b) * (length (b_evictors b) + 1) + (length (b_evictors b) - ex)"
    arbitrary: b h ex rule: less_induct)
  case less
  let ?len = "length (b_evictors b)" and ?e = "b_evictors b ! b_cursor b"
  let ?b1 = "b\<lparr>b_cursor := (b_cursor b + 1) mod ?len\<rparr>"
  show ?case
  proof (cases "ex < ?len")
    case False
    with less.prems have "b_used b = pend" by (intro all_visited) auto
    with False less.prems show ?thesis
      by (subst reserve_loop.simps) (auto simp: reserve_post_def)
  next
    case True
    then have cur: "b_cursor b < ?len" and e: "?e \<in> set (b_evictors b)"
      using less.prems(1) by (auto simp: accounted_def)
    have okE: "ev_ok (h ?e)" using less.prems(1) e by (simp add: accounted_def)
    have acc1: "accounted held ev_ok pend ?b1 h"
      using True by (intro accounted_cursor [OF less.prems(1)] mod_less_divisor) auto
    show ?thesis
    proof (cases "entries (h ?e) = 0")
      case empty: True
      then have ev: "EvictOldest (h ?e) = ((0, False), h ?e)" using okE evict_empty by blast
      have "\<exists>r b' h'. reserve_loop EvictOldest n ?b1 h (ex + 1) = Some (r, b', h') \<and>
          reserve_post pend n ?b1 h r b' h'"
        using True less.prems unvisited_cover_step [OF less.prems(2) cur True empty]
        by (intro less.hyps acc1) auto
      then show ?thesis
        using True cur ev by (subst reserve_loop.simps) (auto simp: reserve_post_def)
    next
      case False
      then obtain freed m' where ev: "EvictOldest (h ?e) = ((freed, True), m')" "ev_ok m'" "0 \<le> freed"
        "Suc (entries m') = entries (h ?e)" "held m' = held (h ?e) - freed"
        using okE evict_entry by blast
      let ?b2 = "sub_used freed ?b1" and ?h = "h(?e := m')"
      have acc2: "accounted held ev_ok pend ?b2 ?h"
        using accounted_evict(1) [OF acc1 _ ev(2,3,5)] e by simp
      have dec: "Suc (entries_sum ?h (b_evictors b)) = entries_sum h (b_evictors b)"
        using less.prems(1) e ev(4) by (intro entries_sum_upd) (auto simp: accounted_def)
      show ?thesis
      proof (cases "b_used ?b2 + n \<le> b_limit b")
        case fits: True
        have "pend \<le> b_used ?b2"
          using acc2 held_sum_nonneg by (fastforce simp: accounted_def)
        with fits have "reserve_post pend n b h True (?b2\<lparr>b_used := b_used ?b2 + n\<rparr>) ?h"
          using acc2 e less.prems(4) ev(1) evicted_upd [of h ?e ?h]
          by (auto simp: reserve_post_def accounted_def)
        with True cur fits ev(1) show ?thesis
          by (subst reserve_loop.simps) (auto simp: Let_def)
      next
        case nofit: False
        have "\<exists>r b' h'. reserve_loop EvictOldest n ?b2 ?h 0 = Some (r, b', h') \<and>
            reserve_post pend n ?b2 ?h r b' h'"
          using acc2 dec less.prems nofit
          by (intro less.hyps unvisited_cover_0 [OF acc2]) (auto simp flip: dec)
        then obtain r b' h' where rec: "reserve_loop EvictOldest n ?b2 ?h 0 = Some (r, b', h')"
          "reserve_post pend n ?b2 ?h r b' h'" by blast
        have "reserve_loop EvictOldest n b h ex = reserve_loop EvictOldest n ?b2 ?h 0"
          using True cur nofit ev(1) e by (subst reserve_loop.simps) (auto simp: Let_def)
        moreover have "reserve_post pend n b h r b' h'"
          by (rule reserve_post_step [where e = ?e and bb = ?b2]) (use rec(2) ev(1) e in simp_all)
        ultimately show ?thesis using rec(1) by auto
      qed
    qed
  qed
qed

lemma Reserve_returns:
  assumes "accounted held ev_ok pend b h"
  shows "\<exists>r b' h'. Reserve EvictOldest n b h = Some (r, b', h') \<and> reserve_post pend (max n 0) b h r b' h' \<and>
    (b_limit b \<le> 0 \<or> b_used b + max n 0 \<le> b_limit b \<or> b_limit b < max n 0 \<longrightarrow> h' = h)"
proof -
  have pend: "0 \<le> pend" "pend \<le> b_used b"
    using assms held_sum_nonneg by (fastforce simp: accounted_def)+
  consider "b_limit b \<le> 0 \<or> b_used b + max n 0 \<le> b_limit b"
    | "0 < b_limit b" "b_limit b < b_used b + max n 0" "b_limit b < max n 0"
    | "0 < b_limit b" "b_limit b < b_used b + max n 0" "max n 0 \<le> b_limit b"
    by linarith
  then show ?thesis
  proof cases
    case 1
    then show ?thesis
      using assms pend by (auto simp: Reserve_def Let_def reserve_post_def accounted_def max_def)
  next
    case 2
    then show ?thesis
      using assms pend by (auto simp: Reserve_def Let_def reserve_post_def max_def)
  next
    case 3
    then have "Reserve EvictOldest n b h = reserve_loop EvictOldest (max n 0) b h 0"
      by (auto simp: Reserve_def Let_def max_def)
    moreover obtain r b' h' where "reserve_loop EvictOldest (max n 0) b h 0 = Some (r, b', h')"
      "reserve_post pend (max n 0) b h r b' h'"
      using reserve_loop_returns [OF assms unvisited_cover_0 [OF assms], of "max n 0"] 3 by auto
    ultimately show ?thesis using 3 by auto
  qed
qed

lemma drain_loop_returns:
  assumes "ev_ok m" and "held m \<le> b_used b"
  shows "\<exists>m'. drain_loop EvictOldest m b = Some (m', b\<lparr>b_used := b_used b - held m\<rparr>) \<and>
    ev_ok m' \<and> entries m' = 0 \<and> evicted m m'"
  using assms
proof (induction "entries m" arbitrary: m b)
  case 0
  then have "EvictOldest m = ((0, False), m)" "held m = 0" using evict_empty by auto
  with 0 show ?case by (subst drain_loop.simps) auto
next
  case (Suc k)
  then obtain freed m' where ev: "EvictOldest m = ((freed, True), m')" "ev_ok m'" "0 \<le> freed"
    "Suc (entries m') = entries m" "held m' = held m - freed"
    using evict_entry [of m] by auto
  have "0 \<le> held m'" using ev(2) by (rule held_nonneg)
  then have used: "b_used (sub_used freed b) = b_used b - freed"
    using ev(5) Suc.prems(2) by (simp add: sub_used_def)
  have "\<exists>m''. drain_loop EvictOldest m' (sub_used freed b) =
      Some (m'', (sub_used freed b)\<lparr>b_used := b_used (sub_used freed b) - held m'\<rparr>) \<and>
      ev_ok m'' \<and> entries m'' = 0 \<and> evicted m' m''"
    using Suc ev used by (intro Suc.hyps) auto
  moreover have "(sub_used freed b)\<lparr>b_used := b_used (sub_used freed b) - held m'\<rparr> =
      b\<lparr>b_used := b_used b - held m\<rparr>"
    using used ev(5) by (simp add: sub_used_def)
  ultimately show ?case
    using ev(1) evicted_step [of m] by (subst drain_loop.simps) auto
qed

lemma Unregister_absent: "e \<notin> set (b_evictors b) \<Longrightarrow> Unregister EvictOldest e b h = Some (b, h)"
  using index_of_None [of e "b_evictors b"] by (simp add: Unregister_def del: index_of_None)

lemma Unregister_returns:
  assumes acc: "accounted held ev_ok pend b h" and e: "e \<in> set (b_evictors b)"
  shows "\<exists>b' m'. Unregister EvictOldest e b h = Some (b', h(e := m')) \<and>
    accounted held ev_ok pend b' (h(e := m')) \<and> b_used b' = b_used b - held (h e) \<and>
    b_limit b' = b_limit b \<and> b_evictors b' = remove1 e (b_evictors b) \<and>
    ev_ok m' \<and> entries m' = 0 \<and> evicted (h e) m'"
proof -
  let ?evs = "b_evictors b"
  obtain i where i: "index_of e ?evs = Some i" using e by (cases "index_of e ?evs") auto
  then have il: "i < length ?evs" "?evs ! i = e" using index_of_Some by auto
  have dist: "distinct ?evs" and okE: "ev_ok (h e)" using acc e by (simp_all add: accounted_def)
  have rm: "take i ?evs @ drop (Suc i) ?evs = remove1 e ?evs"
  proof -
    have split: "?evs = take i ?evs @ e # drop (Suc i) ?evs"
      using id_take_nth_drop [OF il(1)] il(2) by simp
    with dist have "e \<notin> set (take i ?evs)" by (metis distinct_append disjoint_iff list.set_intros(1))
    with split show ?thesis by (metis remove1_append remove1.simps(2))
  qed
  have sum: "held_sum held h ?evs = held (h e) + held_sum held h (remove1 e ?evs)"
    unfolding held_sum_def using e by (simp add: sum_list_map_remove1)
  have "0 \<le> held_sum held h (remove1 e ?evs)"
    using acc by (intro held_sum_nonneg) (auto simp: accounted_def dest: notin_set_remove1)
  then have "held (h e) \<le> b_used b" using acc sum by (simp add: accounted_def)
  from drain_loop_returns [OF okE this] obtain m' where m':
    "drain_loop EvictOldest (h e) b = Some (m', b\<lparr>b_used := b_used b - held (h e)\<rparr>)"
    "ev_ok m'" "entries m' = 0" "evicted (h e) m'" by blast
  let ?b = "remove_evictor i (b\<lparr>b_used := b_used b - held (h e)\<rparr>)"
  have evs: "b_evictors ?b = remove1 e ?evs" by (simp add: remove_evictor_def Let_def rm)
  have notin: "e \<notin> set (remove1 e ?evs)" using dist by simp
  have "accounted held ev_ok pend ?b (h(e := m'))"
    unfolding accounted_def evs
    using acc dist sum notin
    by (auto simp: accounted_def remove_evictor_def Let_def rm dest: notin_set_remove1)
  then show ?thesis
    using i m' evs by (auto simp: Unregister_def remove_evictor_def Let_def)
qed

end

end
