(* ===== verification/CacheManager.thy ===== *)
theory CacheManager
  imports GoList Budget Storage
begin

text \<open>
  pkg/cache/cache.go: the sharded object cache. A \<open>Manager\<close> holds 64 shards, each with a map
  from keys to list elements and an LRU list of items; several Managers live in one heap and
  share one \<open>Budget\<close> (a process has one; \<open>m_budget\<close> says whether this Manager reserves
  against it). The methods run to completion one at a time here, so the singleflight table is
  empty whenever a Get starts; the interleaving of their phases is the subject of another
  theory. \<open>clk i\<close> is the i-th reading of \<open>time.Now\<close> that a call takes. A result None means that
  a call does not return; it is proved never to occur from a well-formed state.
\<close>

section \<open>Definitions\<close>

definition defaultTTL :: duration where
  "defaultTTL = 24 * 3600 * 1000000000"

record Item =
  it_Object :: Object
  it_FetchedAt :: gotime
  it_LastAccessed :: gotime
  it_key :: string
  it_size :: int

record cacheShard =
  sh_items :: "(string, nat) gomap"
  sh_lru :: "Item golist"
  sh_bytes :: int

definition shardCount :: nat where
  "shardCount = 64"

text \<open>An element reached through the map is always in the list; the other case is unreachable.\<close>

definition removeElemLocked :: "nat \<Rightarrow> cacheShard \<Rightarrow> int \<times> cacheShard" where
  "removeElemLocked el s =
     (case gl_Value el (sh_lru s) of
        None \<Rightarrow> (0, s)
      | Some item \<Rightarrow>
          let freed = it_size item;
              bytes = sh_bytes s - freed
          in (freed, s\<lparr>sh_lru := gl_Remove el (sh_lru s),
                       sh_items := AList.delete (it_key item) (sh_items s),
                       sh_bytes := (if bytes < 0 then 0 else bytes)\<rparr>))"

definition dropLocked :: "string \<Rightarrow> cacheShard \<Rightarrow> int \<times> cacheShard" where
  "dropLocked key s =
     (case map_of (sh_items s) key of
        None \<Rightarrow> (0, s)
      | Some el \<Rightarrow> removeElemLocked el s)"

record Manager =
  m_shards :: "cacheShard list"
  m_ttl :: duration
  m_maxObjectSize :: int
  m_budget :: bool
  m_hits :: "64 word"
  m_misses :: "64 word"
  m_sfHits :: "64 word"
  m_evictions :: "64 word"
  m_skippedLarge :: "64 word"
  m_purged :: "64 word"

record CacheConfig =
  cfg_TTL :: duration
  cfg_MaxObjectSize :: int
  cfg_Budget :: bool

text \<open>The Managers of a process and the Budget they share.\<close>

record cache_state =
  cs_budget :: Budget
  cs_mgrs :: "nat \<Rightarrow> Manager"

definition emptyShard :: cacheShard where
  "emptyShard = \<lparr>sh_items = [], sh_lru = gl_New, sh_bytes = 0\<rparr>"

definition NewManagerWithConfig :: "nat \<Rightarrow> CacheConfig \<Rightarrow> cache_state \<Rightarrow> cache_state" where
  "NewManagerWithConfig i cfg cs =
     (let ttl = (if cfg_TTL cfg \<le> 0 then defaultTTL else cfg_TTL cfg);
          m = \<lparr>m_shards = replicate shardCount emptyShard, m_ttl = ttl,
               m_maxObjectSize = cfg_MaxObjectSize cfg, m_budget = cfg_Budget cfg,
               m_hits = 0, m_misses = 0, m_sfHits = 0, m_evictions = 0, m_skippedLarge = 0, m_purged = 0\<rparr>
      in cs\<lparr>cs_mgrs := (cs_mgrs cs)(i := m),
            cs_budget := (if cfg_Budget cfg then Register i (cs_budget cs) else cs_budget cs)\<rparr>)"

definition SetTTL :: "duration \<Rightarrow> Manager \<Rightarrow> Manager" where
  "SetTTL dur m = m\<lparr>m_ttl := (if dur \<le> 0 then defaultTTL else dur)\<rparr>"

definition shardFor :: "string \<Rightarrow> nat" where
  "shardFor key = unat (fnv1a32 (bytes_of_string key) AND word_of_nat (shardCount - 1))"

definition objectSize :: "Object option \<Rightarrow> int" where
  "objectSize obj = (case obj of None \<Rightarrow> 0 | Some ob \<Rightarrow> int (length (oValue ob)))"

definition contains :: "string \<Rightarrow> Manager \<Rightarrow> bool" where
  "contains key m = (map_of (sh_items (m_shards m ! shardFor key)) key \<noteq> None)"

text \<open>Phase 1 of \<open>Get\<close>: the lookup under the shard lock, which refreshes a hit.\<close>

definition shard_lookup :: "duration \<Rightarrow> (nat \<Rightarrow> gotime) \<Rightarrow> string \<Rightarrow> cacheShard \<Rightarrow> Object option \<times> cacheShard" where
  "shard_lookup ttl clk key s =
     (case map_of (sh_items s) key of
        None \<Rightarrow> (None, s)
      | Some el \<Rightarrow>
          (case gl_Value el (sh_lru s) of
             None \<Rightarrow> (None, s)
           | Some item \<Rightarrow>
               if ttl \<le> 0 \<or> clk 0 - it_LastAccessed item < ttl
               then (Some (it_Object item),
                     s\<lparr>sh_lru := gl_MoveToFront el
                        (gl_Mutate el (\<lambda>it. it\<lparr>it_LastAccessed := clk 1\<rparr>) (sh_lru s))\<rparr>)
               else (None, s)))"

definition Get_lookup :: "(nat \<Rightarrow> gotime) \<Rightarrow> string \<Rightarrow> Manager \<Rightarrow> Object option \<times> Manager" where
  "Get_lookup clk key m =
     (let i = shardFor key;
          (r, s) = shard_lookup (m_ttl m) clk key (m_shards m ! i)
      in case r of
           Some obj \<Rightarrow> (Some obj, m\<lparr>m_shards := (m_shards m)[i := s], m_hits := m_hits m + 1\<rparr>)
         | None \<Rightarrow> (None, m\<lparr>m_shards := (m_shards m)[i := s], m_misses := m_misses m + 1\<rparr>))"

text \<open>The critical section of \<open>admit\<close>: replace the entry in place or push a new one.\<close>

definition shard_admit :: "gotime \<Rightarrow> string \<Rightarrow> Object \<Rightarrow> int \<Rightarrow> cacheShard \<Rightarrow> int \<times> cacheShard" where
  "shard_admit now key obj sz s =
     (let (replaced, s1) =
        (case map_of (sh_items s) key of
           Some el \<Rightarrow>
             let replaced = (case gl_Value el (sh_lru s) of None \<Rightarrow> 0 | Some item \<Rightarrow> it_size item) in
             (replaced,
              s\<lparr>sh_lru := gl_MoveToFront el
                   (gl_Mutate el (\<lambda>it. it\<lparr>it_Object := obj, it_FetchedAt := now,
                      it_LastAccessed := now, it_size := sz\<rparr>) (sh_lru s)),
                sh_bytes := sh_bytes s + (sz - replaced)\<rparr>)
         | None \<Rightarrow>
             let (el, l) = gl_PushFront \<lparr>it_Object = obj, it_FetchedAt = now, it_LastAccessed = now,
                    it_key = key, it_size = sz\<rparr> (sh_lru s)
             in (0, s\<lparr>sh_items := AList.update key el (sh_items s), sh_lru := l,
                      sh_bytes := sh_bytes s + sz\<rparr>))
      in (replaced, s1\<lparr>sh_bytes := (if sh_bytes s1 < 0 then 0 else sh_bytes s1)\<rparr>))"

text \<open>
  \<open>EvictOldest\<close>: scan the back of every shard for the oldest access time, starting from the
  zero time, then remove that element if the map still points to it; up to three attempts.
\<close>

fun scan_shards :: "nat \<Rightarrow> cacheShard list \<Rightarrow> (nat \<times> nat) option \<Rightarrow> gotime \<Rightarrow> (nat \<times> nat) option" where
  "scan_shards i [] best oldestTime = best"
| "scan_shards i (s # ss) best oldestTime =
     (case gl_Back (sh_lru s) of
        None \<Rightarrow> scan_shards (i + 1) ss best oldestTime
      | Some (el, item) \<Rightarrow>
          if oldestTime = zeroTime \<or> it_LastAccessed item < oldestTime
          then scan_shards (i + 1) ss (Some (i, el)) (it_LastAccessed item)
          else scan_shards (i + 1) ss best oldestTime)"

fun evict_attempts :: "nat \<Rightarrow> Manager \<Rightarrow> (int \<times> bool) \<times> Manager" where
  "evict_attempts 0 m = ((0, False), m)"
| "evict_attempts (Suc n) m =
     (case scan_shards 0 (m_shards m) None zeroTime of
        None \<Rightarrow> ((0, False), m)
      | Some (i, el) \<Rightarrow>
          let s = m_shards m ! i in
          (case gl_Value el (sh_lru s) of
             None \<Rightarrow> evict_attempts n m
           | Some item \<Rightarrow>
               if map_of (sh_items s) (it_key item) = Some el
               then let (freed, s') = removeElemLocked el s in
                 ((freed, True), m\<lparr>m_shards := (m_shards m)[i := s'], m_evictions := m_evictions m + 1\<rparr>)
               else evict_attempts n m))"

definition EvictOldest :: "Manager \<Rightarrow> (int \<times> bool) \<times> Manager" where
  "EvictOldest m = evict_attempts 3 m"

definition Invalidate :: "nat \<Rightarrow> string \<Rightarrow> cache_state \<Rightarrow> cache_state" where
  "Invalidate i key cs =
     (let m = cs_mgrs cs i;
          j = shardFor key;
          (freed, s) = dropLocked key (m_shards m ! j);
          cs1 = cs\<lparr>cs_mgrs := (cs_mgrs cs)(i := m\<lparr>m_shards := (m_shards m)[j := s]\<rparr>)\<rparr>
      in if freed > 0 \<and> m_budget m then cs1\<lparr>cs_budget := Release freed (cs_budget cs1)\<rparr> else cs1)"

text \<open>The part of \<open>admit\<close> after the space is reserved.\<close>

definition admit_store :: "nat \<Rightarrow> gotime \<Rightarrow> string \<Rightarrow> Object \<Rightarrow> int \<Rightarrow> cache_state \<Rightarrow> cache_state" where
  "admit_store i now key obj sz cs =
     (let m = cs_mgrs cs i;
          j = shardFor key;
          (replaced, s) = shard_admit now key obj sz (m_shards m ! j);
          cs1 = cs\<lparr>cs_mgrs := (cs_mgrs cs)(i := m\<lparr>m_shards := (m_shards m)[j := s]\<rparr>)\<rparr>
      in if replaced > 0 \<and> m_budget m then cs1\<lparr>cs_budget := Release replaced (cs_budget cs1)\<rparr> else cs1)"

definition admit :: "nat \<Rightarrow> gotime \<Rightarrow> string \<Rightarrow> Object \<Rightarrow> cache_state \<Rightarrow> cache_state option" where
  "admit i now key obj cs =
     (let m = cs_mgrs cs i;
          sz = objectSize (Some obj)
      in if m_maxObjectSize m > 0 \<and> sz > m_maxObjectSize m then
           Some (Invalidate i key
             (cs\<lparr>cs_mgrs := (cs_mgrs cs)(i := m\<lparr>m_skippedLarge := m_skippedLarge m + 1\<rparr>)\<rparr>))
         else if m_budget m then
           (case Reserve EvictOldest sz (cs_budget cs) (cs_mgrs cs) of
              None \<Rightarrow> None
            | Some (r, b, h) \<Rightarrow>
                let cs1 = cs\<lparr>cs_budget := b, cs_mgrs := h\<rparr> in
                if \<not> r then Some (Invalidate i key cs1) else Some (admit_store i now key obj sz cs1))
         else Some (admit_store i now key obj sz cs))"

text \<open>The leader of a cold read: fetch, then admit the object or drop the entry.\<close>

definition Get_lead ::
  "'s Driver \<Rightarrow> nat \<Rightarrow> (nat \<Rightarrow> gotime) \<Rightarrow> string \<Rightarrow> 's \<Rightarrow> cache_state \<Rightarrow>
   ((gerror + Object option) \<times> 's \<times> cache_state) option" where
  "Get_lead d i clk key s cs =
     (let (r, s') = dGet d s key in
      case r of
        Inr (Some obj) \<Rightarrow> map_option (\<lambda>cs'. (r, s', cs')) (admit i (clk 2) key obj cs)
      | Inr None \<Rightarrow> Some (r, s', cs)
      | Inl err \<Rightarrow> Some (r, s', Invalidate i key cs))"

definition Manager_Get ::
  "'s Driver \<Rightarrow> nat \<Rightarrow> (nat \<Rightarrow> gotime) \<Rightarrow> string \<Rightarrow> 's \<Rightarrow> cache_state \<Rightarrow>
   ((gerror + Object option) \<times> 's \<times> cache_state) option" where
  "Manager_Get d i clk key s cs =
     (let (hit, m) = Get_lookup clk key (cs_mgrs cs i);
          cs1 = cs\<lparr>cs_mgrs := (cs_mgrs cs)(i := m)\<rparr>
      in case hit of
           Some obj \<Rightarrow> Some (Inr (Some obj), s, cs1)
         | None \<Rightarrow> Get_lead d i clk key s cs1)"

definition Manager_Put ::
  "'s Driver \<Rightarrow> nat \<Rightarrow> (nat \<Rightarrow> gotime) \<Rightarrow> string \<Rightarrow> bytes \<Rightarrow> string \<Rightarrow> 's \<Rightarrow> cache_state \<Rightarrow>
   ((gerror + Object option) \<times> 's \<times> cache_state) option" where
  "Manager_Put d i clk key value expectedETag s cs =
     (let (r, s') = dPut d s key value expectedETag in
      case r of
        Inl err \<Rightarrow> Some (Inl err, s', Invalidate i key cs)
      | Inr None \<Rightarrow> Some (Inr None, s', cs)
      | Inr (Some obj) \<Rightarrow> map_option (\<lambda>cs'. (Inr (Some obj), s', cs')) (admit i (clk 0) key obj cs))"

definition Manager_Delete ::
  "'s Driver \<Rightarrow> nat \<Rightarrow> string \<Rightarrow> string \<Rightarrow> 's \<Rightarrow> cache_state \<Rightarrow> gerror option \<times> 's \<times> cache_state" where
  "Manager_Delete d i key expectedETag s cs =
     (let (err, s') = dDelete d s key expectedETag in (err, s', Invalidate i key cs))"

text \<open>One shard of \<open>PurgeIf\<close>: walk the elements from the front, removing those the predicate holds for.\<close>

fun purge_elems :: "(string \<Rightarrow> bool) \<Rightarrow> (nat \<times> Item) list \<Rightarrow> cacheShard \<Rightarrow> int \<Rightarrow> nat \<Rightarrow> cacheShard \<times> int \<times> nat" where
  "purge_elems pred [] s freed dropped = (s, freed, dropped)"
| "purge_elems pred ((el, item) # es) s freed dropped =
     (if \<not> pred (it_key item) then purge_elems pred es s freed dropped
      else purge_elems pred es
        (s\<lparr>sh_lru := gl_Remove el (sh_lru s), sh_items := AList.delete (it_key item) (sh_items s),
           sh_bytes := sh_bytes s - it_size item\<rparr>)
        (freed + it_size item) (dropped + 1))"

definition purge_shard :: "(string \<Rightarrow> bool) \<Rightarrow> cacheShard \<Rightarrow> int \<Rightarrow> nat \<Rightarrow> cacheShard \<times> int \<times> nat" where
  "purge_shard pred s freed dropped =
     (let (s', freed', dropped') = purge_elems pred (gl_elems (sh_lru s)) s freed dropped in
      (s'\<lparr>sh_bytes := (if sh_bytes s' < 0 then 0 else sh_bytes s')\<rparr>, freed', dropped'))"

fun purge_shards :: "(string \<Rightarrow> bool) \<Rightarrow> cacheShard list \<Rightarrow> int \<Rightarrow> nat \<Rightarrow> cacheShard list \<times> int \<times> nat" where
  "purge_shards pred [] freed dropped = ([], freed, dropped)"
| "purge_shards pred (s # ss) freed dropped =
     (let (s', freed1, dropped1) = purge_shard pred s freed dropped;
          (ss', freed2, dropped2) = purge_shards pred ss freed1 dropped1
      in (s' # ss', freed2, dropped2))"

definition PurgeIf :: "nat \<Rightarrow> (string \<Rightarrow> bool) \<Rightarrow> cache_state \<Rightarrow> nat \<times> cache_state" where
  "PurgeIf i pred cs =
     (let m = cs_mgrs cs i;
          (shards, freed, dropped) = purge_shards pred (m_shards m) 0 0;
          cs1 = cs\<lparr>cs_mgrs := (cs_mgrs cs)
            (i := m\<lparr>m_shards := shards, m_purged := m_purged m + word_of_nat dropped\<rparr>)\<rparr>
      in (dropped,
          if freed > 0 \<and> m_budget m then cs1\<lparr>cs_budget := Release freed (cs_budget cs1)\<rparr> else cs1))"

definition Manager_Close :: "nat \<Rightarrow> cache_state \<Rightarrow> cache_state option" where
  "Manager_Close i cs =
     (if m_budget (cs_mgrs cs i) then
        map_option (\<lambda>(b, h). cs\<lparr>cs_budget := b, cs_mgrs := h\<rparr>)
          (Unregister EvictOldest i (cs_budget cs) (cs_mgrs cs))
      else Some cs)"

definition GetCacheSize :: "Manager \<Rightarrow> nat \<times> int" where
  "GetCacheSize m = ((\<Sum>s\<leftarrow>m_shards m. length (sh_items s)), (\<Sum>s\<leftarrow>m_shards m. sh_bytes s))"

definition Stats :: "Manager \<Rightarrow> 64 word \<times> 64 word \<times> 64 word" where
  "Stats m = (m_hits m, m_misses m, m_sfHits m)"

definition EvictionStats :: "Manager \<Rightarrow> 64 word \<times> 64 word \<times> 64 word" where
  "EvictionStats m = (m_evictions m, m_skippedLarge m, m_purged m)"

end
