(* ===== verification/CacheLaws.thy ===== *)
theory CacheLaws
  imports CacheManager
begin

text \<open>
  The representation invariants of the cache and the laws of its operations over the
  abstraction \<open>cached\<close>, the item a Manager holds for a key. A shard is well formed when its map
  and its LRU list describe the same entries and its byte count is their total; a Manager when
  it has its 64 well-formed shards and every entry is in the shard of its key.
\<close>

section \<open>Shards\<close>

definition lru_bytes :: "Item golist \<Rightarrow> int" where
  "lru_bytes l = (\<Sum>it \<in># gl_values l. it_size it)"

definition shard_ok :: "cacheShard \<Rightarrow> bool" where
  "shard_ok s \<longleftrightarrow>
     gl_ok (sh_lru s) \<and> wf_map (sh_items s) \<and>
     (\<forall>k el. map_of (sh_items s) k = Some el \<longrightarrow>
        (\<exists>it. gl_Value el (sh_lru s) = Some it \<and> it_key it = k)) \<and>
     (\<forall>el it. gl_Value el (sh_lru s) = Some it \<longrightarrow> map_of (sh_items s) (it_key it) = Some el) \<and>
     sh_bytes s = lru_bytes (sh_lru s) \<and> (\<forall>it \<in># gl_values (sh_lru s). 0 \<le> it_size it)"

definition sh_cached :: "cacheShard \<Rightarrow> string \<Rightarrow> Item option" where
  "sh_cached s k = (case map_of (sh_items s) k of None \<Rightarrow> None | Some el \<Rightarrow> gl_Value el (sh_lru s))"

definition drop_elem :: "nat \<Rightarrow> Item \<Rightarrow> cacheShard \<Rightarrow> cacheShard" where
  "drop_elem el item s =
     s\<lparr>sh_lru := gl_Remove el (sh_lru s), sh_items := AList.delete (it_key item) (sh_items s),
       sh_bytes := sh_bytes s - it_size item\<rparr>"

lemma shard_ok_empty [inv_intros]: "shard_ok emptyShard"
  by (simp add: shard_ok_def emptyShard_def lru_bytes_def gl_ok_New)

lemma sh_cached_empty [simp]: "sh_cached emptyShard = Map.empty"
  by (simp add: sh_cached_def emptyShard_def fun_eq_iff)

lemma shard_okI:
  assumes "gl_ok (sh_lru s)" "wf_map (sh_items s)" "sh_bytes s = lru_bytes (sh_lru s)"
    and "\<And>k el. map_of (sh_items s) k = Some el \<Longrightarrow> \<exists>it. gl_Value el (sh_lru s) = Some it \<and> it_key it = k"
    and "\<And>el it. gl_Value el (sh_lru s) = Some it \<Longrightarrow> map_of (sh_items s) (it_key it) = Some el"
    and "\<And>it. it \<in># gl_values (sh_lru s) \<Longrightarrow> 0 \<le> it_size it"
  shows "shard_ok s"
  using assms by (simp add: shard_ok_def)

lemma shard_okD:
  assumes "shard_ok s"
  shows "gl_ok (sh_lru s)" "wf_map (sh_items s)" "sh_bytes s = lru_bytes (sh_lru s)"
    "gl_Value el (sh_lru s) = Some it \<Longrightarrow> map_of (sh_items s) (it_key it) = Some el"
    "map_of (sh_items s) k = Some el \<Longrightarrow> \<exists>it. gl_Value el (sh_lru s) = Some it \<and> it_key it = k"
  using assms by (auto simp: shard_ok_def)

lemma lru_bytes_nonneg: "shard_ok s \<Longrightarrow> 0 \<le> sh_bytes s"
  by (auto simp: shard_ok_def lru_bytes_def intro!: sum_mset_int_nonneg)

lemma gl_Value_in_values: "gl_ok l \<Longrightarrow> gl_Value el l = Some it \<Longrightarrow> it \<in># gl_values l"
  using gl_values_Remove by (metis union_single_eq_member add_mset_add_single)

lemma sh_cached_key: "shard_ok s \<Longrightarrow> sh_cached s k = Some it \<Longrightarrow> it_key it = k \<and> 0 \<le> it_size it"
  using gl_Value_in_values by (fastforce simp: sh_cached_def shard_ok_def split: option.splits)

lemma sh_cached_elem:
  "shard_ok s \<Longrightarrow> sh_cached s k = Some it \<longleftrightarrow>
    (\<exists>el. map_of (sh_items s) k = Some el \<and> gl_Value el (sh_lru s) = Some it)"
  by (auto simp: sh_cached_def split: option.splits)

lemma drop_elem_laws:
  assumes ok: "shard_ok s" and el: "gl_Value el (sh_lru s) = Some it"
  shows "shard_ok (drop_elem el it s)"
    and "sh_cached (drop_elem el it s) = (sh_cached s)(it_key it := None)"
    and "Suc (gl_Len (sh_lru (drop_elem el it s))) = gl_Len (sh_lru s)"
proof -
  note vals = gl_values_Remove [OF shard_okD(1) [OF ok] el]
  have key: "map_of (sh_items s) (it_key it) = Some el" using shard_okD(4) [OF ok el] .
  have other: "map_of (sh_items s) k \<noteq> Some el" if "k \<noteq> it_key it" for k
    using that el shard_okD(5) [OF ok, of k el] by auto
  have "it_key x \<noteq> it_key it" if "gl_Value e (sh_lru s) = Some x" "e \<noteq> el" for e x
    using that key shard_okD(4) [OF ok that(1)] by auto
  then show "shard_ok (drop_elem el it s)"
    using ok vals key other
    by (auto simp: shard_ok_def drop_elem_def lru_bytes_def gl_ok_Remove split: if_splits)
  show "sh_cached (drop_elem el it s) = (sh_cached s)(it_key it := None)"
    using other by (auto simp: sh_cached_def drop_elem_def fun_eq_iff split: option.splits)
  have "size (gl_values (sh_lru s)) = Suc (size (gl_values (gl_Remove el (sh_lru s))))"
    using vals by simp
  then show "Suc (gl_Len (sh_lru (drop_elem el it s))) = gl_Len (sh_lru s)"
    by (simp add: gl_values_def gl_Len_def drop_elem_def)
qed

lemma drop_elem_bytes:
  assumes "shard_ok s" and "gl_Value el (sh_lru s) = Some it"
  shows "0 \<le> sh_bytes s - it_size it" and "0 \<le> it_size it"
  using lru_bytes_nonneg [OF drop_elem_laws(1) [OF assms]] gl_Value_in_values [OF _ assms(2)] assms(1)
  by (auto simp: drop_elem_def shard_ok_def)

lemma removeElemLocked_eq:
  assumes "shard_ok s" and "gl_Value el (sh_lru s) = Some it"
  shows "removeElemLocked el s = (it_size it, drop_elem el it s)"
  using assms drop_elem_bytes [OF assms] by (auto simp: removeElemLocked_def drop_elem_def Let_def)

lemma sh_cachedE:
  assumes "shard_ok s" and "sh_cached s key = Some it"
  obtains el where "map_of (sh_items s) key = Some el" "gl_Value el (sh_lru s) = Some it"
    "it_key it = key" "0 \<le> it_size it"
  using assms sh_cached_key sh_cached_elem by blast

lemma dropLocked_laws:
  assumes ok: "shard_ok s" and res: "dropLocked key s = (freed, s')"
  shows "shard_ok s'" "sh_cached s' = (sh_cached s)(key := None)" "sh_bytes s' = sh_bytes s - freed"
    "freed = (case sh_cached s key of None \<Rightarrow> 0 | Some it \<Rightarrow> it_size it)" "0 \<le> freed"
proof -
  have "shard_ok s' \<and> sh_cached s' = (sh_cached s)(key := None) \<and> sh_bytes s' = sh_bytes s - freed \<and>
    freed = (case sh_cached s key of None \<Rightarrow> 0 | Some it \<Rightarrow> it_size it) \<and> 0 \<le> freed"
  proof (cases "sh_cached s key")
    case None
    then have "map_of (sh_items s) key = None"
      using shard_okD(5) [OF ok] by (fastforce simp: sh_cached_def split: option.splits)
    with None res ok show ?thesis by (simp add: dropLocked_def fun_upd_idem)
  next
    case (Some it)
    from ok Some obtain el where el: "map_of (sh_items s) key = Some el" "gl_Value el (sh_lru s) = Some it"
      "it_key it = key" "0 \<le> it_size it" by (rule sh_cachedE)
    then have "freed = it_size it" "s' = drop_elem el it s"
      using res removeElemLocked_eq [OF ok el(2)] by (auto simp: dropLocked_def)
    with Some el drop_elem_laws(1,2) [OF ok el(2)] show ?thesis by (simp add: drop_elem_def)
  qed
  then show "shard_ok s'" "sh_cached s' = (sh_cached s)(key := None)" "sh_bytes s' = sh_bytes s - freed"
    "freed = (case sh_cached s key of None \<Rightarrow> 0 | Some it \<Rightarrow> it_size it)" "0 \<le> freed" by blast+
qed

text \<open>Mutating an entry in place and moving it to the front.\<close>

lemma mutate_front_laws:
  assumes ok: "shard_ok s" and el: "gl_Value el (sh_lru s) = Some it"
    and key: "it_key (f it) = it_key it" and sz: "0 \<le> it_size (f it)"
  defines "s' \<equiv> s\<lparr>sh_lru := gl_MoveToFront el (gl_Mutate el f (sh_lru s)),
    sh_bytes := sh_bytes s + (it_size (f it) - it_size it)\<rparr>"
  shows "shard_ok s'" and "sh_cached s' = (sh_cached s)(it_key it \<mapsto> f it)"
proof -
  have okl: "gl_ok (sh_lru s)" "gl_ok (gl_Mutate el f (sh_lru s))"
    using ok by (simp_all add: shard_ok_def gl_ok_Mutate)
  have vals: "add_mset it (gl_values (sh_lru s')) = add_mset (f it) (gl_values (sh_lru s))"
    using gl_values_Mutate [OF okl(1) el, of f] gl_values_MoveToFront [OF okl(2)] by (simp add: s'_def)
  have mk: "map_of (sh_items s) (it_key it) = Some el" using shard_okD(4) [OF ok el] .
  have "lru_bytes (sh_lru s') + it_size it = lru_bytes (sh_lru s) + it_size (f it)"
    using arg_cong [OF vals, of "\<lambda>M. \<Sum>x \<in># M. it_size x"] by (simp add: lru_bytes_def)
  then have bytes: "sh_bytes s' = lru_bytes (sh_lru s')" using ok by (simp add: s'_def shard_ok_def)
  have nn: "\<forall>x \<in># gl_values (sh_lru s'). 0 \<le> it_size x"
  proof
    fix x assume "x \<in># gl_values (sh_lru s')"
    then have "x \<in># add_mset (f it) (gl_values (sh_lru s))" by (metis vals insert_iff set_mset_add_mset_insert)
    then show "0 \<le> it_size x" using ok sz by (auto simp: shard_ok_def)
  qed
  show "shard_ok s'"
  proof (rule shard_okI)
    show "gl_ok (sh_lru s')" "wf_map (sh_items s')"
      using ok okl by (simp_all add: s'_def gl_ok_MoveToFront shard_okD)
    show "\<exists>it. gl_Value e (sh_lru s') = Some it \<and> it_key it = k" if "map_of (sh_items s') k = Some e" for k e
      using that shard_okD(5) [OF ok, of k e] el key by (auto simp: s'_def)
    show "map_of (sh_items s') (it_key x) = Some e" if "gl_Value e (sh_lru s') = Some x" for e x
      using that shard_okD(4) [OF ok, of e] el key by (auto simp: s'_def split: if_splits)
  qed (use bytes nn in auto)
  show "sh_cached s' = (sh_cached s)(it_key it \<mapsto> f it)"
    using el mk shard_okD(5) [OF ok]
    by (fastforce simp: sh_cached_def s'_def fun_eq_iff split: option.splits)
qed

lemma shard_lookup_laws:
  assumes ok: "shard_ok s" and res: "shard_lookup ttl clk key s = (r, s')"
  shows "shard_ok s'" "sh_bytes s' = sh_bytes s"
    "case sh_cached s key of
       Some it \<Rightarrow> (if ttl \<le> 0 \<or> clk 0 - it_LastAccessed it < ttl
         then r = Some (it_Object it) \<and> sh_cached s' = (sh_cached s)(key \<mapsto> it\<lparr>it_LastAccessed := clk 1\<rparr>)
         else r = None \<and> s' = s)
     | None \<Rightarrow> r = None \<and> s' = s"
proof -
  let ?f = "\<lambda>it. it\<lparr>it_LastAccessed := clk 1\<rparr>"
  have "shard_ok s' \<and> sh_bytes s' = sh_bytes s \<and>
    (case sh_cached s key of
       Some it \<Rightarrow> (if ttl \<le> 0 \<or> clk 0 - it_LastAccessed it < ttl
         then r = Some (it_Object it) \<and> sh_cached s' = (sh_cached s)(key \<mapsto> ?f it)
         else r = None \<and> s' = s)
     | None \<Rightarrow> r = None \<and> s' = s)"
  proof (cases "sh_cached s key")
    case None
    then show ?thesis using res ok by (auto simp: shard_lookup_def sh_cached_def split: option.splits)
  next
    case (Some it)
    then obtain el where el: "map_of (sh_items s) key = Some el" "gl_Value el (sh_lru s) = Some it"
      using ok by (auto simp: sh_cached_elem)
    have "it_key it = key" using sh_cached_key [OF ok Some] by simp
    moreover have "0 \<le> it_size it" using sh_cached_key [OF ok Some] by simp
    ultimately show ?thesis
      using res el Some ok mutate_front_laws [OF ok el(2), of ?f]
      by (auto simp: shard_lookup_def split: if_splits)
  qed
  then show "shard_ok s'" "sh_bytes s' = sh_bytes s"
    "case sh_cached s key of
       Some it \<Rightarrow> (if ttl \<le> 0 \<or> clk 0 - it_LastAccessed it < ttl
         then r = Some (it_Object it) \<and> sh_cached s' = (sh_cached s)(key \<mapsto> ?f it)
         else r = None \<and> s' = s)
     | None \<Rightarrow> r = None \<and> s' = s"
    by blast+
qed

definition new_item :: "gotime \<Rightarrow> string \<Rightarrow> Object \<Rightarrow> int \<Rightarrow> Item" where
  "new_item now key obj sz =
     \<lparr>it_Object = obj, it_FetchedAt = now, it_LastAccessed = now, it_key = key, it_size = sz\<rparr>"

lemma push_front_laws:
  assumes ok: "shard_ok s" and none: "map_of (sh_items s) key = None"
    and item: "it_key it = key" "0 \<le> it_size it"
  defines "s' \<equiv> s\<lparr>sh_items := AList.update key (gl_next (sh_lru s)) (sh_items s),
      sh_lru := snd (gl_PushFront it (sh_lru s)), sh_bytes := sh_bytes s + it_size it\<rparr>"
  shows "shard_ok s'" and "sh_cached s' = (sh_cached s)(key \<mapsto> it)"
proof -
  have fresh: "gl_Value (gl_next (sh_lru s)) (sh_lru s) = None"
    using ok by (simp add: shard_ok_def gl_Value_fresh)
  have nokey: "map_of (sh_items s) k \<noteq> Some (gl_next (sh_lru s))" for k
    using shard_okD(5) [OF ok, of k "gl_next (sh_lru s)"] fresh by auto
  have noelem: "gl_Value el (sh_lru s) = Some x \<Longrightarrow> it_key x \<noteq> key" for el x
    using shard_okD(4) [OF ok, of el x] none by auto
  show "shard_ok s'"
    unfolding shard_ok_def
    using ok item fresh nokey noelem
    by (auto simp: s'_def shard_ok_def gl_ok_PushFront lru_bytes_def split: if_splits)
  show "sh_cached s' = (sh_cached s)(key \<mapsto> it)"
    using nokey by (auto simp: sh_cached_def s'_def fun_eq_iff split: option.splits)
qed

lemma shard_admit_laws:
  assumes ok: "shard_ok s" and sz: "0 \<le> sz" and res: "shard_admit now key obj sz s = (replaced, s')"
  shows "shard_ok s'" "sh_cached s' = (sh_cached s)(key \<mapsto> new_item now key obj sz)"
    "replaced = (case sh_cached s key of None \<Rightarrow> 0 | Some it \<Rightarrow> it_size it)"
    "sh_bytes s' = sh_bytes s + sz - replaced" "0 \<le> replaced"
proof -
  let ?f = "\<lambda>it. it\<lparr>it_Object := obj, it_FetchedAt := now, it_LastAccessed := now, it_size := sz\<rparr>"
  have "shard_ok s' \<and> sh_cached s' = (sh_cached s)(key \<mapsto> new_item now key obj sz) \<and>
    replaced = (case sh_cached s key of None \<Rightarrow> 0 | Some it \<Rightarrow> it_size it) \<and>
    sh_bytes s' = sh_bytes s + sz - replaced \<and> 0 \<le> replaced"
  proof (cases "map_of (sh_items s) key")
    case None
    then have c: "sh_cached s key = None" by (simp add: sh_cached_def)
    have s': "replaced = 0" "s' = s\<lparr>sh_items := AList.update key (gl_next (sh_lru s)) (sh_items s),
        sh_lru := snd (gl_PushFront (new_item now key obj sz) (sh_lru s)), sh_bytes := sh_bytes s + sz\<rparr>"
      using res None lru_bytes_nonneg [OF ok] sz
      by (auto simp: shard_admit_def new_item_def gl_PushFront_def Let_def)
    show ?thesis
      using push_front_laws [OF ok None, of "new_item now key obj sz"] s' sz c
      by (simp add: new_item_def)
  next
    case (Some el)
    then obtain it where it: "gl_Value el (sh_lru s) = Some it" "it_key it = key"
      using shard_okD(5) [OF ok] by blast
    then have c: "sh_cached s key = Some it" using Some by (simp add: sh_cached_def)
    have fit: "?f it = new_item now key obj sz" using it(2) by (simp add: new_item_def)
    note m = mutate_front_laws [OF ok it(1), of ?f]
    have s': "replaced = it_size it" "s' = s\<lparr>sh_lru := gl_MoveToFront el (gl_Mutate el ?f (sh_lru s)),
        sh_bytes := sh_bytes s + (sz - it_size it)\<rparr>"
      using res Some it lru_bytes_nonneg [OF m(1)] sz
      by (auto simp: shard_admit_def Let_def)
    show ?thesis
      using m s' sz c it(2) sh_cached_key [OF ok c] by (simp add: fit [symmetric])
  qed
  then show "shard_ok s'" "sh_cached s' = (sh_cached s)(key \<mapsto> new_item now key obj sz)"
    "replaced = (case sh_cached s key of None \<Rightarrow> 0 | Some it \<Rightarrow> it_size it)"
    "sh_bytes s' = sh_bytes s + sz - replaced" "0 \<le> replaced"
    by blast+
qed

lemma purge_elems_laws:
  assumes "shard_ok s" and "wf_map es" and "\<forall>(el, it) \<in> set es. gl_Value el (sh_lru s) = Some it"
    and "purge_elems pred es s freed dropped = (s', freed', dropped')"
  shows "shard_ok s' \<and> sh_bytes s' - sh_bytes s = freed - freed' \<and> freed \<le> freed' \<and>
    (\<forall>k. sh_cached s' k = (if pred k \<and> k \<in> (it_key \<circ> snd) ` set es then None else sh_cached s k))"
  using assms
proof (induction pred es s freed dropped arbitrary: s' freed' dropped' rule: purge_elems.induct)
  case (2 pred el it es s freed dropped)
  have el: "gl_Value el (sh_lru s) = Some it" using "2.prems"(3) by simp
  show ?case
  proof (cases "pred (it_key it)")
    case False
    with 2 show ?thesis by (auto split: if_splits)
  next
    case True
    note d = drop_elem_laws [OF "2.prems"(1) el] and b = drop_elem_bytes [OF "2.prems"(1) el]
    have rest: "\<forall>(e, x) \<in> set es. gl_Value e (sh_lru (drop_elem el it s)) = Some x"
      using "2.prems"(2,3) by (force simp: drop_elem_def)
    have "shard_ok s' \<and> sh_bytes s' - sh_bytes (drop_elem el it s) = (freed + it_size it) - freed' \<and>
      freed + it_size it \<le> freed' \<and>
      (\<forall>k. sh_cached s' k = (if pred k \<and> k \<in> (it_key \<circ> snd) ` set es then None
         else sh_cached (drop_elem el it s) k))"
      using "2.IH"(2) [of s' freed' dropped'] "2.prems" True d(1) rest by (simp add: drop_elem_def)
    then show ?thesis using True b d(2) by (auto simp: drop_elem_def)
  qed
qed simp

lemma purge_shard_laws:
  assumes ok: "shard_ok s" and res: "purge_shard pred s freed dropped = (s', freed', dropped')"
  shows "shard_ok s'" "sh_cached s' = (\<lambda>k. if pred k then None else sh_cached s k)"
    "sh_bytes s' = sh_bytes s - (freed' - freed)" "freed \<le> freed'"
proof -
  obtain s1 where s1: "purge_elems pred (gl_elems (sh_lru s)) s freed dropped = (s1, freed', dropped')"
    "s' = s1\<lparr>sh_bytes := (if sh_bytes s1 < 0 then 0 else sh_bytes s1)\<rparr>"
    using res by (auto simp: purge_shard_def Let_def split: prod.splits)
  have "wf_map (gl_elems (sh_lru s))" "\<forall>(el, it) \<in> set (gl_elems (sh_lru s)). gl_Value el (sh_lru s) = Some it"
    using shard_okD(1) [OF ok] by (auto simp: gl_ok_def in_elems_iff [OF shard_okD(1) [OF ok]])
  note p = purge_elems_laws [OF ok this s1(1)]
  then have s': "s' = s1" using lru_bytes_nonneg [of s1] s1(2) by simp
  have keys: "k \<in> (it_key \<circ> snd) ` set (gl_elems (sh_lru s))" if c: "sh_cached s k = Some it" for k it
  proof -
    from ok c obtain el where "gl_Value el (sh_lru s) = Some it" "it_key it = k" by (rule sh_cachedE)
    then show ?thesis using in_elems_iff [OF shard_okD(1) [OF ok], of el it] by force
  qed
  show "shard_ok s'" "sh_bytes s' = sh_bytes s - (freed' - freed)" "freed \<le> freed'"
    using p s' by auto
  show "sh_cached s' = (\<lambda>k. if pred k then None else sh_cached s k)"
  proof
    fix k show "sh_cached s' k = (if pred k then None else sh_cached s k)"
      using p s' keys [of k] by (cases "sh_cached s k") auto
  qed
qed

section \<open>Managers\<close>

definition shards_ok :: "cacheShard list \<Rightarrow> bool" where
  "shards_ok ss \<longleftrightarrow> length ss = shardCount \<and> (\<forall>s \<in> set ss. shard_ok s) \<and>
     (\<forall>i < shardCount. \<forall>k. sh_cached (ss ! i) k \<noteq> None \<longrightarrow> shardFor k = i)"

abbreviation mgr_ok :: "Manager \<Rightarrow> bool" where
  "mgr_ok m \<equiv> shards_ok (m_shards m)"

definition shards_cached :: "cacheShard list \<Rightarrow> string \<Rightarrow> Item option" where
  "shards_cached ss k = sh_cached (ss ! shardFor k) k"

abbreviation cached :: "Manager \<Rightarrow> string \<Rightarrow> Item option" where
  "cached m \<equiv> shards_cached (m_shards m)"

definition shards_held :: "cacheShard list \<Rightarrow> int" where
  "shards_held ss = (\<Sum>s\<leftarrow>ss. sh_bytes s)"

abbreviation mgr_held :: "Manager \<Rightarrow> int" where
  "mgr_held m \<equiv> shards_held (m_shards m)"

definition shards_entries :: "cacheShard list \<Rightarrow> nat" where
  "shards_entries ss = (\<Sum>s\<leftarrow>ss. gl_Len (sh_lru s))"

abbreviation mgr_entries :: "Manager \<Rightarrow> nat" where
  "mgr_entries m \<equiv> shards_entries (m_shards m)"

lemma shardFor_less [simp]: "shardFor key < shardCount"
proof -
  have "unat (fnv1a32 (bytes_of_string key) AND 63) \<le> unat (63 :: 32 word)"
    by (rule word_and_le1 [THEN word_le_nat_alt [THEN iffD1]])
  then show ?thesis by (simp add: shardFor_def shardCount_def)
qed

lemma shards_ok_nth: "shards_ok ss \<Longrightarrow> i < shardCount \<Longrightarrow> shard_ok (ss ! i)"
  by (simp add: shards_ok_def)

lemma shards_ok_shardFor [simp]: "shards_ok ss \<Longrightarrow> shard_ok (ss ! shardFor key)"
  by (simp add: shards_ok_nth)

lemma sum_list_upd:
  fixes f :: "'a \<Rightarrow> int"
  shows "i < length xs \<Longrightarrow> (\<Sum>x\<leftarrow>xs[i := y]. f x) = (\<Sum>x\<leftarrow>xs. f x) - f (xs ! i) + f y"
  by (induction xs arbitrary: i) (auto split: nat.splits)

text \<open>Replacing the shard of one key, when only that key's entry changes.\<close>

lemma shards_update:
  assumes ok: "shards_ok ss" and s: "shard_ok s" "sh_cached s = (sh_cached (ss ! shardFor key))(key := v)"
  shows "shards_ok (ss[shardFor key := s])"
    and "shards_cached (ss[shardFor key := s]) = (shards_cached ss)(key := v)"
    and "shards_held (ss[shardFor key := s]) = shards_held ss - sh_bytes (ss ! shardFor key) + sh_bytes s"
proof -
  have len: "length ss = shardCount" "shardFor key < length ss" using ok by (simp_all add: shards_ok_def)
  show "shards_ok (ss[shardFor key := s])"
    using ok s len by (auto simp: shards_ok_def nth_list_update split: if_splits dest!: set_update_subset_insert [THEN subsetD])
  show "shards_cached (ss[shardFor key := s]) = (shards_cached ss)(key := v)"
    using s(2) len by (auto simp: shards_cached_def nth_list_update fun_eq_iff)
  show "shards_held (ss[shardFor key := s]) = shards_held ss - sh_bytes (ss ! shardFor key) + sh_bytes s"
    using len by (simp add: shards_held_def sum_list_upd)
qed

lemma shards_held_nonneg: "shards_ok ss \<Longrightarrow> 0 \<le> shards_held ss"
  unfolding shards_held_def by (rule sum_list_nonneg) (auto simp: shards_ok_def dest: lru_bytes_nonneg)

lemma shards_empty:
  "shards_ok (replicate shardCount emptyShard)" "shards_cached (replicate shardCount emptyShard) = Map.empty"
  "shards_held (replicate shardCount emptyShard) = 0"
  by (auto simp: shards_ok_def shard_ok_empty shards_cached_def shards_held_def sum_list_replicate
      emptyShard_def [THEN arg_cong [where f = sh_bytes]])

lemma purge_shards_laws:
  assumes "\<forall>s \<in> set ss. shard_ok s" and "purge_shards pred ss freed dropped = (ss', freed', dropped')"
  shows "length ss' = length ss \<and> (\<forall>s \<in> set ss'. shard_ok s) \<and>
    (\<forall>i < length ss. sh_cached (ss' ! i) = (\<lambda>k. if pred k then None else sh_cached (ss ! i) k)) \<and>
    shards_held ss' = shards_held ss - (freed' - freed) \<and> freed \<le> freed'"
  using assms
proof (induction pred ss freed dropped arbitrary: ss' freed' dropped' rule: purge_shards.induct)
  case (2 pred s ss freed dropped)
  obtain s1 f1 d1 where 1: "purge_shard pred s freed dropped = (s1, f1, d1)" by (metis prod_cases3)
  obtain ss2 f2 d2 where r: "purge_shards pred ss f1 d1 = (ss2, f2, d2)" by (metis prod_cases3)
  have res: "ss' = s1 # ss2" "freed' = f2" using "2.prems"(2) 1 r by simp_all
  note IH = "2.IH" [OF 1 [symmetric] refl refl, of ss2 f2 d2]
  have s: "shard_ok s" using "2.prems"(1) by simp
  show ?case
    using purge_shard_laws [OF s 1] IH r "2.prems"(1) res
    by (auto simp: shards_held_def nth_Cons split: nat.split)
qed simp

end
