(* ===== verification/CacheProps.thy ===== *)
theory CacheProps
  imports CacheLaws
begin

text \<open>
  Correctness of the cache over several Managers that share a Budget: the Manager is an Evictor
  in the sense of the Budget's contract, every operation returns and keeps the byte accounting
  exact and below the limit, and the cache stays coherent with its driver, for any driver that
  meets the weak contract of the storage interface.
\<close>

section \<open>Eviction\<close>

lemma scan_shards_Some: "scan_shards i ss (Some b) oldest \<noteq> None"
  by (induction ss arbitrary: i b oldest) (auto split: option.splits)

lemma scan_shards_None:
  "scan_shards i ss None zeroTime = None \<Longrightarrow> s \<in> set ss \<Longrightarrow> gl_Back (sh_lru s) = None"
  by (induction ss arbitrary: i) (auto simp: scan_shards_Some split: option.splits)

lemma scan_shards_back:
  "scan_shards i ss best oldest = Some (j, el) \<Longrightarrow>
   best = Some (j, el) \<or> (\<exists>n it. n < length ss \<and> j = i + n \<and> gl_Back (sh_lru (ss ! n)) = Some (el, it))"
proof (induction ss arbitrary: i best oldest)
  case (Cons s ss)
  have shift: ?case if "\<exists>n it. n < length ss \<and> j = (i + 1) + n \<and> gl_Back (sh_lru (ss ! n)) = Some (el, it)"
    using that by (metis Suc_eq_plus1 add_Suc_right add_Suc_shift length_Cons not_less_eq nth_Cons_Suc)
  show ?case
  proof (cases "gl_Back (sh_lru s)")
    case None
    with Cons.prems have "scan_shards (i + 1) ss best oldest = Some (j, el)" by simp
    from Cons.IH [OF this] shift show ?thesis by blast
  next
    case (Some b)
    obtain el' it where b: "b = (el', it)" by (cases b)
    show ?thesis
    proof (cases "oldest = zeroTime \<or> it_LastAccessed it < oldest")
      case True
      with Cons.prems Some b have "scan_shards (i + 1) ss (Some (i, el')) (it_LastAccessed it) = Some (j, el)"
        by auto
      from Cons.IH [OF this] shift show ?thesis using Some b by force
    next
      case False
      with Cons.prems Some b have "scan_shards (i + 1) ss best oldest = Some (j, el)" by auto
      from Cons.IH [OF this] shift show ?thesis by blast
    qed
  qed
qed simp

lemma entries_0_iff: "shards_entries ss = 0 \<longleftrightarrow> (\<forall>s \<in> set ss. gl_Back (sh_lru s) = None)"
  by (auto simp: shards_entries_def gl_Len_def gl_Back_def)

lemma evict_empty_law:
  assumes "shards_entries (m_shards m) = 0"
  shows "EvictOldest m = ((0, False), m)"
proof -
  have "scan_shards 0 (m_shards m) None zeroTime = None"
  proof (rule ccontr)
    assume "scan_shards 0 (m_shards m) None zeroTime \<noteq> None"
    then obtain j el where "scan_shards 0 (m_shards m) None zeroTime = Some (j, el)" by auto
    from scan_shards_back [OF this] assms show False by (auto simp: entries_0_iff)
  qed
  then show ?thesis by (simp add: EvictOldest_def numeral_3_eq_3)
qed

lemma held_0: "shards_ok ss \<Longrightarrow> shards_entries ss = 0 \<Longrightarrow> shards_held ss = 0"
proof -
  assume ok: "shards_ok ss" and e: "shards_entries ss = 0"
  have "sh_bytes s = 0" if "s \<in> set ss" for s
    using that ok e by (auto simp: shards_ok_def shards_entries_def gl_Len_def shard_ok_def lru_bytes_def
        gl_values_def)
  then show ?thesis unfolding shards_held_def by (induction ss) auto
qed

lemma sum_list_upd_nat:
  fixes f :: "'a \<Rightarrow> nat"
  shows "i < length xs \<Longrightarrow> (\<Sum>x\<leftarrow>xs[i := y]. f x) + f (xs ! i) = (\<Sum>x\<leftarrow>xs. f x) + f y"
  by (induction xs arbitrary: i) (auto split: nat.splits)

lemma evict_entry_law:
  assumes ok: "mgr_ok m" and ne: "mgr_entries m \<noteq> 0"
  obtains i el it m' where "scan_shards 0 (m_shards m) None zeroTime = Some (i, el)" "i < shardCount"
    "gl_Back (sh_lru (m_shards m ! i)) = Some (el, it)" "cached m (it_key it) = Some it"
    "shardFor (it_key it) = i" "EvictOldest m = ((it_size it, True), m')"
    "m' = m\<lparr>m_shards := (m_shards m)[i := drop_elem el it (m_shards m ! i)], m_evictions := m_evictions m + 1\<rparr>"
    "mgr_ok m'" "cached m' = (cached m)(it_key it := None)" "mgr_held m' = mgr_held m - it_size it"
    "Suc (mgr_entries m') = mgr_entries m" "0 \<le> it_size it"
proof -
  let ?ss = "m_shards m"
  from ne obtain i el where scan: "scan_shards 0 ?ss None zeroTime = Some (i, el)"
    using scan_shards_None entries_0_iff by (metis option.exhaust surj_pair)
  have len: "length ?ss = shardCount" using ok by (simp add: shards_ok_def)
  from scan_shards_back [OF scan] obtain it where i: "i < shardCount"
    and bk: "gl_Back (sh_lru (?ss ! i)) = Some (el, it)" using len by auto
  let ?s = "?ss ! i"
  have sok: "shard_ok ?s" using ok i by (rule shards_ok_nth)
  have el: "gl_Value el (sh_lru ?s) = Some it" using gl_Back_Value [OF shard_okD(1) [OF sok] bk] .
  have key: "map_of (sh_items ?s) (it_key it) = Some el" using shard_okD(4) [OF sok el] .
  have shc: "sh_cached ?s (it_key it) = Some it" using key el by (simp add: sh_cached_def)
  then have sf: "shardFor (it_key it) = i" using ok i by (auto simp: shards_ok_def)
  let ?m = "m\<lparr>m_shards := ?ss[i := drop_elem el it ?s], m_evictions := m_evictions m + 1\<rparr>"
  have ev: "EvictOldest m = ((it_size it, True), ?m)"
    using scan el key removeElemLocked_eq [OF sok el]
    by (simp add: EvictOldest_def numeral_3_eq_3 Let_def)
  note d = drop_elem_laws [OF sok el] and u = shards_update [OF ok, of "drop_elem el it ?s" "it_key it" None]
  have "Suc (mgr_entries ?m) = mgr_entries m"
    using sum_list_upd_nat [of i ?ss "\<lambda>s. gl_Len (sh_lru s)" "drop_elem el it ?s"] d(3) len i
    by (simp add: shards_entries_def)
  moreover have "mgr_ok ?m" "cached ?m = (cached m)(it_key it := None)" "mgr_held ?m = mgr_held m - it_size it"
    using u d sf by (simp_all add: drop_elem_def)
  moreover have "cached m (it_key it) = Some it" using shc sf by (simp add: shards_cached_def)
  ultimately show ?thesis
    using that scan i bk sf ev drop_elem_bytes(2) [OF sok el] by blast
qed

interpretation mgr: evictor EvictOldest "\<lambda>m. mgr_entries m" "\<lambda>m. mgr_held m" "\<lambda>m. mgr_ok m"
proof (unfold_locales, goal_cases)
  case (1 m)
  then show ?case by (metis evict_entry_law)
next
  case (2 m)
  then show ?case by (simp add: evict_empty_law held_0)
next
  case (3 m)
  then show ?case by (rule shards_held_nonneg)
qed

text \<open>Evictions only take entries away and keep the configuration.\<close>

definition shrunk :: "Manager \<Rightarrow> Manager \<Rightarrow> bool" where
  "shrunk m m' \<longleftrightarrow> mgr_ok m' \<and> (\<forall>k it. cached m' k = Some it \<longrightarrow> cached m k = Some it) \<and>
     m_budget m' = m_budget m \<and> m_ttl m' = m_ttl m \<and> m_maxObjectSize m' = m_maxObjectSize m"

lemma shrunk_evict: "mgr_ok m \<Longrightarrow> shrunk m (snd (EvictOldest m))"
proof (cases "mgr_entries m = 0")
  case False
  assume "mgr_ok m"
  from this False obtain i el it m' where ev: "EvictOldest m = ((it_size it, True), m')" "mgr_ok m'"
    "cached m' = (cached m)(it_key it := None)"
    "m' = m\<lparr>m_shards := (m_shards m)[i := drop_elem el it (m_shards m ! i)], m_evictions := m_evictions m + 1\<rparr>"
    by (rule evict_entry_law)
  have "cached m k = Some x" if "cached m' k = Some x" for k x
    using that ev(3) by (simp split: if_splits)
  with ev(1,2) show ?thesis unfolding shrunk_def by (simp add: ev(4))
qed (simp add: evict_empty_law shrunk_def)

lemma shrunk_evicted: "mgr.evicted m m' \<Longrightarrow> mgr_ok m \<Longrightarrow> shrunk m m'"
proof -
  assume "mgr.evicted m m'" and ok: "mgr_ok m"
  then obtain n where m': "m' = ((\<lambda>m. snd (EvictOldest m)) ^^ n) m" by (auto simp: mgr.evicted_def)
  have "shrunk m (((\<lambda>m. snd (EvictOldest m)) ^^ n) m)"
  proof (induction n)
    case (Suc n)
    then have "mgr_ok (((\<lambda>m. snd (EvictOldest m)) ^^ n) m)" by (simp add: shrunk_def)
    from Suc shrunk_evict [OF this] show ?case by (simp add: shrunk_def)
  qed (simp add: shrunk_def ok)
  with m' show ?thesis by simp
qed

section \<open>The invariant of the process\<close>

text \<open>
  All Managers are well formed, every registered one reserves against the Budget, the Budget's
  count is exactly what the registered Managers hold (plus \<open>pend\<close>), and it is within a
  positive limit. A Manager is live when it has no budget or is registered with it.
\<close>

definition cs_ok :: "int \<Rightarrow> cache_state \<Rightarrow> bool" where
  "cs_ok pend cs \<longleftrightarrow>
     accounted (\<lambda>m. mgr_held m) (\<lambda>m. mgr_ok m) pend (cs_budget cs) (cs_mgrs cs) \<and>
     (\<forall>i. mgr_ok (cs_mgrs cs i)) \<and>
     (\<forall>i \<in> set (b_evictors (cs_budget cs)). m_budget (cs_mgrs cs i)) \<and>
     (0 < b_limit (cs_budget cs) \<longrightarrow> b_used (cs_budget cs) \<le> b_limit (cs_budget cs))"

definition live :: "nat \<Rightarrow> cache_state \<Rightarrow> bool" where
  "live i cs \<longleftrightarrow> (m_budget (cs_mgrs cs i) \<longrightarrow> i \<in> set (b_evictors (cs_budget cs)))"

definition cached_obj :: "cache_state \<Rightarrow> nat \<Rightarrow> string \<Rightarrow> Object option" where
  "cached_obj cs i k = map_option it_Object (cached (cs_mgrs cs i) k)"

text \<open>
  How an operation of Manager \<open>i\<close> on \<open>key\<close> may change the caches: the entry of the key becomes
  \<open>v\<close> or disappears, any other entry of any Manager stays or disappears; the configuration and
  the registrations are untouched.
\<close>

definition cache_step :: "nat \<Rightarrow> string \<Rightarrow> Object option \<Rightarrow> cache_state \<Rightarrow> cache_state \<Rightarrow> bool" where
  "cache_step i key v cs cs' \<longleftrightarrow>
     (\<forall>j k obj. cached_obj cs' j k = Some obj \<longrightarrow>
        (if j = i \<and> k = key then v = Some obj else cached_obj cs j k = Some obj)) \<and>
     b_evictors (cs_budget cs') = b_evictors (cs_budget cs) \<and> b_limit (cs_budget cs') = b_limit (cs_budget cs) \<and>
     (\<forall>j. m_budget (cs_mgrs cs' j) = m_budget (cs_mgrs cs j) \<and> m_ttl (cs_mgrs cs' j) = m_ttl (cs_mgrs cs j) \<and>
          m_maxObjectSize (cs_mgrs cs' j) = m_maxObjectSize (cs_mgrs cs j))"

lemma cache_step_live: "cache_step i key v cs cs' \<Longrightarrow> live j cs' \<longleftrightarrow> live j cs"
  by (simp add: cache_step_def live_def)

lemma cache_step_trans:
  assumes "cache_step i key w cs cs1" and "cache_step i key v cs1 cs2"
  shows "cache_step i key v cs cs2"
  using assms unfolding cache_step_def by auto

lemma Release_simps [simp]:
  "b_limit (Release n b) = b_limit b" "b_evictors (Release n b) = b_evictors b" "b_cursor (Release n b) = b_cursor b"
  by (simp_all add: Release_def)

text \<open>
  Replacing the state of one Manager and releasing what it gave up: the common tail of
  Invalidate, admit and PurgeIf.
\<close>

definition put_mgr :: "nat \<Rightarrow> Manager \<Rightarrow> int \<Rightarrow> cache_state \<Rightarrow> cache_state" where
  "put_mgr i m freed cs =
     (let cs1 = cs\<lparr>cs_mgrs := (cs_mgrs cs)(i := m)\<rparr> in
      if freed > 0 \<and> m_budget m then cs1\<lparr>cs_budget := Release freed (cs_budget cs1)\<rparr> else cs1)"

lemma put_mgr_simps [simp]:
  "cs_mgrs (put_mgr i m freed cs) = (cs_mgrs cs)(i := m)"
  "b_limit (cs_budget (put_mgr i m freed cs)) = b_limit (cs_budget cs)"
  "b_evictors (cs_budget (put_mgr i m freed cs)) = b_evictors (cs_budget cs)"
  "b_cursor (cs_budget (put_mgr i m freed cs)) = b_cursor (cs_budget cs)"
  by (simp_all add: put_mgr_def Let_def)

lemma put_mgr_used:
  assumes "0 \<le> freed" and "m_budget m \<Longrightarrow> freed \<le> b_used (cs_budget cs)"
  shows "b_used (cs_budget (put_mgr i m freed cs)) = b_used (cs_budget cs) - (if m_budget m then freed else 0)"
  using assms by (auto simp: put_mgr_def Let_def Release_def sub_used_def)

lemma held_le_used:
  assumes "cs_ok pend cs" and "i \<in> set (b_evictors (cs_budget cs))"
  shows "mgr_held (cs_mgrs cs i) + pend \<le> b_used (cs_budget cs)"
proof -
  let ?evs = "b_evictors (cs_budget cs)" and ?held = "\<lambda>m. mgr_held m"
  have "held_sum ?held (cs_mgrs cs) ?evs =
      mgr_held (cs_mgrs cs i) + held_sum ?held (cs_mgrs cs) (remove1 i ?evs)"
    unfolding held_sum_def using assms(2) by (simp add: sum_list_map_remove1)
  moreover have "0 \<le> held_sum ?held (cs_mgrs cs) (remove1 i ?evs)"
    using assms(1) by (intro mgr.held_sum_nonneg) (simp add: cs_ok_def)
  ultimately show ?thesis using assms(1) by (simp add: cs_ok_def accounted_def)
qed

lemma put_mgr_ok:
  assumes ok: "cs_ok pend cs" and lv: "live i cs" and m: "mgr_ok m" "m_budget m = m_budget (cs_mgrs cs i)"
    and held: "mgr_held m = mgr_held (cs_mgrs cs i) + add - freed" "0 \<le> freed" "0 \<le> add"
    and pend: "if m_budget m then pend' = pend - add \<and> 0 \<le> pend' else pend' = pend"
  shows "cs_ok pend' (put_mgr i m freed cs)"
proof (cases "m_budget m")
  case False
  then have "i \<notin> set (b_evictors (cs_budget cs))" using ok m(2) by (auto simp: cs_ok_def)
  with False ok m pend show ?thesis
    by (auto simp: cs_ok_def accounted_def put_mgr_def)
next
  case True
  then have reg: "i \<in> set (b_evictors (cs_budget cs))" using lv m(2) by (simp add: live_def)
  have "0 \<le> mgr_held m" using m(1) by (rule shards_held_nonneg)
  then have le: "freed \<le> b_used (cs_budget cs)"
    using held_le_used [OF ok reg] held pend True by simp
  have used: "b_used (cs_budget (put_mgr i m freed cs)) = b_used (cs_budget cs) - freed"
    using put_mgr_used [OF held(2) le, of i] True by simp
  have "held_sum (\<lambda>m. mgr_held m) ((cs_mgrs cs)(i := m)) (b_evictors (cs_budget cs)) =
    held_sum (\<lambda>m. mgr_held m) (cs_mgrs cs) (b_evictors (cs_budget cs)) + add - freed"
    using ok reg held(1) by (simp add: held_sum_upd cs_ok_def accounted_def)
  with used ok m pend True held(2) show ?thesis
    by (auto simp: cs_ok_def accounted_def)
qed

lemma put_mgr_step:
  assumes "\<And>k it. cached m k = Some it \<Longrightarrow>
      if k = key then v = Some (it_Object it) else \<exists>it'. cached (cs_mgrs cs i) k = Some it' \<and> it_Object it' = it_Object it"
    and "m_budget m = m_budget (cs_mgrs cs i)" "m_ttl m = m_ttl (cs_mgrs cs i)"
      "m_maxObjectSize m = m_maxObjectSize (cs_mgrs cs i)"
  shows "cache_step i key v cs (put_mgr i m freed cs)"
proof -
  have "if j = i \<and> k = key then v = Some obj else cached_obj cs j k = Some obj"
    if c: "cached_obj (put_mgr i m freed cs) j k = Some obj" for j k obj
  proof (cases "j = i")
    case True
    with c obtain it where it: "cached m k = Some it" "it_Object it = obj" by (auto simp: cached_obj_def)
    from assms(1) [OF it(1)] True it(2) show ?thesis by (auto simp: cached_obj_def split: if_splits)
  qed (use c in \<open>simp add: cached_obj_def\<close>)
  with assms(2-4) show ?thesis by (auto simp: cache_step_def)
qed

section \<open>The operations\<close>

lemma Invalidate_eq:
  "Invalidate i key cs =
     (let m = cs_mgrs cs i; (freed, s) = dropLocked key (m_shards m ! shardFor key)
      in put_mgr i (m\<lparr>m_shards := (m_shards m)[shardFor key := s]\<rparr>) freed cs)"
  by (simp add: Invalidate_def put_mgr_def Let_def split: prod.split)

lemma Invalidate_laws:
  assumes ok: "cs_ok pend cs" and lv: "live i cs"
  shows "cs_ok pend (Invalidate i key cs)" "cache_step i key None cs (Invalidate i key cs)"
    "cached (cs_mgrs (Invalidate i key cs) i) = (cached (cs_mgrs cs i))(key := None)"
    "j \<noteq> i \<Longrightarrow> cs_mgrs (Invalidate i key cs) j = cs_mgrs cs j"
proof -
  let ?m = "cs_mgrs cs i" and ?s = "m_shards (cs_mgrs cs i) ! shardFor key"
  obtain freed s where d: "dropLocked key ?s = (freed, s)" by (cases "dropLocked key ?s")
  let ?m' = "?m\<lparr>m_shards := (m_shards ?m)[shardFor key := s]\<rparr>"
  have mok: "mgr_ok ?m" using ok by (simp add: cs_ok_def)
  note l = dropLocked_laws [OF shards_ok_shardFor [OF mok] d]
  note u = shards_update [OF mok l(1,2)]
  have eq: "Invalidate i key cs = put_mgr i ?m' freed cs" by (simp add: Invalidate_eq Let_def d)
  show "cs_ok pend (Invalidate i key cs)"
    unfolding eq using ok lv u l(3,5)
    by (intro put_mgr_ok [where add = 0 and pend = pend]) (auto simp: cs_ok_def accounted_def)
  show "cache_step i key None cs (Invalidate i key cs)"
    unfolding eq using u(2) by (intro put_mgr_step) (auto split: if_splits)
  show "cached (cs_mgrs (Invalidate i key cs) i) = (cached ?m)(key := None)"
    "j \<noteq> i \<Longrightarrow> cs_mgrs (Invalidate i key cs) j = cs_mgrs cs j"
    unfolding eq using u(2) by simp_all
qed

lemma admit_store_eq:
  "admit_store i now key obj sz cs =
     (let m = cs_mgrs cs i; (replaced, s) = shard_admit now key obj sz (m_shards m ! shardFor key)
      in put_mgr i (m\<lparr>m_shards := (m_shards m)[shardFor key := s]\<rparr>) replaced cs)"
  by (simp add: admit_store_def put_mgr_def Let_def split: prod.split)

lemma admit_store_laws:
  assumes ok: "cs_ok (if m_budget (cs_mgrs cs i) then pend + sz else pend) cs" and lv: "live i cs"
    and sz: "0 \<le> sz" and pend: "0 \<le> pend"
  shows "cs_ok pend (admit_store i now key obj sz cs)"
    "cache_step i key (Some obj) cs (admit_store i now key obj sz cs)"
    "cached (cs_mgrs (admit_store i now key obj sz cs) i) = (cached (cs_mgrs cs i))(key \<mapsto> new_item now key obj sz)"
proof -
  let ?m = "cs_mgrs cs i" and ?s = "m_shards (cs_mgrs cs i) ! shardFor key"
  obtain replaced s where d: "shard_admit now key obj sz ?s = (replaced, s)"
    by (cases "shard_admit now key obj sz ?s")
  let ?m' = "?m\<lparr>m_shards := (m_shards ?m)[shardFor key := s]\<rparr>"
  have mok: "mgr_ok ?m" using ok by (simp add: cs_ok_def)
  note l = shard_admit_laws [OF shards_ok_shardFor [OF mok] sz d]
  note u = shards_update [OF mok l(1,2)]
  have eq: "admit_store i now key obj sz cs = put_mgr i ?m' replaced cs" by (simp add: admit_store_eq Let_def d)
  show "cs_ok pend (admit_store i now key obj sz cs)"
    unfolding eq using lv u l(4,5) sz pend
    by (intro put_mgr_ok [OF ok, where add = sz]) (auto split: if_splits)
  show "cache_step i key (Some obj) cs (admit_store i now key obj sz cs)"
    unfolding eq using u(2) by (intro put_mgr_step) (auto simp: new_item_def split: if_splits)
  show "cached (cs_mgrs (admit_store i now key obj sz cs) i) = (cached ?m)(key \<mapsto> new_item now key obj sz)"
    unfolding eq using u(2) by simp
qed

text \<open>Reserving space may evict from any registered Manager, and nothing else.\<close>

definition cache_shrink :: "cache_state \<Rightarrow> cache_state \<Rightarrow> bool" where
  "cache_shrink cs cs' \<longleftrightarrow> (\<forall>j. shrunk (cs_mgrs cs j) (cs_mgrs cs' j)) \<and>
     b_evictors (cs_budget cs') = b_evictors (cs_budget cs) \<and> b_limit (cs_budget cs') = b_limit (cs_budget cs)"

lemma cache_shrink_step:
  assumes "cache_shrink cs cs1" and "cache_step i key v cs1 cs2"
  shows "cache_step i key v cs cs2"
proof -
  have "cached_obj cs j k = Some obj" if "cached_obj cs1 j k = Some obj" for j k obj
    using assms(1) that by (auto simp: cache_shrink_def shrunk_def cached_obj_def)
  with assms show ?thesis unfolding cache_step_def cache_shrink_def shrunk_def by (metis (lifting))
qed

lemma cache_shrink_live: "cache_shrink cs cs' \<Longrightarrow> live j cs' \<longleftrightarrow> live j cs"
  by (simp add: cache_shrink_def shrunk_def live_def)

lemma Reserve_laws:
  assumes ok: "cs_ok 0 cs" and n: "0 \<le> n"
  shows "\<exists>r b h. Reserve EvictOldest n (cs_budget cs) (cs_mgrs cs) = Some (r, b, h) \<and>
    cs_ok (if r then n else 0) (cs\<lparr>cs_budget := b, cs_mgrs := h\<rparr>) \<and>
    cache_shrink cs (cs\<lparr>cs_budget := b, cs_mgrs := h\<rparr>) \<and>
    (r \<longleftrightarrow> b_limit (cs_budget cs) \<le> 0 \<or> n \<le> b_limit (cs_budget cs)) \<and>
    (b_limit (cs_budget cs) \<le> 0 \<or> b_limit (cs_budget cs) < n \<longrightarrow> h = cs_mgrs cs)"
proof -
  let ?b = "cs_budget cs" and ?h = "cs_mgrs cs"
  have acc: "accounted (\<lambda>m. mgr_held m) (\<lambda>m. mgr_ok m) 0 ?b ?h" using ok by (simp add: cs_ok_def)
  obtain r b h where res: "Reserve EvictOldest n ?b ?h = Some (r, b, h)"
    and post: "mgr.reserve_post 0 n ?b ?h r b h"
    and same: "b_limit ?b \<le> 0 \<or> b_used ?b + n \<le> b_limit ?b \<or> b_limit ?b < n \<longrightarrow> h = ?h"
    using mgr.Reserve_returns [OF acc, of n] n by (auto simp: max_def)
  let ?cs = "cs\<lparr>cs_budget := b, cs_mgrs := h\<rparr>"
  have shr: "shrunk (?h j) (h j)" for j
    using post shrunk_evicted ok by (auto simp: mgr.reserve_post_def cs_ok_def)
  have p: "accounted (\<lambda>m. mgr_held m) (\<lambda>m. mgr_ok m) (if r then n else 0) b h" "b_limit b = b_limit ?b"
    "b_evictors b = b_evictors ?b" "r \<longleftrightarrow> b_limit ?b \<le> 0 \<or> n \<le> b_limit ?b"
    "r \<Longrightarrow> 0 < b_limit ?b \<Longrightarrow> b_used b \<le> b_limit ?b"
    using post by (auto simp: mgr.reserve_post_def)
  have "b_used b \<le> b_limit b" if "\<not> r"
  proof -
    have "b_limit ?b < n" "0 < b_limit ?b" using p(4) that by auto
    then have "b = ?b" using res n that by (auto simp: Reserve_def Let_def split: if_splits)
    with ok \<open>0 < b_limit ?b\<close> show ?thesis by (simp add: cs_ok_def)
  qed
  then have "cs_ok (if r then n else 0) ?cs"
    using ok p shr by (auto simp: cs_ok_def shrunk_def)
  moreover have "cache_shrink cs ?cs" using shr p by (simp add: cache_shrink_def)
  ultimately show ?thesis using res p(4) same by auto
qed

text \<open>When an object is kept: it is within the per-object cap and within the whole budget.\<close>

definition cacheable :: "nat \<Rightarrow> Object \<Rightarrow> cache_state \<Rightarrow> bool" where
  "cacheable i obj cs \<longleftrightarrow>
     \<not> (m_maxObjectSize (cs_mgrs cs i) > 0 \<and> objectSize (Some obj) > m_maxObjectSize (cs_mgrs cs i)) \<and>
     (m_budget (cs_mgrs cs i) \<longrightarrow> b_limit (cs_budget cs) \<le> 0 \<or> objectSize (Some obj) \<le> b_limit (cs_budget cs))"

lemma objectSize_nonneg [simp]: "0 \<le> objectSize obj"
  by (simp add: objectSize_def split: option.split)

lemma cs_ok_counters:
  assumes "cs_ok pend cs" and "m_shards m = m_shards (cs_mgrs cs i)" and "m_budget m = m_budget (cs_mgrs cs i)"
  shows "cs_ok pend (cs\<lparr>cs_mgrs := (cs_mgrs cs)(i := m)\<rparr>)"
proof -
  have "held_sum (\<lambda>m. mgr_held m) ((cs_mgrs cs)(i := m)) evs = held_sum (\<lambda>m. mgr_held m) (cs_mgrs cs) evs" for evs
    unfolding held_sum_def using assms(2) by (intro arg_cong [where f = sum_list]) auto
  with assms show ?thesis by (auto simp: cs_ok_def accounted_def)
qed

lemma admit_laws:
  assumes ok: "cs_ok 0 cs" and lv: "live i cs"
  shows "\<exists>cs'. admit i now key obj cs = Some cs' \<and> cs_ok 0 cs' \<and> cache_step i key (Some obj) cs cs' \<and>
    cached_obj cs' i key = (if cacheable i obj cs then Some obj else None) \<and>
    (\<not> cacheable i obj cs \<longrightarrow> (\<forall>j k. (j, k) \<noteq> (i, key) \<longrightarrow> cached_obj cs' j k = cached_obj cs j k))"
proof -
  let ?m = "cs_mgrs cs i" and ?sz = "objectSize (Some obj)"
  have weaken: "cache_step i key (Some obj) a b" if "cache_step i key None a b" for a b
    using that unfolding cache_step_def by (metis option.distinct(1))
  have inval: "\<exists>cs'. Some (Invalidate i key cs1) = Some cs' \<and> cs_ok 0 cs' \<and> cache_step i key (Some obj) cs cs' \<and>
      cached_obj cs' i key = None \<and> (\<forall>j k. (j, k) \<noteq> (i, key) \<longrightarrow> cached_obj cs' j k = cached_obj cs j k)"
    if cs1: "cs_ok 0 cs1" "live i cs1" "cache_step i key (Some obj) cs cs1 \<or> cache_shrink cs cs1"
      "cached_obj cs1 = cached_obj cs" for cs1
  proof -
    note I = Invalidate_laws [OF cs1(1,2), where key = key]
    have "cache_step i key None cs (Invalidate i key cs1)"
      using I(2) cs1(3) cache_shrink_step cache_step_trans by blast
    moreover have "cached_obj (Invalidate i key cs1) j k = cached_obj cs1 j k" if "(j, k) \<noteq> (i, key)" for j k
      using I(3) I(4) [of j] that by (cases "j = i") (auto simp: cached_obj_def)
    ultimately show ?thesis using I cs1(4) weaken by (auto simp: cached_obj_def)
  qed
  consider (large) "m_maxObjectSize ?m > 0 \<and> ?sz > m_maxObjectSize ?m"
    | (plain) "\<not> (m_maxObjectSize ?m > 0 \<and> ?sz > m_maxObjectSize ?m)" "\<not> m_budget ?m"
    | (budget) "\<not> (m_maxObjectSize ?m > 0 \<and> ?sz > m_maxObjectSize ?m)" "m_budget ?m"
    by blast
  then show ?thesis
  proof cases
    case large
    let ?cs1 = "cs\<lparr>cs_mgrs := (cs_mgrs cs)(i := ?m\<lparr>m_skippedLarge := m_skippedLarge ?m + 1\<rparr>)\<rparr>"
    have same: "cached_obj ?cs1 = cached_obj cs" by (auto simp: cached_obj_def fun_eq_iff)
    have "cs_ok 0 ?cs1" "live i ?cs1" using cs_ok_counters [OF ok] lv by (simp_all add: live_def)
    moreover have "cache_shrink cs ?cs1"
      using ok by (auto simp: cache_shrink_def shrunk_def cs_ok_def)
    ultimately show ?thesis using inval [of ?cs1] same large by (simp add: admit_def Let_def cacheable_def)
  next
    case plain
    note S = admit_store_laws [where cs = cs and i = i and pend = 0 and sz = ?sz and now = now and key = key and obj = obj]
    have "cached_obj (admit_store i now key obj ?sz cs) i key = Some obj"
      using S(3) ok lv plain by (simp add: cached_obj_def new_item_def)
    moreover have "admit i now key obj cs = Some (admit_store i now key obj ?sz cs)" "cacheable i obj cs"
      using plain by (auto simp: admit_def Let_def cacheable_def)
    ultimately show ?thesis using S ok lv plain by simp
  next
    case budget
    obtain r b h where R: "Reserve EvictOldest ?sz (cs_budget cs) (cs_mgrs cs) = Some (r, b, h)"
      "cs_ok (if r then ?sz else 0) (cs\<lparr>cs_budget := b, cs_mgrs := h\<rparr>)"
      "cache_shrink cs (cs\<lparr>cs_budget := b, cs_mgrs := h\<rparr>)"
      "r \<longleftrightarrow> b_limit (cs_budget cs) \<le> 0 \<or> ?sz \<le> b_limit (cs_budget cs)"
      "b_limit (cs_budget cs) \<le> 0 \<or> b_limit (cs_budget cs) < ?sz \<longrightarrow> h = cs_mgrs cs"
      using Reserve_laws [OF ok objectSize_nonneg, of "Some obj"] by blast
    let ?cs1 = "cs\<lparr>cs_budget := b, cs_mgrs := h\<rparr>"
    have lv1: "live i ?cs1" using lv cache_shrink_live [OF R(3)] by simp
    have cb: "m_budget (h i)" using R(3) budget by (simp add: cache_shrink_def shrunk_def)
    show ?thesis
    proof (cases r)
      case True
      note S = admit_store_laws [where cs = ?cs1 and i = i and pend = 0 and sz = ?sz and now = now and key = key and obj = obj]
      have "cs_ok 0 (admit_store i now key obj ?sz ?cs1)" "cache_step i key (Some obj) ?cs1 (admit_store i now key obj ?sz ?cs1)"
        "cached_obj (admit_store i now key obj ?sz ?cs1) i key = Some obj"
        using S R(2) True cb lv1 by (simp_all add: cached_obj_def new_item_def)
      moreover have "admit i now key obj cs = Some (admit_store i now key obj ?sz ?cs1)" "cacheable i obj cs"
        using R budget True by (auto simp: admit_def Let_def cacheable_def)
      ultimately show ?thesis using cache_shrink_step [OF R(3)] by simp
    next
      case False
      then have "h = cs_mgrs cs" using R(4,5) by auto
      then have "cached_obj ?cs1 = cached_obj cs" by (simp add: cached_obj_def fun_eq_iff)
      moreover have "admit i now key obj cs = Some (Invalidate i key ?cs1)" "\<not> cacheable i obj cs"
        using R budget False by (auto simp: admit_def Let_def cacheable_def)
      ultimately show ?thesis using inval [of ?cs1] R(2,3) False lv1 by simp
    qed
  qed
qed

lemma PurgeIf_laws:
  assumes ok: "cs_ok pend cs" and lv: "live i cs" and res: "PurgeIf i pred cs = (n, cs')"
  shows "cs_ok pend cs'" "cached (cs_mgrs cs' i) = (\<lambda>k. if pred k then None else cached (cs_mgrs cs i) k)"
    "\<And>j. j \<noteq> i \<Longrightarrow> cs_mgrs cs' j = cs_mgrs cs j" "\<And>j. live j cs' = live j cs"
    "m_ttl (cs_mgrs cs' i) = m_ttl (cs_mgrs cs i)" "m_budget (cs_mgrs cs' i) = m_budget (cs_mgrs cs i)"
    "m_maxObjectSize (cs_mgrs cs' i) = m_maxObjectSize (cs_mgrs cs i)"
    "b_evictors (cs_budget cs') = b_evictors (cs_budget cs)" "b_limit (cs_budget cs') = b_limit (cs_budget cs)"
proof -
  let ?m = "cs_mgrs cs i"
  obtain ss freed dropped where p: "purge_shards pred (m_shards ?m) 0 0 = (ss, freed, dropped)"
    by (metis prod_cases3)
  let ?m' = "?m\<lparr>m_shards := ss, m_purged := m_purged ?m + word_of_nat dropped\<rparr>"
  have cs': "cs' = put_mgr i ?m' freed cs"
    using res by (auto simp: PurgeIf_def Let_def p put_mgr_def)
  have mok: "mgr_ok ?m" using ok by (simp add: cs_ok_def)
  have l: "length ss = shardCount" "\<forall>s \<in> set ss. shard_ok s"
    "\<And>j. j < shardCount \<Longrightarrow> sh_cached (ss ! j) = (\<lambda>k. if pred k then None else sh_cached (m_shards ?m ! j) k)"
    "shards_held ss = mgr_held ?m - freed" "0 \<le> freed"
    using purge_shards_laws [OF _ p] mok by (auto simp: shards_ok_def)
  then have "mgr_ok ?m'" using mok by (simp add: shards_ok_def)
  then show "cs_ok pend cs'"
    unfolding cs' using ok lv l(4,5)
    by (intro put_mgr_ok [where add = 0 and pend = pend]) (auto simp: cs_ok_def accounted_def)
  show "cached (cs_mgrs cs' i) = (\<lambda>k. if pred k then None else cached ?m k)"
    using l(3) by (simp add: cs' shards_cached_def fun_eq_iff)
  show "\<And>j. j \<noteq> i \<Longrightarrow> cs_mgrs cs' j = cs_mgrs cs j" "\<And>j. live j cs' = live j cs"
    "m_ttl (cs_mgrs cs' i) = m_ttl (cs_mgrs cs i)" "m_budget (cs_mgrs cs' i) = m_budget (cs_mgrs cs i)"
    "m_maxObjectSize (cs_mgrs cs' i) = m_maxObjectSize (cs_mgrs cs i)"
    "b_evictors (cs_budget cs') = b_evictors (cs_budget cs)" "b_limit (cs_budget cs') = b_limit (cs_budget cs)"
    by (simp_all add: cs' live_def)
qed

text \<open>Whether the entry of a key is present and within its time to live.\<close>

definition fresh_entry :: "(nat \<Rightarrow> gotime) \<Rightarrow> Manager \<Rightarrow> string \<Rightarrow> bool" where
  "fresh_entry clk m key \<longleftrightarrow>
     (case cached m key of
        None \<Rightarrow> False
      | Some it \<Rightarrow> m_ttl m \<le> 0 \<or> clk 0 - it_LastAccessed it < m_ttl m)"

lemma Get_lookup_laws:
  assumes ok: "mgr_ok m" and res: "Get_lookup clk key m = (r, m')"
  shows "mgr_ok m'" "mgr_held m' = mgr_held m"
    "map_option it_Object (cached m' k) = map_option it_Object (cached m k)"
    "m_budget m' = m_budget m" "m_ttl m' = m_ttl m" "m_maxObjectSize m' = m_maxObjectSize m"
    "r = (if fresh_entry clk m key then map_option it_Object (cached m key) else None)"
proof -
  let ?s = "m_shards m ! shardFor key"
  obtain r0 s where l: "shard_lookup (m_ttl m) clk key ?s = (r0, s)"
    by (cases "shard_lookup (m_ttl m) clk key ?s")
  have m': "m_shards m' = (m_shards m)[shardFor key := s]" "r = r0"
    "m_budget m' = m_budget m" "m_ttl m' = m_ttl m" "m_maxObjectSize m' = m_maxObjectSize m"
    using res l by (auto simp: Get_lookup_def Let_def split: option.splits)
  note L = shard_lookup_laws [OF shards_ok_shardFor [OF ok] l]
  obtain v where v: "sh_cached s = (sh_cached ?s)(key := v)"
    "map_option it_Object v = map_option it_Object (sh_cached ?s key)"
    using L(3) by (cases "sh_cached ?s key") (force simp: fun_upd_idem split: if_splits)+
  note u = shards_update [OF ok L(1) v(1)]
  show "mgr_ok m'" "mgr_held m' = mgr_held m" using u L(2) by (simp_all add: m'(1))
  show "map_option it_Object (cached m' k) = map_option it_Object (cached m k)"
    using u(2) v(2) by (simp add: m'(1) shards_cached_def fun_eq_iff)
  show "r = (if fresh_entry clk m key then map_option it_Object (cached m key) else None)"
    using L(3) m'(2) by (auto simp: fresh_entry_def shards_cached_def split: option.splits if_splits)
qed (use res in \<open>auto simp: Get_lookup_def Let_def split: option.splits prod.splits\<close>)

lemma Get_lookup_state:
  assumes ok: "cs_ok pend cs" and res: "Get_lookup clk key (cs_mgrs cs i) = (r, m)"
  defines "cs1 \<equiv> cs\<lparr>cs_mgrs := (cs_mgrs cs)(i := m)\<rparr>"
  shows "cs_ok pend cs1" "cached_obj cs1 = cached_obj cs" "live j cs1 = live j cs"
    "cs_budget cs1 = cs_budget cs" "cacheable j obj cs1 = cacheable j obj cs"
proof -
  have mok: "mgr_ok (cs_mgrs cs i)" using ok by (simp add: cs_ok_def)
  note L = Get_lookup_laws [OF mok res]
  have "held_sum (\<lambda>m. mgr_held m) ((cs_mgrs cs)(i := m)) evs = held_sum (\<lambda>m. mgr_held m) (cs_mgrs cs) evs" for evs
    unfolding held_sum_def using L(2) by (intro arg_cong [where f = sum_list]) auto
  then show "cs_ok pend cs1" using ok L(1,4) by (auto simp: cs1_def cs_ok_def accounted_def)
  show "cached_obj cs1 = cached_obj cs" using L(3) by (auto simp: cs1_def cached_obj_def fun_eq_iff)
  show "live j cs1 = live j cs" "cacheable j obj cs1 = cacheable j obj cs"
    using L(4-6) by (auto simp: cs1_def live_def cacheable_def)
qed (simp add: cs1_def)

section \<open>Coherence with the driver\<close>

text \<open>Manager \<open>i\<close> is coherent with the stored documents when it only holds current ones.\<close>

definition coherent :: "nat \<Rightarrow> (string \<Rightarrow> doc option) \<Rightarrow> cache_state \<Rightarrow> bool" where
  "coherent i st cs \<longleftrightarrow> (\<forall>k obj. cached_obj cs i k = Some obj \<longrightarrow> st k = Some (doc_of obj))"

lemma coherent_step:
  assumes "coherent i st cs" and "cache_step i key v cs cs'"
    and "\<And>obj. v = Some obj \<Longrightarrow> st' key = Some (doc_of obj)" and "\<And>k. k \<noteq> key \<Longrightarrow> st' k = st k"
  shows "coherent i st' cs'"
  using assms unfolding coherent_def cache_step_def by (metis (full_types))

text \<open>An operation of another Manager can only take entries away from this one.\<close>

lemma coherent_other: "coherent i st cs \<Longrightarrow> cache_step j key v cs cs' \<Longrightarrow> i \<noteq> j \<Longrightarrow> coherent i st cs'"
  unfolding coherent_def cache_step_def by (metis (full_types))

context driver
begin

lemma Get_lead_coherent:
  assumes s: "drv_ok s" and cs: "cs_ok 0 cs" "live i cs" and coh: "coherent i (stored s) cs"
  shows "\<exists>r s' cs'. Get_lead d i clk key s cs = Some (r, s', cs') \<and> drv_ok s' \<and> stored s' = stored s \<and>
    cs_ok 0 cs' \<and> live i cs' \<and> coherent i (stored s') cs' \<and> r = fst (dGet d s key) \<and>
    (\<exists>v. cache_step i key v cs cs') \<and>
    (\<forall>obj. r = Inr (Some obj) \<longrightarrow> cached_obj cs' i key = (if cacheable i obj cs then Some obj else None))"
proof -
  obtain r s' where g: "dGet d s key = (r, s')" by (cases "dGet d s key")
  have f: "drv_ok s'" "stored s' = stored s" using get_frame [OF s g] by auto
  show ?thesis
  proof (cases r rule: go_result_cases)
    case failed
    note I = Invalidate_laws [OF cs, where key = key]
    have "coherent i (stored s') (Invalidate i key cs)"
      by (rule coherent_step [OF coh I(2)]) (auto simp: f)
    then show ?thesis using failed f I cs(2) cache_step_live [OF I(2)] by (auto simp: Get_lead_def g)
  next
    case nilobj
    have "cache_step i key (cached_obj cs i key) cs cs" by (auto simp: cache_step_def)
    then show ?thesis using nilobj f cs coh by (auto simp: Get_lead_def g)
  next
    case (found obj)
    obtain cs' where A: "admit i (clk 2) key obj cs = Some cs'" "cs_ok 0 cs'" "cache_step i key (Some obj) cs cs'"
      "cached_obj cs' i key = (if cacheable i obj cs then Some obj else None)"
      using admit_laws [OF cs, of "clk 2" key obj] by blast
    have "coherent i (stored s') cs'"
      by (rule coherent_step [OF coh A(3)]) (use get_result [OF s, of key obj s'] g found f in auto)
    then show ?thesis using found f A cs(2) cache_step_live [OF A(3)] by (auto simp: Get_lead_def g)
  qed
qed

text \<open>A read through a coherent cache returns the stored document, hit or miss.\<close>

lemma Manager_Get_coherent:
  assumes s: "drv_ok s" and cs: "cs_ok 0 cs" "live i cs" and coh: "coherent i (stored s) cs"
  shows "\<exists>r s' cs'. Manager_Get d i clk key s cs = Some (r, s', cs') \<and> drv_ok s' \<and> stored s' = stored s \<and>
    cs_ok 0 cs' \<and> live i cs' \<and> coherent i (stored s') cs' \<and> (\<exists>v. cache_step i key v cs cs') \<and>
    (\<forall>obj. r = Inr (Some obj) \<longrightarrow> stored s key = Some (doc_of obj)) \<and>
    (if fresh_entry clk (cs_mgrs cs i) key then r = Inr (cached_obj cs i key) \<and> s' = s \<and> cached_obj cs i key \<noteq> None
     else r = fst (dGet d s key))"
proof -
  obtain hit m where l: "Get_lookup clk key (cs_mgrs cs i) = (hit, m)"
    by (cases "Get_lookup clk key (cs_mgrs cs i)")
  let ?cs1 = "cs\<lparr>cs_mgrs := (cs_mgrs cs)(i := m)\<rparr>"
  have mok: "mgr_ok (cs_mgrs cs i)" using cs(1) by (simp add: cs_ok_def)
  note S = Get_lookup_state [OF cs(1) l] and L = Get_lookup_laws [OF mok l]
  have coh1: "coherent i (stored s) ?cs1" using coh S(2) by (simp add: coherent_def)
  have hit: "hit = (if fresh_entry clk (cs_mgrs cs i) key then cached_obj cs i key else None)"
    using L(7) by (simp add: cached_obj_def)
  have st1: "cache_step i key w cs cs'" if "cache_step i key w ?cs1 cs'" for w cs'
    using that L(4-6) unfolding cache_step_def S(2) by auto
  show ?thesis
  proof (cases hit)
    case (Some obj)
    then have fr: "fresh_entry clk (cs_mgrs cs i) key" "cached_obj cs i key = Some obj"
      using hit by (auto split: if_splits)
    have "cache_step i key (Some obj) cs ?cs1"
      by (rule st1) (use fr S(2) in \<open>auto simp: cache_step_def\<close>)
    with Some fr s cs coh coh1 S(1,3) show ?thesis
      by (auto simp: Manager_Get_def l coherent_def)
  next
    case None
    then have nf: "\<not> fresh_entry clk (cs_mgrs cs i) key"
      using L(7) by (auto simp: fresh_entry_def split: if_splits option.splits)
    obtain r s' cs' v where G: "Get_lead d i clk key s ?cs1 = Some (r, s', cs')" "drv_ok s'" "stored s' = stored s"
      "cs_ok 0 cs'" "live i cs'" "coherent i (stored s') cs'" "r = fst (dGet d s key)" "cache_step i key v ?cs1 cs'"
      using Get_lead_coherent [OF s S(1) _ coh1, of clk key] S(3) cs(2) by blast
    have "stored s key = Some (doc_of obj)" if "r = Inr (Some obj)" for obj
      using get_result [OF s, of key obj "snd (dGet d s key)"] that G(7) by (metis prod.collapse)
    with None nf G st1 [OF G(8)] show ?thesis by (auto simp: Manager_Get_def l)
  qed
qed

lemma Manager_Put_coherent:
  assumes s: "drv_ok s" and cs: "cs_ok 0 cs" "live i cs" and coh: "coherent i (stored s) cs"
  shows "\<exists>s' cs'. Manager_Put d i clk key w e s cs = Some (fst (dPut d s key w e), s', cs') \<and>
    s' = snd (dPut d s key w e) \<and> drv_ok s' \<and> cs_ok 0 cs' \<and> live i cs' \<and>
    (\<exists>v. cache_step i key v cs cs') \<and>
    coherent i (stored s') cs' \<and>
    (\<forall>obj. fst (dPut d s key w e) = Inr (Some obj) \<longrightarrow>
       cached_obj cs' i key = (if cacheable i obj cs then Some obj else None))"
proof -
  obtain r s' where p: "dPut d s key w e = (r, s')" by (cases "dPut d s key w e")
  have ok': "drv_ok s'" and fr: "\<And>k. k \<noteq> key \<Longrightarrow> stored s' k = stored s k"
    using put_ok [OF s p] put_frame [OF s p] by auto
  show ?thesis
  proof (cases r rule: go_result_cases)
    case failed
    note I = Invalidate_laws [OF cs, where key = key]
    have "coherent i (stored s') (Invalidate i key cs)"
      by (rule coherent_step [OF coh I(2)]) (auto simp: fr)
    then show ?thesis using failed ok' I cs(2) cache_step_live [OF I(2)] by (auto simp: Manager_Put_def p)
  next
    case nilobj
    then show ?thesis using put_some [OF s, of key w e s'] p by simp
  next
    case (found obj)
    obtain cs' where A: "admit i (clk 0) key obj cs = Some cs'" "cs_ok 0 cs'" "cache_step i key (Some obj) cs cs'"
      "cached_obj cs' i key = (if cacheable i obj cs then Some obj else None)"
      using admit_laws [OF cs, of "clk 0" key obj] by blast
    have "coherent i (stored s') cs'"
      by (rule coherent_step [OF coh A(3)]) (use put_result [OF s, of key w e obj s'] p found fr in auto)
    then show ?thesis using found ok' A cs(2) cache_step_live [OF A(3)] by (auto simp: Manager_Put_def p)
  qed
qed

lemma Manager_Delete_coherent:
  assumes s: "drv_ok s" and cs: "cs_ok 0 cs" "live i cs" and coh: "coherent i (stored s) cs"
    and res: "Manager_Delete d i key e s cs = (err, s', cs')"
  shows "(err, s') = dDelete d s key e" "drv_ok s'" "cs_ok 0 cs'" "live i cs'" "coherent i (stored s') cs'"
    "cached_obj cs' i key = None" "cache_step i key None cs cs'"
proof -
  have D: "dDelete d s key e = (err, s')" "cs' = Invalidate i key cs"
    using res by (auto simp: Manager_Delete_def Let_def split: prod.splits)
  note I = Invalidate_laws [OF cs, where key = key]
  show "coherent i (stored s') cs'" unfolding D(2)
    by (rule coherent_step [OF coh I(2)]) (use delete_frame [OF s D(1)] in auto)
  show "(err, s') = dDelete d s key e" "drv_ok s'" "cs_ok 0 cs'" "live i cs'"
    "cached_obj cs' i key = None" "cache_step i key None cs cs'"
    using D I delete_ok [OF s D(1)] cs(2) cache_step_live [OF I(2)] by (auto simp: cached_obj_def)
qed

end

end
