(* ===== verification/CacheRecency.thy ===== *)
theory CacheRecency
  imports CacheProps
begin

text \<open>
  Recency: every shard's list is ordered by last access, newest in front, so that the back of
  each shard is its oldest entry and \<open>EvictOldest\<close>, which only looks at the backs, removes the
  least recently used entry of the whole Manager. The order is kept by every operation as long
  as the clock does not run backwards.
\<close>

section \<open>The order of a shard\<close>

definition accesses :: "Item golist \<Rightarrow> gotime list" where
  "accesses l = map (\<lambda>(el, it). it_LastAccessed it) (gl_elems l)"

text \<open>Newest first, all after the zero time and none after \<open>T\<close>.\<close>

definition recent :: "gotime \<Rightarrow> Item golist \<Rightarrow> bool" where
  "recent T l \<longleftrightarrow> sorted_wrt (\<ge>) (accesses l) \<and> (\<forall>t \<in> set (accesses l). zeroTime < t \<and> t \<le> T)"

lemma recent_New: "recent T gl_New"
  by (simp add: recent_def accesses_def gl_New_def)

lemma recent_later: "recent T l \<Longrightarrow> T \<le> T' \<Longrightarrow> recent T' l"
  by (fastforce simp: recent_def)

lemma accesses_delete:
  "set (map (\<lambda>(el, it). it_LastAccessed it) (AList.delete e xs)) \<subseteq> set (map (\<lambda>(el, it). it_LastAccessed it) xs)"
  by (auto simp: AList.delete_eq)

lemma recent_Remove: "recent T l \<Longrightarrow> recent T (gl_Remove el l)"
proof -
  assume r: "recent T l"
  have "sorted_wrt (\<ge>) (map (\<lambda>(el, it). it_LastAccessed it) (filter P xs))"
    if "sorted_wrt (\<ge>) (map (\<lambda>(el, it). it_LastAccessed it) xs)" for P and xs :: "(nat \<times> Item) list"
    using that by (simp add: sorted_wrt_map sorted_wrt_filter)
  with r show ?thesis
    by (auto simp: recent_def accesses_def gl_Remove_def AList.delete_eq)
qed

lemma recent_Cons:
  "recent T l \<Longrightarrow> T \<le> it_LastAccessed it \<Longrightarrow> zeroTime < it_LastAccessed it \<Longrightarrow>
   recent (it_LastAccessed it) (l\<lparr>gl_elems := (el, it) # gl_elems l, gl_next := n\<rparr>)"
  by (fastforce simp: recent_def accesses_def)

lemma Mutate_delete: "AList.delete el (map (\<lambda>(i, v). (i, if i = el then f v else v)) xs) = AList.delete el xs"
  by (induction xs) (auto simp: AList.delete_eq)

lemma recent_touch:
  assumes "recent T l" and "gl_Value el l = Some it" and "it_LastAccessed (f it) = now" and "T \<le> now" "zeroTime < now"
  shows "recent now (gl_MoveToFront el (gl_Mutate el f l))"
proof -
  have "gl_MoveToFront el (gl_Mutate el f l) =
    (gl_Remove el l)\<lparr>gl_elems := (el, f it) # gl_elems (gl_Remove el l), gl_next := gl_next (gl_Remove el l)\<rparr>"
    using assms(2) by (simp add: gl_MoveToFront_def gl_Remove_def)
      (simp add: gl_Mutate_def Mutate_delete)
  with recent_Cons [OF recent_Remove [OF assms(1)], of "f it"] assms(3-5) show ?thesis by simp
qed

lemma recent_Back:
  assumes "recent T l" and "gl_Back l = Some (el, it)" and "x \<in># gl_values l"
  shows "it_LastAccessed it \<le> it_LastAccessed x" "zeroTime < it_LastAccessed it"
proof -
  obtain xs where xs: "gl_elems l = xs @ [(el, it)]"
    using assms(2) by (metis gl_Back_def append_butlast_last_id option.distinct(1) option.inject)
  with assms show "it_LastAccessed it \<le> it_LastAccessed x" "zeroTime < it_LastAccessed it"
    by (auto simp: recent_def accesses_def gl_values_def sorted_wrt_append)
qed

section \<open>The order of a Manager\<close>

abbreviation recent_shard :: "gotime \<Rightarrow> cacheShard \<Rightarrow> bool" where
  "recent_shard T s \<equiv> recent T (sh_lru s)"

definition mgr_recent :: "gotime \<Rightarrow> Manager \<Rightarrow> bool" where
  "mgr_recent T m \<longleftrightarrow> (\<forall>s \<in> set (m_shards m). recent_shard T s)"

definition cs_recent :: "gotime \<Rightarrow> cache_state \<Rightarrow> bool" where
  "cs_recent T cs \<longleftrightarrow> (\<forall>i. mgr_recent T (cs_mgrs cs i))"

lemma mgr_recent_update:
  "mgr_recent T m \<Longrightarrow> T \<le> T' \<Longrightarrow> recent_shard T' s \<Longrightarrow> m_shards m' = (m_shards m)[j := s] \<Longrightarrow> mgr_recent T' m'"
  unfolding mgr_recent_def using set_update_subset_insert [of "m_shards m" j s]
  by (auto dest: recent_later)

lemma mgr_recent_later: "mgr_recent T m \<Longrightarrow> T \<le> T' \<Longrightarrow> mgr_recent T' m"
  by (auto simp: mgr_recent_def dest: recent_later)

lemma cs_recent_later: "cs_recent T cs \<Longrightarrow> T \<le> T' \<Longrightarrow> cs_recent T' cs"
  by (auto simp: cs_recent_def dest: mgr_recent_later)

lemma mgr_recent_nth: "mgr_recent T m \<Longrightarrow> mgr_ok m \<Longrightarrow> j < shardCount \<Longrightarrow> recent_shard T (m_shards m ! j)"
  by (simp add: mgr_recent_def shards_ok_def)

lemma cs_recent_put_mgr: "cs_recent T cs \<Longrightarrow> mgr_recent T m \<Longrightarrow> cs_recent T (put_mgr i m freed cs)"
  by (simp add: cs_recent_def)

lemma removeElemLocked_recent: "recent_shard T s \<Longrightarrow> removeElemLocked el s = (freed, s') \<Longrightarrow> recent_shard T s'"
  by (auto simp: removeElemLocked_def Let_def recent_Remove split: option.splits)

lemma dropLocked_recent: "recent_shard T s \<Longrightarrow> dropLocked key s = (freed, s') \<Longrightarrow> recent_shard T s'"
  by (auto simp: dropLocked_def dest: removeElemLocked_recent split: option.splits)

lemma shard_lookup_recent:
  "recent_shard T s \<Longrightarrow> T \<le> clk 1 \<Longrightarrow> zeroTime < clk 1 \<Longrightarrow> shard_lookup ttl clk key s = (r, s') \<Longrightarrow>
   recent_shard (clk 1) s'"
  by (auto simp: shard_lookup_def recent_touch recent_later split: option.splits if_splits)

lemma shard_admit_recent:
  assumes "shard_ok s" and "recent_shard T s" and "T \<le> now" "zeroTime < now" and "shard_admit now key obj sz s = (replaced, s')"
  shows "recent_shard now s'"
proof (cases "map_of (sh_items s) key")
  case None
  have "recent now ((sh_lru s)\<lparr>gl_elems := (el, new_item now key obj sz) # gl_elems (sh_lru s), gl_next := n\<rparr>)" for el n
    using recent_Cons [OF assms(2), of "new_item now key obj sz"] assms(3,4) by (simp add: new_item_def)
  with None assms(5) show ?thesis
    by (auto simp: shard_admit_def Let_def gl_PushFront_def new_item_def)
next
  case (Some el)
  then obtain it where "gl_Value el (sh_lru s) = Some it" using shard_okD(5) [OF assms(1)] by blast
  from recent_touch [OF assms(2) this _ assms(3,4)] Some assms(5) show ?thesis
    by (auto simp: shard_admit_def Let_def)
qed

lemma purge_elems_recent:
  "recent_shard T s \<Longrightarrow> purge_elems pred es s freed dropped = (s', f, n) \<Longrightarrow> recent_shard T s'"
  by (induction pred es s freed dropped rule: purge_elems.induct) (auto simp: recent_Remove split: if_splits)

lemma purge_shards_recent:
  "\<forall>s \<in> set ss. recent_shard T s \<Longrightarrow> purge_shards pred ss freed dropped = (ss', f, n) \<Longrightarrow>
   \<forall>s \<in> set ss'. recent_shard T s"
proof (induction pred ss freed dropped arbitrary: ss' f n rule: purge_shards.induct)
  case (2 pred s ss freed dropped)
  obtain s1 f1 n1 where p: "purge_elems pred (gl_elems (sh_lru s)) s freed dropped = (s1, f1, n1)" by (metis prod_cases3)
  obtain ss2 f2 n2 where q: "purge_shards pred ss f1 n1 = (ss2, f2, n2)" by (metis prod_cases3)
  have "recent_shard T s1" using purge_elems_recent [OF _ p] 2(2) by simp
  moreover have "\<forall>s \<in> set ss2. recent_shard T s" using 2(1) [OF _ _ _ _ q] 2(2) p
    by (simp add: purge_shard_def)
  ultimately show ?case using 2(3) p q by (auto simp: purge_shard_def Let_def)
qed simp

lemma evict_recent: "mgr_recent T m \<Longrightarrow> mgr_ok m \<Longrightarrow> mgr_recent T (snd (EvictOldest m))"
proof (cases "mgr_entries m = 0")
  case False
  assume r: "mgr_recent T m" and ok: "mgr_ok m"
  from ok False obtain i el it m' where ev: "EvictOldest m = ((it_size it, True), m')" "i < shardCount"
    "m' = m\<lparr>m_shards := (m_shards m)[i := drop_elem el it (m_shards m ! i)], m_evictions := m_evictions m + 1\<rparr>"
    by (rule evict_entry_law)
  have "recent_shard T (drop_elem el it (m_shards m ! i))"
    using mgr_recent_nth [OF r ok ev(2)] by (simp add: drop_elem_def recent_Remove)
  from mgr_recent_update [OF r order_refl this] ev show ?thesis by simp
qed (simp add: evict_empty_law)

lemma evicted_recent: "mgr.evicted m m' \<Longrightarrow> mgr_ok m \<Longrightarrow> mgr_recent T m \<Longrightarrow> mgr_recent T m'"
proof -
  assume "mgr.evicted m m'" and ok: "mgr_ok m" and r: "mgr_recent T m"
  then obtain n where m': "m' = ((\<lambda>m. snd (EvictOldest m)) ^^ n) m" by (auto simp: mgr.evicted_def)
  have "mgr_ok (((\<lambda>m. snd (EvictOldest m)) ^^ n) m) \<and> mgr_recent T (((\<lambda>m. snd (EvictOldest m)) ^^ n) m)"
    by (induction n) (use ok r shrunk_evict evict_recent in \<open>auto simp: shrunk_def\<close>)
  with m' show ?thesis by simp
qed

section \<open>The oldest entry\<close>

text \<open>Element \<open>el\<close> is the back of shard \<open>j\<close>, counting from \<open>i\<close>, last accessed at \<open>t\<close>.\<close>

fun back_at :: "nat \<Rightarrow> cacheShard list \<Rightarrow> nat \<Rightarrow> nat \<Rightarrow> gotime \<Rightarrow> bool" where
  "back_at i [] j el t = False"
| "back_at i (s # ss) j el t =
     (j = i \<and> map_option (\<lambda>(e, it). (e, it_LastAccessed it)) (gl_Back (sh_lru s)) = Some (el, t) \<or>
      back_at (i + 1) ss j el t)"

lemma scan_shards_oldest:
  assumes "\<forall>j el t. back_at i ss j el t \<longrightarrow> zeroTime < t"
    and "scan_shards i ss best oldest = Some (j, el)" and "(oldest = zeroTime) = (best = None)"
  shows "\<exists>t. (best = Some (j, el) \<and> t = oldest \<or> back_at i ss j el t) \<and> (best \<noteq> None \<longrightarrow> t \<le> oldest) \<and>
    (\<forall>j' el' t'. back_at i ss j' el' t' \<longrightarrow> t \<le> t')"
  using assms
proof (induction ss arbitrary: i best oldest)
  case (Cons s ss)
  have pos: "\<forall>j el t. back_at (i + 1) ss j el t \<longrightarrow> zeroTime < t" using Cons.prems(1) by (metis back_at.simps(2))
  show ?case
  proof (cases "gl_Back (sh_lru s)")
    case None
    with Cons.prems have "scan_shards (i + 1) ss best oldest = Some (j, el)" by simp
    from Cons.IH [OF pos this Cons.prems(3)] None show ?thesis by simp
  next
    case (Some b)
    obtain e it where b: "b = (e, it)" by (cases b)
    have z: "zeroTime < it_LastAccessed it" using Cons.prems(1) Some b by auto
    show ?thesis
    proof (cases "oldest = zeroTime \<or> it_LastAccessed it < oldest")
      case True
      with Cons.prems Some b have "scan_shards (i + 1) ss (Some (i, e)) (it_LastAccessed it) = Some (j, el)" by auto
      from Cons.IH [OF pos this] z obtain t where t: "i = j \<and> e = el \<and> t = it_LastAccessed it \<or> back_at (i + 1) ss j el t"
        "t \<le> it_LastAccessed it" "\<forall>j' el' t'. back_at (i + 1) ss j' el' t' \<longrightarrow> t \<le> t'" by auto
      then show ?thesis using Some b True Cons.prems(3) by (intro exI [of _ t]) auto
    next
      case False
      with Cons.prems Some b have "scan_shards (i + 1) ss best oldest = Some (j, el)" by auto
      from Cons.IH [OF pos this Cons.prems(3)] obtain t where t: "best = Some (j, el) \<and> t = oldest \<or> back_at (i + 1) ss j el t"
        "t \<le> oldest" "\<forall>j' el' t'. back_at (i + 1) ss j' el' t' \<longrightarrow> t \<le> t'"
        using False Cons.prems(3) by auto
      then show ?thesis using Some b False by (intro exI [of _ t]) auto
    qed
  qed
qed simp

lemma back_at_nth:
  "back_at i ss j el t \<longleftrightarrow>
   (\<exists>n it. n < length ss \<and> j = i + n \<and> gl_Back (sh_lru (ss ! n)) = Some (el, it) \<and> it_LastAccessed it = t)"
proof (induction ss arbitrary: i)
  case (Cons s ss)
  have "(\<exists>n it. n < length (s # ss) \<and> j = i + n \<and> gl_Back (sh_lru ((s # ss) ! n)) = Some (el, it) \<and> it_LastAccessed it = t)
    \<longleftrightarrow> (\<exists>it. j = i \<and> gl_Back (sh_lru s) = Some (el, it) \<and> it_LastAccessed it = t) \<or>
        (\<exists>n it. n < length ss \<and> j = i + 1 + n \<and> gl_Back (sh_lru (ss ! n)) = Some (el, it) \<and> it_LastAccessed it = t)"
    by (simp add: ex_simps(1,2) flip: ex_simps) (auto simp: less_Suc_eq_0_disj)
  with Cons show ?case by (auto simp: map_option_case split: option.splits)
qed simp

text \<open>The entry that \<open>EvictOldest\<close> removes is the least recently used of the whole Manager.\<close>

lemma EvictOldest_oldest:
  assumes ok: "mgr_ok m" and r: "mgr_recent T m" and ne: "mgr_entries m \<noteq> 0"
  shows "\<exists>k it m'. EvictOldest m = ((it_size it, True), m') \<and> cached m k = Some it \<and>
    cached m' = (cached m)(k := None) \<and> (\<forall>k' x. cached m k' = Some x \<longrightarrow> it_LastAccessed it \<le> it_LastAccessed x)"
proof -
  let ?ss = "m_shards m"
  have len: "length ?ss = shardCount" using ok by (simp add: shards_ok_def)
  from ok ne obtain i el it m' where ev: "scan_shards 0 ?ss None zeroTime = Some (i, el)" "i < shardCount"
    "gl_Back (sh_lru (?ss ! i)) = Some (el, it)" "cached m (it_key it) = Some it"
    "EvictOldest m = ((it_size it, True), m')" "cached m' = (cached m)(it_key it := None)"
    by (rule evict_entry_law)
  have pos: "zeroTime < t" if "back_at 0 ?ss j e t" for j e t
  proof -
    from that obtain x where x: "j < shardCount" "gl_Back (sh_lru (?ss ! j)) = Some (e, x)" "it_LastAccessed x = t"
      using len by (auto simp: back_at_nth)
    have "gl_Value e (sh_lru (?ss ! j)) = Some x"
      using gl_Back_Value [OF shard_okD(1) x(2)] shards_ok_nth [OF ok x(1)] by simp
    then have "x \<in># gl_values (sh_lru (?ss ! j))"
      using gl_Value_in_values [OF shard_okD(1)] shards_ok_nth [OF ok x(1)] by simp
    with recent_Back(2) [OF mgr_recent_nth [OF r ok x(1)] x(2)] x(3) show ?thesis by simp
  qed
  have "\<exists>t. back_at 0 ?ss i el t \<and> (\<forall>j e t'. back_at 0 ?ss j e t' \<longrightarrow> t \<le> t')"
    using scan_shards_oldest [OF _ ev(1)] pos by auto
  then obtain t where t: "back_at 0 ?ss i el t" "\<And>j e t'. back_at 0 ?ss j e t' \<Longrightarrow> t \<le> t'" by blast
  then have tl: "t = it_LastAccessed it" using ev(3) by (auto simp: back_at_nth)
  have "it_LastAccessed it \<le> it_LastAccessed x" if x: "cached m k' = Some x" for k' x
  proof -
    let ?l = "sh_lru (?ss ! shardFor k')"
    have sok: "shard_ok (?ss ! shardFor k')" using ok by simp
    from x sok obtain e where "gl_Value e ?l = Some x" by (auto simp: shards_cached_def elim: sh_cachedE)
    then have xin: "x \<in># gl_values ?l" using sok by (auto intro: gl_Value_in_values dest: shard_okD(1))
    then have "gl_elems ?l \<noteq> []" by (auto simp: gl_values_def)
    then obtain e' y where b: "gl_Back ?l = Some (e', y)" by (metis gl_Back_def surj_pair)
    then have "back_at 0 ?ss (shardFor k') e' (it_LastAccessed y)" using len by (auto simp: back_at_nth)
    from t(2) [OF this] recent_Back(1) [OF mgr_recent_nth [OF r ok] b xin] tl show ?thesis by simp
  qed
  with ev show ?thesis by blast
qed

end
