(* ===== verification/CacheRuns.thy ===== *)
theory CacheRuns
  imports CacheRecency MemoryDriver
begin

text \<open>
  Runs of the cache: the states that any sequence of Manager operations reaches from a fresh
  Budget, several Managers taking turns, each over a driver of its own. In every reachable state
  the byte accounting is exact, each operation returns, the lists are in order of recency, and,
  when the drivers keep the storage contract, every Manager only holds current documents.
\<close>

section \<open>Operations and reachable states\<close>

datatype cache_op =
    OpNew nat CacheConfig
  | OpSetTTL nat duration
  | OpGet nat string
  | OpPut nat string bytes string
  | OpDelete nat string string
  | OpInvalidate nat string
  | OpPurgeIf nat "string \<Rightarrow> bool"
  | OpClose nat

text \<open>The drivers of the Managers are separate states of the same driver code.\<close>

fun run_op :: "'s Driver \<Rightarrow> (nat \<Rightarrow> gotime) \<Rightarrow> cache_op \<Rightarrow> (nat \<Rightarrow> 's) \<Rightarrow> cache_state \<Rightarrow>
    ((nat \<Rightarrow> 's) \<times> cache_state) option" where
  "run_op d clk (OpNew i cfg) w cs = Some (w, NewManagerWithConfig i cfg cs)"
| "run_op d clk (OpSetTTL i dur) w cs =
     Some (w, cs\<lparr>cs_mgrs := (cs_mgrs cs)(i := SetTTL dur (cs_mgrs cs i))\<rparr>)"
| "run_op d clk (OpGet i key) w cs =
     map_option (\<lambda>(r, s, cs'). (w(i := s), cs')) (Manager_Get d i clk key (w i) cs)"
| "run_op d clk (OpPut i key v e) w cs =
     map_option (\<lambda>(r, s, cs'). (w(i := s), cs')) (Manager_Put d i clk key v e (w i) cs)"
| "run_op d clk (OpDelete i key e) w cs =
     (let (err, s, cs') = Manager_Delete d i key e (w i) cs in Some (w(i := s), cs'))"
| "run_op d clk (OpInvalidate i key) w cs = Some (w, Invalidate i key cs)"
| "run_op d clk (OpPurgeIf i pred) w cs = Some (w, snd (PurgeIf i pred cs))"
| "run_op d clk (OpClose i) w cs = map_option (\<lambda>cs'. (w, cs')) (Manager_Close i cs)"

text \<open>A Manager is created at an address that is not registered, and not used once it is closed.\<close>

fun allowed :: "cache_op \<Rightarrow> cache_state \<Rightarrow> bool" where
  "allowed (OpNew i cfg) cs = (i \<notin> set (b_evictors (cs_budget cs)))"
| "allowed (OpSetTTL i dur) cs = live i cs"
| "allowed (OpGet i key) cs = live i cs"
| "allowed (OpPut i key v e) cs = live i cs"
| "allowed (OpDelete i key e) cs = live i cs"
| "allowed (OpInvalidate i key) cs = live i cs"
| "allowed (OpPurgeIf i pred) cs = live i cs"
| "allowed (OpClose i) cs = live i cs"

definition init_cache :: "int \<Rightarrow> cache_state" where
  "init_cache limit =
     \<lparr>cs_budget = NewBudget limit,
      cs_mgrs = (\<lambda>_. cs_mgrs (NewManagerWithConfig 0 \<lparr>cfg_TTL = 0, cfg_MaxObjectSize = 0, cfg_Budget = False\<rparr>
        \<lparr>cs_budget = NewBudget limit, cs_mgrs = (\<lambda>_. undefined)\<rparr>) 0)\<rparr>"

inductive reach :: "'s Driver \<Rightarrow> int \<Rightarrow> (nat \<Rightarrow> 's) \<Rightarrow> gotime \<Rightarrow> (nat \<Rightarrow> 's) \<Rightarrow> cache_state \<Rightarrow> bool"
  for d :: "'s Driver" and limit :: int and w0 :: "nat \<Rightarrow> 's" where
  start: "reach d limit w0 zeroTime w0 (init_cache limit)"
| step: "reach d limit w0 now w cs \<Longrightarrow> zeroTime < clk 0 \<Longrightarrow> now \<le> clk 0 \<Longrightarrow> clk 0 \<le> clk 1 \<Longrightarrow> clk 1 \<le> clk 2 \<Longrightarrow>
    allowed op cs \<Longrightarrow> run_op d clk op w cs = Some (w', cs') \<Longrightarrow> reach d limit w0 (clk 2) w' cs'"

section \<open>Accounting\<close>

lemma init_cache_simps [simp]:
  "cs_budget (init_cache limit) = NewBudget limit"
  "m_shards (cs_mgrs (init_cache limit) i) = replicate shardCount emptyShard"
  "m_budget (cs_mgrs (init_cache limit) i) = False"
  by (simp_all add: init_cache_def NewManagerWithConfig_def Let_def)

lemma init_ok: "cs_ok 0 (init_cache limit)"
  using shards_empty by (simp add: cs_ok_def accounted_def NewBudget_def held_sum_def)

lemma New_ok:
  assumes ok: "cs_ok 0 cs" and i: "i \<notin> set (b_evictors (cs_budget cs))"
  shows "cs_ok 0 (NewManagerWithConfig i cfg cs)"
    "cached_obj (NewManagerWithConfig i cfg cs) i = Map.empty"
    "j \<noteq> i \<Longrightarrow> cs_mgrs (NewManagerWithConfig i cfg cs) j = cs_mgrs cs j"
    "b_limit (cs_budget (NewManagerWithConfig i cfg cs)) = b_limit (cs_budget cs)"
proof -
  let ?cs = "NewManagerWithConfig i cfg cs"
  have m: "m_shards (cs_mgrs ?cs i) = replicate shardCount emptyShard" "m_budget (cs_mgrs ?cs i) = cfg_Budget cfg"
    "\<And>j. j \<noteq> i \<Longrightarrow> cs_mgrs ?cs j = cs_mgrs cs j"
    "cs_budget ?cs = (if cfg_Budget cfg then Register i (cs_budget cs) else cs_budget cs)"
    by (simp_all add: NewManagerWithConfig_def Let_def)
  have "held_sum (\<lambda>m. mgr_held m) (cs_mgrs ?cs) (b_evictors (cs_budget cs)) =
      held_sum (\<lambda>m. mgr_held m) (cs_mgrs cs) (b_evictors (cs_budget cs))"
    unfolding held_sum_def by (intro arg_cong [where f = sum_list] map_cong [OF refl]) (metis i m(3))
  moreover have "mgr_ok (cs_mgrs ?cs j)" for j
    using ok m(1,3) shards_empty(1) by (cases "j = i") (auto simp: cs_ok_def)
  moreover have "m_budget (cs_mgrs ?cs j)" if "j \<in> set (b_evictors (cs_budget ?cs))" for j
    using that ok m(2-4) i by (cases "j = i") (auto simp: cs_ok_def Register_def split: if_splits)
  moreover have "held_sum (\<lambda>m. mgr_held m) (cs_mgrs ?cs) [i] = 0"
    using m(1) shards_empty(3) by (simp add: held_sum_def)
  ultimately show "cs_ok 0 ?cs"
    using ok i m(4) by (auto simp: cs_ok_def accounted_def Register_def)
  show "cached_obj ?cs i = Map.empty" using m(1) shards_empty(2) by (simp add: cached_obj_def fun_eq_iff)
  show "j \<noteq> i \<Longrightarrow> cs_mgrs ?cs j = cs_mgrs cs j" by (rule m(3))
  show "b_limit (cs_budget ?cs) = b_limit (cs_budget cs)" using m(4) by (simp add: Register_def)
qed

lemma cache_step_limit: "cache_step i key v cs cs' \<Longrightarrow> b_limit (cs_budget cs') = b_limit (cs_budget cs)"
  by (simp add: cache_step_def)

lemma Get_lead_returns:
  assumes "cs_ok 0 cs" and "live i cs"
  shows "\<exists>r s' cs' v. Get_lead d i clk key s cs = Some (r, s', cs') \<and> cs_ok 0 cs' \<and> cache_step i key v cs cs'"
proof -
  obtain r s' where g: "dGet d s key = (r, s')" by (cases "dGet d s key")
  show ?thesis
  proof (cases r rule: go_result_cases)
    case failed
    then show ?thesis using Invalidate_laws [OF assms, where key = key] by (auto simp: Get_lead_def g)
  next
    case nilobj
    have "cache_step i key (cached_obj cs i key) cs cs" by (auto simp: cache_step_def)
    then show ?thesis using nilobj assms by (auto simp: Get_lead_def g)
  next
    case (found obj)
    then show ?thesis using admit_laws [OF assms, of "clk 2" key obj] by (auto simp: Get_lead_def g)
  qed
qed

lemma Manager_Get_returns:
  assumes "cs_ok 0 cs" and "live i cs"
  shows "\<exists>r s' cs' v. Manager_Get d i clk key s cs = Some (r, s', cs') \<and> cs_ok 0 cs' \<and>
    b_limit (cs_budget cs') = b_limit (cs_budget cs)"
proof -
  obtain hit m where l: "Get_lookup clk key (cs_mgrs cs i) = (hit, m)" by fastforce
  note S = Get_lookup_state [OF assms(1) l]
  show ?thesis
  proof (cases hit)
    case None
    with Get_lead_returns [OF S(1), of i d clk key s] S(3) assms(2) S(4) show ?thesis
      by (fastforce simp: Manager_Get_def l dest: cache_step_limit)
  qed (use S in \<open>simp add: Manager_Get_def l\<close>)
qed

lemma Manager_Put_returns:
  assumes "cs_ok 0 cs" and "live i cs"
  shows "\<exists>r s' cs'. Manager_Put d i clk key w e s cs = Some (r, s', cs') \<and> cs_ok 0 cs' \<and>
    b_limit (cs_budget cs') = b_limit (cs_budget cs)"
proof -
  obtain r s' where p: "dPut d s key w e = (r, s')" by fastforce
  show ?thesis
  proof (cases r rule: go_result_cases)
    case failed
    then show ?thesis using Invalidate_laws [OF assms, where key = key] cache_step_limit
      by (auto simp: Manager_Put_def p)
  next
    case (found obj)
    obtain cs' where "admit i (clk 0) key obj cs = Some cs'" "cs_ok 0 cs'" "cache_step i key (Some obj) cs cs'"
      using admit_laws [OF assms, of "clk 0" key obj] by blast
    with found cache_step_limit show ?thesis by (auto simp: Manager_Put_def p)
  qed (use assms in \<open>simp add: Manager_Put_def p\<close>)
qed

lemma Close_laws:
  assumes ok: "cs_ok 0 cs" and lv: "live i cs"
  shows "\<exists>cs'. Manager_Close i cs = Some cs' \<and> cs_ok 0 cs' \<and>
    b_limit (cs_budget cs') = b_limit (cs_budget cs) \<and>
    (\<forall>j. j \<noteq> i \<longrightarrow> cs_mgrs cs' j = cs_mgrs cs j) \<and> mgr.evicted (cs_mgrs cs i) (cs_mgrs cs' i) \<and>
    (if m_budget (cs_mgrs cs i)
     then cached (cs_mgrs cs' i) = Map.empty \<and> b_used (cs_budget cs') = b_used (cs_budget cs) - mgr_held (cs_mgrs cs i) \<and>
       b_evictors (cs_budget cs') = remove1 i (b_evictors (cs_budget cs))
     else cs' = cs)"
proof (cases "m_budget (cs_mgrs cs i)")
  case True
  with lv have reg: "i \<in> set (b_evictors (cs_budget cs))" by (simp add: live_def)
  have acc: "accounted (\<lambda>m. mgr_held m) (\<lambda>m. mgr_ok m) 0 (cs_budget cs) (cs_mgrs cs)" using ok by (simp add: cs_ok_def)
  obtain b m where U: "Unregister EvictOldest i (cs_budget cs) (cs_mgrs cs) = Some (b, (cs_mgrs cs)(i := m))"
    "accounted (\<lambda>m. mgr_held m) (\<lambda>m. mgr_ok m) 0 b ((cs_mgrs cs)(i := m))"
    "b_used b = b_used (cs_budget cs) - mgr_held (cs_mgrs cs i)" "b_limit b = b_limit (cs_budget cs)"
    "b_evictors b = remove1 i (b_evictors (cs_budget cs))" "mgr_ok m" "mgr_entries m = 0" "mgr.evicted (cs_mgrs cs i) m"
    using mgr.Unregister_returns [OF acc reg] by blast
  have e: "cached m k = None" for k
  proof (rule ccontr)
    assume "cached m k \<noteq> None"
    then obtain it where "sh_cached (m_shards m ! shardFor k) k = Some it" by (auto simp: shards_cached_def)
    from sh_cachedE [OF shards_ok_shardFor [OF U(6)] this] obtain el where
      "gl_Value el (sh_lru (m_shards m ! shardFor k)) = Some it" .
    moreover have "gl_elems (sh_lru (m_shards m ! shardFor k)) = []"
      using U(6,7) by (simp add: shards_entries_def shards_ok_def gl_Len_def)
    ultimately show False by (simp add: gl_Value_def)
  qed
  have h: "0 \<le> mgr_held (cs_mgrs cs i)" using ok by (auto simp: cs_ok_def intro: shards_held_nonneg)
  have nd: "set (remove1 i (b_evictors (cs_budget cs))) = set (b_evictors (cs_budget cs)) - {i}"
    using acc by (simp add: accounted_def)
  have "cs_ok 0 (cs\<lparr>cs_budget := b, cs_mgrs := (cs_mgrs cs)(i := m)\<rparr>)"
    using ok U h nd by (auto simp: cs_ok_def)
  then show ?thesis using True U e by (auto simp: Manager_Close_def fun_eq_iff)
qed (use ok in \<open>simp add: Manager_Close_def\<close>)

lemma run_op_ok:
  assumes ok: "cs_ok 0 cs" and al: "allowed op cs"
  shows "\<exists>w' cs'. run_op d clk op w cs = Some (w', cs') \<and> cs_ok 0 cs' \<and>
    b_limit (cs_budget cs') = b_limit (cs_budget cs)"
proof (cases op)
  case (OpNew i cfg)
  then show ?thesis using New_ok [OF ok] al by auto
next
  case (OpSetTTL i dur)
  then show ?thesis using cs_ok_counters [OF ok, of "SetTTL dur (cs_mgrs cs i)" i] by (simp add: SetTTL_def)
next
  case (OpGet i key)
  then show ?thesis using Manager_Get_returns [OF ok, of i d clk key "w i"] al by fastforce
next
  case (OpPut i key v e)
  then show ?thesis using Manager_Put_returns [OF ok, of i d clk key v e "w i"] al by fastforce
next
  case (OpDelete i key e)
  then show ?thesis using Invalidate_laws [OF ok, where i = i and key = key] al cache_step_limit
    by (auto simp: Manager_Delete_def Let_def split: prod.splits)
next
  case (OpInvalidate i key)
  then show ?thesis using Invalidate_laws [OF ok, where i = i and key = key] al cache_step_limit by auto
next
  case (OpPurgeIf i pred)
  obtain n cs' where p: "PurgeIf i pred cs = (n, cs')" by fastforce
  with PurgeIf_laws [OF ok _ p] OpPurgeIf al show ?thesis by auto
next
  case (OpClose i)
  then show ?thesis using Close_laws [OF ok, of i] al by auto
qed

lemma reach_ok: "reach d limit w0 now w cs \<Longrightarrow> cs_ok 0 cs \<and> b_limit (cs_budget cs) = limit"
proof (induction rule: reach.induct)
  case start
  then show ?case by (simp add: init_ok NewBudget_def)
next
  case (step now w cs clk op w' cs')
  then show ?case using run_op_ok [of cs op d clk w] by auto
qed

text \<open>The counts that the code reports, in terms of the abstraction.\<close>

lemma contains_cached: "mgr_ok m \<Longrightarrow> contains k m \<longleftrightarrow> cached m k \<noteq> None"
proof -
  assume "mgr_ok m"
  then have "shard_ok (m_shards m ! shardFor k)" by simp
  then show ?thesis
    by (auto simp: contains_def shards_cached_def sh_cached_def dest: shard_okD(5) split: option.splits)
qed

lemma shard_entries_items: "shard_ok s \<Longrightarrow> gl_Len (sh_lru s) = length (sh_items s)"
  by (rule index_length [where K = it_key]) (auto simp: shard_ok_def)

lemma entries_items: "mgr_ok m \<Longrightarrow> mgr_entries m = fst (GetCacheSize m)"
  unfolding GetCacheSize_def shards_entries_def
  by (simp, intro arg_cong [where f = sum_list] map_cong) (auto simp: shards_ok_def shard_entries_items)

section \<open>Recency\<close>

lemma cs_recent_mgr: "cs_recent T cs \<Longrightarrow> T \<le> T' \<Longrightarrow> mgr_recent T' m \<Longrightarrow> cs_recent T' (cs\<lparr>cs_mgrs := (cs_mgrs cs)(i := m)\<rparr>)"
  by (auto simp: cs_recent_def dest: mgr_recent_later)

lemma cs_recent_shard: "cs_ok pend cs \<Longrightarrow> cs_recent T cs \<Longrightarrow> recent_shard T (m_shards (cs_mgrs cs i) ! shardFor key)"
  by (auto simp: cs_ok_def cs_recent_def intro: mgr_recent_nth)

lemma Invalidate_recent:
  assumes "cs_ok pend cs" and "cs_recent T cs"
  shows "cs_recent T (Invalidate i key cs)"
proof -
  obtain freed s where d: "dropLocked key (m_shards (cs_mgrs cs i) ! shardFor key) = (freed, s)" by fastforce
  have "recent_shard T s" using dropLocked_recent [OF cs_recent_shard [OF assms] d] .
  with assms(2) show ?thesis
    by (auto simp: Invalidate_eq d Let_def cs_recent_def intro: mgr_recent_update)
qed

lemma admit_store_recent:
  assumes ok: "cs_ok pend cs" and r: "cs_recent T cs" and now: "T \<le> now" "zeroTime < now"
  shows "cs_recent now (admit_store i now key obj sz cs)"
proof -
  obtain rep s where d: "shard_admit now key obj sz (m_shards (cs_mgrs cs i) ! shardFor key) = (rep, s)" by fastforce
  have "shard_ok (m_shards (cs_mgrs cs i) ! shardFor key)" using ok by (simp add: cs_ok_def)
  then have "recent_shard now s" using shard_admit_recent [OF _ cs_recent_shard [OF ok r] now d] by simp
  with r now show ?thesis
    by (auto simp: admit_store_eq d Let_def cs_recent_def intro: mgr_recent_update mgr_recent_later)
qed

lemma admit_recent:
  assumes ok: "cs_ok 0 cs" and r: "cs_recent T cs" and now: "T \<le> now" "zeroTime < now"
    and res: "admit i now key obj cs = Some cs'"
  shows "cs_recent now cs'"
proof -
  let ?m = "cs_mgrs cs i" and ?sz = "objectSize (Some obj)"
  have inv: "cs_recent now (Invalidate i key cs1)" if "cs_ok 0 cs1" "cs_recent T cs1" for cs1
    using Invalidate_recent [OF that] now(1) by (rule cs_recent_later)
  consider "m_maxObjectSize ?m > 0 \<and> ?sz > m_maxObjectSize ?m"
    | "\<not> (m_maxObjectSize ?m > 0 \<and> ?sz > m_maxObjectSize ?m)" "m_budget ?m"
    | "\<not> (m_maxObjectSize ?m > 0 \<and> ?sz > m_maxObjectSize ?m)" "\<not> m_budget ?m" by blast
  then show ?thesis
  proof cases
    case 1
    let ?cs = "cs\<lparr>cs_mgrs := (cs_mgrs cs)(i := ?m\<lparr>m_skippedLarge := m_skippedLarge ?m + 1\<rparr>)\<rparr>"
    have "cs_ok 0 ?cs" "cs_recent T ?cs"
      using cs_ok_counters [OF ok] r by (auto simp: cs_recent_def mgr_recent_def)
    with 1 res inv show ?thesis by (auto simp: admit_def Let_def)
  next
    case 2
    have acc: "accounted (\<lambda>m. mgr_held m) (\<lambda>m. mgr_ok m) 0 (cs_budget cs) (cs_mgrs cs)" using ok by (simp add: cs_ok_def)
    obtain q b h where R: "Reserve EvictOldest ?sz (cs_budget cs) (cs_mgrs cs) = Some (q, b, h)"
      "cs_ok (if q then ?sz else 0) (cs\<lparr>cs_budget := b, cs_mgrs := h\<rparr>)"
      using Reserve_laws [OF ok, of ?sz] by auto
    then have "\<forall>e. mgr.evicted (cs_mgrs cs e) (h e)"
      using mgr.Reserve_returns [OF acc, of ?sz] by (auto simp: mgr.reserve_post_def)
    then have "cs_recent T (cs\<lparr>cs_budget := b, cs_mgrs := h\<rparr>)"
      using r ok unfolding cs_recent_def cs_ok_def by (auto intro: evicted_recent)
    with R 2 res inv admit_store_recent [OF R(2) _ now] show ?thesis
      by (auto simp: admit_def Let_def split: if_splits)
  next
    case 3
    with res admit_store_recent [OF ok r now] show ?thesis by (auto simp: admit_def Let_def split: if_splits)
  qed
qed

lemma Get_lookup_recent:
  assumes ok: "mgr_ok m" and r: "mgr_recent T m" and now: "T \<le> clk 1" "zeroTime < clk 1"
    and res: "Get_lookup clk key m = (hit, m')"
  shows "mgr_recent (clk 1) m'"
proof -
  obtain q s where l: "shard_lookup (m_ttl m) clk key (m_shards m ! shardFor key) = (q, s)" by fastforce
  have "recent_shard (clk 1) s"
    using shard_lookup_recent [OF mgr_recent_nth [OF r ok] now l] by simp
  moreover have "m_shards m' = (m_shards m)[shardFor key := s]"
    using res l by (auto simp: Get_lookup_def Let_def split: option.splits)
  ultimately show ?thesis using mgr_recent_update [OF r now(1)] by blast
qed

lemma Manager_Get_recent:
  assumes ok: "cs_ok 0 cs" and lv: "live i cs" and r: "cs_recent T cs"
    and now: "zeroTime < clk 1" "T \<le> clk 1" "clk 1 \<le> clk 2"
    and res: "Manager_Get d i clk key s cs = Some (q, s', cs')"
  shows "cs_recent (clk 2) cs'"
proof -
  obtain hit m where l: "Get_lookup clk key (cs_mgrs cs i) = (hit, m)" by fastforce
  let ?cs = "cs\<lparr>cs_mgrs := (cs_mgrs cs)(i := m)\<rparr>"
  note S = Get_lookup_state [OF ok l]
  have "mgr_recent (clk 1) m"
    using Get_lookup_recent [OF _ _ now(2,1) l] ok r by (simp add: cs_ok_def cs_recent_def)
  with r now have R: "cs_recent (clk 1) ?cs" by (intro cs_recent_mgr)
  obtain g t where g: "dGet d s key = (g, t)" by fastforce
  have "cs_recent (clk 2) (Invalidate i key ?cs)" "cs_recent (clk 2) ?cs"
    using cs_recent_later [OF Invalidate_recent [OF S(1) R]] cs_recent_later [OF R] now(3) by auto
  moreover have "cs_recent (clk 2) c" if "admit i (clk 2) key obj ?cs = Some c" for obj c
    using admit_recent [OF S(1) R now(3) _ that] now by simp
  ultimately show ?thesis
    using res g l by (auto simp: Manager_Get_def Get_lead_def Let_def split: option.splits sum.splits)
qed

lemma run_op_recent:
  assumes ok: "cs_ok 0 cs" and al: "allowed op cs" and r: "cs_recent T cs"
    and now: "zeroTime < clk 0" "T \<le> clk 0" "clk 0 \<le> clk 1" "clk 1 \<le> clk 2"
    and res: "run_op d clk op w cs = Some (w', cs')"
  shows "cs_recent (clk 2) cs'"
proof -
  have le: "cs_recent (clk 2) c" if "cs_recent T c \<or> cs_recent (clk 0) c" for c
    using that now cs_recent_later by (metis order_trans)
  note I = Invalidate_recent [OF ok r]
  show ?thesis
  proof (cases op)
    case (OpNew i cfg)
    then show ?thesis using res r le [of cs']
      by (auto simp: NewManagerWithConfig_def Let_def cs_recent_def mgr_recent_def emptyShard_def recent_New)
  next
    case (OpSetTTL i dur)
    then show ?thesis using res r le [of cs'] by (auto simp: SetTTL_def cs_recent_def mgr_recent_def)
  next
    case (OpGet i key)
    then show ?thesis using res al now Manager_Get_recent [OF ok _ r, of i clk d key "w i"] by auto
  next
    case (OpPut i key v e)
    with res al le I r admit_recent [OF ok r now(2,1)] show ?thesis
      by (auto simp: Manager_Put_def Let_def split: prod.splits sum.splits option.splits)
  next
    case (OpDelete i key e)
    then show ?thesis using res I le by (auto simp: Manager_Delete_def Let_def split: prod.splits)
  next
    case (OpInvalidate i key)
    then show ?thesis using res I le by auto
  next
    case (OpPurgeIf i pred)
    obtain ss f n where p: "purge_shards pred (m_shards (cs_mgrs cs i)) 0 0 = (ss, f, n)" by (metis prod_cases3)
    have "\<forall>s \<in> set ss. recent_shard T s" using r purge_shards_recent [OF _ p] by (simp add: cs_recent_def mgr_recent_def)
    then have "cs_recent T cs'" using r OpPurgeIf res p
      by (auto simp: PurgeIf_def Let_def cs_recent_def mgr_recent_def split: if_splits)
    then show ?thesis using le by blast
  next
    case (OpClose i)
    then obtain c where "Manager_Close i cs = Some c" "\<forall>j. j \<noteq> i \<longrightarrow> cs_mgrs c j = cs_mgrs cs j"
      "mgr.evicted (cs_mgrs cs i) (cs_mgrs c i)" using Close_laws [OF ok, of i] al by auto
    then have "cs_recent T c" using r ok evicted_recent unfolding cs_recent_def cs_ok_def by metis
    with \<open>Manager_Close i cs = Some c\<close> OpClose res le show ?thesis by auto
  qed
qed

lemma reach_recent: "reach d limit w0 now w cs \<Longrightarrow> cs_recent now cs"
proof (induction rule: reach.induct)
  case start
  then show ?case by (simp add: cs_recent_def mgr_recent_def emptyShard_def recent_New)
next
  case (step now w cs clk op w' cs')
  then show ?case using run_op_recent reach_ok by blast
qed

section \<open>Coherence\<close>

context driver
begin

lemma coherent_shrink:
  "coherent i st cs \<Longrightarrow> (\<And>k obj. cached_obj cs' i k = Some obj \<Longrightarrow> cached_obj cs i k = Some obj) \<Longrightarrow> coherent i st cs'"
  by (auto simp: coherent_def)

lemma run_op_coherent:
  assumes ok: "cs_ok 0 cs" and al: "allowed op cs" and drv: "\<forall>j. drv_ok (w j)"
    and coh: "\<forall>j. coherent j (stored (w j)) cs" and res: "run_op d clk op w cs = Some (w', cs')"
  shows "(\<forall>j. drv_ok (w' j)) \<and> (\<forall>j. coherent j (stored (w' j)) cs')"
proof -
  have acc: "(\<forall>j. drv_ok ((w(i := s)) j)) \<and> (\<forall>j. coherent j (stored ((w(i := s)) j)) c)"
    if "drv_ok s" "coherent i (stored s) c" "cache_step i key v cs c" for i s key v c
    using that drv coh coherent_other [OF _ that(3)] by auto
  show ?thesis
  proof (cases op)
    case (OpNew i cfg)
    have "coherent j (stored (w j)) (NewManagerWithConfig i cfg cs)" for j
      using New_ok [OF ok, of i] al OpNew coh
      by (cases "j = i") (auto simp: coherent_def cached_obj_def)
    then show ?thesis using OpNew res drv by auto
  next
    case (OpSetTTL i dur)
    then have "cached_obj cs' = cached_obj cs" "w' = w"
      using res by (auto simp: cached_obj_def fun_eq_iff SetTTL_def)
    then show ?thesis using drv coh by (simp add: coherent_def)
  next
    case (OpGet i key)
    then obtain r s c v where "Manager_Get d i clk key (w i) cs = Some (r, s, c)" "drv_ok s"
      "coherent i (stored s) c" "cache_step i key v cs c"
      using Manager_Get_coherent [where i = i and cs = cs and s = "w i" and clk = clk and key = key] ok al drv coh
      by auto
    then show ?thesis using acc OpGet res by auto
  next
    case (OpPut i key v e)
    then obtain r s c u where "Manager_Put d i clk key v e (w i) cs = Some (r, s, c)" "drv_ok s"
      "coherent i (stored s) c" "cache_step i key u cs c"
      using Manager_Put_coherent [where i = i and cs = cs and s = "w i" and clk = clk and key = key and w = v and e = e]
        ok al drv coh by auto
    then show ?thesis using acc OpPut res by auto
  next
    case (OpDelete i key e)
    obtain err s c where D: "Manager_Delete d i key e (w i) cs = (err, s, c)" by (metis prod_cases3)
    note C = Manager_Delete_coherent [OF _ ok _ _ D]
    show ?thesis using acc [OF C(2,5,7)] OpDelete res drv coh al D by auto
  next
    case (OpInvalidate i key)
    note I = Invalidate_laws [OF ok, where i = i and key = key]
    have "coherent i (stored (w i)) (Invalidate i key cs)"
      using coherent_step [OF coh [rule_format] I(2)] OpInvalidate al by auto
    then show ?thesis using acc [OF drv [rule_format, of i] _ I(2)] OpInvalidate al res by simp
  next
    case (OpPurgeIf i pred)
    obtain n c where p: "PurgeIf i pred cs = (n, c)" by fastforce
    note P = PurgeIf_laws [OF ok _ p]
    have "coherent j (stored (w j)) c" for j
      using P(2,3) coh OpPurgeIf al
      by (intro coherent_shrink [OF coh [rule_format]], cases "j = i") (auto simp: cached_obj_def split: if_splits)
    then show ?thesis using OpPurgeIf res p drv by auto
  next
    case (OpClose i)
    then obtain c where C: "Manager_Close i cs = Some c" "\<forall>j. j \<noteq> i \<longrightarrow> cs_mgrs c j = cs_mgrs cs j"
      "mgr.evicted (cs_mgrs cs i) (cs_mgrs c i)" using Close_laws [OF ok, of i] al by auto
    have "shrunk (cs_mgrs cs i) (cs_mgrs c i)" using shrunk_evicted [OF C(3)] ok by (simp add: cs_ok_def)
    then have "coherent j (stored (w j)) c" for j
      using C(2) by (intro coherent_shrink [OF coh [rule_format]], cases "j = i") (auto simp: cached_obj_def shrunk_def)
    then show ?thesis using OpClose res C(1) drv by auto
  qed
qed

lemma reach_coherent:
  assumes "reach d limit w0 now w cs" and "\<forall>j. drv_ok (w0 j)"
  shows "(\<forall>j. drv_ok (w j)) \<and> (\<forall>j. coherent j (stored (w j)) cs)"
  using assms(1)
proof (induction rule: reach.induct)
  case start
  then show ?case using assms(2) shards_empty(2) by (simp add: coherent_def cached_obj_def)
next
  case (step now w cs clk op w' cs')
  then show ?case using run_op_coherent reach_ok by blast
qed

end

section \<open>A small run\<close>

text \<open>One Manager under a Budget of 10 bytes, over the in-memory driver, after a 3-byte Put.\<close>

definition demo_driver :: "MemDriver Driver" where
  "demo_driver = mem_driver (\<lambda>bs. bs)"

definition demo_start :: "nat \<Rightarrow> MemDriver" where
  "demo_start = (\<lambda>_. mem_NewDriver (\<lambda>_. 0))"

definition demo_new :: cache_state where
  "demo_new = NewManagerWithConfig 0 \<lparr>cfg_TTL = 0, cfg_MaxObjectSize = 0, cfg_Budget = True\<rparr> (init_cache 10)"

definition demo :: "(nat \<Rightarrow> MemDriver) \<times> cache_state" where
  "demo = the (run_op demo_driver (\<lambda>_. 5) (OpPut 0 ''k'' [1, 2, 3] []) demo_start demo_new)"

lemma demo_live: "live 0 demo_new" "cs_ok 0 demo_new"
proof -
  show "live 0 demo_new"
    by (simp add: demo_new_def live_def NewManagerWithConfig_def Register_def Let_def)
  show "cs_ok 0 demo_new"
    unfolding demo_new_def by (rule New_ok(1) [OF init_ok]) (simp add: NewBudget_def)
qed

lemma demo_run: "run_op demo_driver (\<lambda>_. 5) (OpPut 0 ''k'' [1, 2, 3] []) demo_start demo_new = Some demo"
  using run_op_ok [OF demo_live(2), of "OpPut 0 ''k'' [1, 2, 3] []" demo_driver "\<lambda>_. 5" demo_start] demo_live
  unfolding demo_def by auto

lemma demo_reach: "reach demo_driver 10 demo_start 5 (fst demo) (snd demo)"
proof -
  have "reach demo_driver 10 demo_start 5 demo_start demo_new"
    by (rule reach.step [OF reach.start, where clk = "\<lambda>_. 5"
          and op = "OpNew 0 \<lparr>cfg_TTL = 0, cfg_MaxObjectSize = 0, cfg_Budget = True\<rparr>"])
      (simp_all add: demo_new_def zeroTime_def NewBudget_def)
  then show ?thesis
    by (rule reach.step [where clk = "\<lambda>_. 5" and op = "OpPut 0 ''k'' [1, 2, 3] []"])
      (simp_all add: demo_run demo_live(1) zeroTime_def del: run_op.simps)
qed

lemma demo_put:
  "mem_Put (\<lambda>bs. bs) (mem_NewDriver (\<lambda>_. 0)) ''k'' [1, 2, 3] [] =
     (Inr (Some \<lparr>oKey = ''k'', oValue = [1, 2, 3], oETag = [CHR 0x22] @ ''01020330'' @ [CHR 0x22], oModTime = 0,
        oMetadata = []\<rparr>),
      \<lparr>mem_data = [(''k'', \<lparr>e_value = [1, 2, 3], e_etag = [CHR 0x22] @ ''01020330'' @ [CHR 0x22], e_modTime = 0\<rparr>)],
       mem_clock = (\<lambda>_. 0), mem_ticks = 1\<rparr>)"
proof -
  have "show_int 0 = ''0''" by code_simp
  then show ?thesis
    by (simp add: mem_Put_def mem_write_def mem_NewDriver_def generateETag_def hex_of_bytes_def
        hexdigit_def bytes_of_string_def Let_def) code_simp
qed

lemma demo_unfold:
  "demo = (demo_start(0 := snd (mem_Put (\<lambda>bs. bs) (mem_NewDriver (\<lambda>_. 0)) ''k'' [1, 2, 3] [])),
     let m = cs_mgrs demo_new 0 in
     \<lparr>cs_budget = \<lparr>b_limit = 10, b_used = 3, b_evictors = [0], b_cursor = 0\<rparr>,
      cs_mgrs = (cs_mgrs demo_new)(0 := m\<lparr>m_shards := (m_shards m)[shardFor ''k'' :=
        snd (shard_admit 5 ''k'' (the (projr (fst (mem_Put (\<lambda>bs. bs) (mem_NewDriver (\<lambda>_. 0)) ''k'' [1, 2, 3] [])))) 3
          emptyShard)]\<rparr>)\<rparr>)"
  unfolding demo_def
  by (simp add: demo_driver_def demo_start_def demo_put Manager_Put_def admit_def Let_def demo_new_def
      NewManagerWithConfig_def objectSize_def Reserve_def NewBudget_def Register_def admit_store_def
      shard_admit_def emptyShard_def gl_PushFront_def gl_New_def)

lemma demo_facts:
  "Used (cs_budget (snd demo)) = 3" "b_evictors (cs_budget (snd demo)) = [0]"
  "GetCacheSize (cs_mgrs (snd demo) 0) = (1, 3)" "m_budget (cs_mgrs (snd demo) 0)"
  "mem_stored (fst demo 0) ''k'' = Some ([1, 2, 3], [CHR 0x22] @ ''01020330'' @ [CHR 0x22])"
  "mem_stored (fst demo 0) ''z'' = None"
  "fresh_entry (\<lambda>_. 7) (cs_mgrs (snd demo) 0) ''k''"
  "\<not> fresh_entry (\<lambda>_. 7) (cs_mgrs (snd demo) 0) ''z''"
proof -
  have d: "shardFor ''k'' < 64" "shardFor ''z'' < 64" using shardFor_less by (simp_all add: shardCount_def)
  have s: "(\<Sum>x\<leftarrow>(replicate 64 e)[shardFor ''k'' := s]. length (sh_items x)) = length (sh_items s)"
    if "sh_items e = []" for s e
    using sum_list_upd_nat [of "shardFor ''k''" "replicate 64 e" "\<lambda>x. length (sh_items x)" s] d that
    by (simp add: sum_list_replicate)
  show "Used (cs_budget (snd demo)) = 3" "b_evictors (cs_budget (snd demo)) = [0]"
    "GetCacheSize (cs_mgrs (snd demo) 0) = (1, 3)" "m_budget (cs_mgrs (snd demo) 0)"
    using d by (simp_all add: demo_unfold Let_def Used_def demo_new_def NewManagerWithConfig_def GetCacheSize_def shardCount_def s
      sum_list_upd sum_list_replicate demo_put shard_admit_def emptyShard_def gl_PushFront_def gl_New_def)
  show "mem_stored (fst demo 0) ''k'' = Some ([1, 2, 3], [CHR 0x22] @ ''01020330'' @ [CHR 0x22])"
    "mem_stored (fst demo 0) ''z'' = None"
    by (simp_all add: demo_unfold demo_put mem_stored_def)
  show "fresh_entry (\<lambda>_. 7) (cs_mgrs (snd demo) 0) ''k''" "\<not> fresh_entry (\<lambda>_. 7) (cs_mgrs (snd demo) 0) ''z''"
    using d by (simp_all add: demo_unfold Let_def fresh_entry_def demo_new_def NewManagerWithConfig_def shards_cached_def
        sh_cached_def shardCount_def shard_admit_def emptyShard_def gl_PushFront_def gl_New_def gl_Value_def
        demo_put defaultTTL_def nth_list_update)
qed

section \<open>Properties\<close>

text \<open>
  C5: the byte budget is exact and is never exceeded. After any sequence of Manager operations
  on any number of Managers sharing one Budget, over any driver, the Budget's count is the sum of
  what the registered Managers report to hold, a positive limit is respected, and every further
  operation returns: the eviction loops end and no index is out of range.
\<close>

theorem cache_accounting:
  assumes "reach d limit w0 now w cs"
  shows "Used (cs_budget cs) = (\<Sum>i\<leftarrow>b_evictors (cs_budget cs). snd (GetCacheSize (cs_mgrs cs i))) \<and>
    (0 < limit \<longrightarrow> Used (cs_budget cs) \<le> limit) \<and>
    (\<forall>clk op. allowed op cs \<longrightarrow> (\<exists>w' cs'. run_op d clk op w cs = Some (w', cs')))"
proof -
  have ok: "cs_ok 0 cs" "b_limit (cs_budget cs) = limit" using reach_ok [OF assms] by auto
  have "Used (cs_budget cs) = (\<Sum>i\<leftarrow>b_evictors (cs_budget cs). snd (GetCacheSize (cs_mgrs cs i)))"
    using ok(1) by (simp add: cs_ok_def accounted_def held_sum_def Used_def GetCacheSize_def shards_held_def)
  moreover have "0 < limit \<longrightarrow> Used (cs_budget cs) \<le> limit" using ok by (simp add: cs_ok_def Used_def)
  ultimately show ?thesis using run_op_ok [OF ok(1)] by blast
qed

theorem cache_accounting_witness:
  "(3 :: int) = (\<Sum>i\<leftarrow>b_evictors (cs_budget (snd demo)). snd (GetCacheSize (cs_mgrs (snd demo) i))) \<and>
   (\<exists>w' cs'. run_op demo_driver (\<lambda>_. 9) (OpPut 0 ''m'' [1, 2, 3, 4, 5, 6, 7, 8, 9] []) (fst demo) (snd demo) = Some (w', cs'))"
proof -
  have "allowed (OpPut 0 ''m'' [1, 2, 3, 4, 5, 6, 7, 8, 9] []) (snd demo)"
    using demo_facts(2) by (simp add: live_def)
  with cache_accounting [OF demo_reach] demo_facts(1) show ?thesis by (metis (lifting))
qed



text \<open>
  C7: eviction takes the least recently used entry of the whole Manager. As long as the clock
  never runs backwards, \<open>EvictOldest\<close> on a non-empty Manager removes one entry, no other entry of
  any shard was accessed earlier, it reports that entry's size, and leaves all others in place.
\<close>

theorem cache_evicts_oldest:
  assumes "reach d limit w0 now w cs" and "fst (GetCacheSize (cs_mgrs cs i)) \<noteq> 0"
  shows "\<exists>k it m'. EvictOldest (cs_mgrs cs i) = ((it_size it, True), m') \<and> cached (cs_mgrs cs i) k = Some it \<and>
    cached m' = (cached (cs_mgrs cs i))(k := None) \<and>
    (\<forall>k' x. cached (cs_mgrs cs i) k' = Some x \<longrightarrow> it_LastAccessed it \<le> it_LastAccessed x)"
proof -
  let ?m = "cs_mgrs cs i"
  have ok: "mgr_ok ?m" using reach_ok [OF assms(1)] by (simp add: cs_ok_def)
  have r: "mgr_recent now ?m" using reach_recent [OF assms(1)] by (simp add: cs_recent_def)
  have "mgr_entries ?m \<noteq> 0" using assms(2) entries_items [OF ok] by simp
  then show ?thesis by (rule EvictOldest_oldest [OF ok r])
qed

theorem cache_evicts_oldest_witness:
  "\<exists>k it m'. EvictOldest (cs_mgrs (snd demo) 0) = ((it_size it, True), m') \<and> cached (cs_mgrs (snd demo) 0) k = Some it"
  using cache_evicts_oldest [OF demo_reach, of 0] demo_facts(3) by auto

text \<open>
  Closing a Manager returns every byte it holds to the shared Budget, empties it, and leaves
  every other Manager as it was.
\<close>

theorem cache_close_returns_bytes:
  assumes "reach d limit w0 now w cs" and "i \<in> set (b_evictors (cs_budget cs))"
  shows "\<exists>cs'. Manager_Close i cs = Some cs' \<and>
    Used (cs_budget cs') = Used (cs_budget cs) - snd (GetCacheSize (cs_mgrs cs i)) \<and>
    b_evictors (cs_budget cs') = remove1 i (b_evictors (cs_budget cs)) \<and>
    (\<forall>k. \<not> contains k (cs_mgrs cs' i)) \<and> (\<forall>j. j \<noteq> i \<longrightarrow> cs_mgrs cs' j = cs_mgrs cs j)"
proof -
  have ok: "cs_ok 0 cs" using reach_ok [OF assms(1)] by auto
  have b: "m_budget (cs_mgrs cs i)" "live i cs" using ok assms(2) by (simp_all add: cs_ok_def live_def)
  obtain cs' where C: "Manager_Close i cs = Some cs'" "cs_ok 0 cs'" "\<forall>j. j \<noteq> i \<longrightarrow> cs_mgrs cs' j = cs_mgrs cs j"
    "cached (cs_mgrs cs' i) = Map.empty" "b_used (cs_budget cs') = b_used (cs_budget cs) - mgr_held (cs_mgrs cs i)"
    "b_evictors (cs_budget cs') = remove1 i (b_evictors (cs_budget cs))"
    using Close_laws [OF ok b(2)] b(1) by auto
  have "mgr_ok (cs_mgrs cs' i)" using C(2) by (simp add: cs_ok_def)
  then have "\<not> contains k (cs_mgrs cs' i)" for k using contains_cached C(4) by simp
  with C show ?thesis by (auto simp: Used_def GetCacheSize_def shards_held_def)
qed

theorem cache_close_returns_bytes_witness:
  "\<exists>cs'. Manager_Close 0 (snd demo) = Some cs' \<and> Used (cs_budget cs') = 0 \<and> \<not> contains ''k'' (cs_mgrs cs' 0)"
  using cache_close_returns_bytes [OF demo_reach, of 0] demo_facts(1-3) by auto

text \<open>
  A purge drops exactly the entries whose key satisfies the predicate, from this Manager only,
  and the shared accounting stays exact.
\<close>

theorem cache_purge_exact:
  assumes "reach d limit w0 now w cs" and "live i cs"
  shows "\<exists>n cs'. PurgeIf i pred cs = (n, cs') \<and>
    (\<forall>k. cached (cs_mgrs cs' i) k = (if pred k then None else cached (cs_mgrs cs i) k)) \<and>
    (\<forall>j. j \<noteq> i \<longrightarrow> cs_mgrs cs' j = cs_mgrs cs j) \<and>
    Used (cs_budget cs') = (\<Sum>j\<leftarrow>b_evictors (cs_budget cs'). snd (GetCacheSize (cs_mgrs cs' j)))"
proof -
  obtain n cs' where p: "PurgeIf i pred cs = (n, cs')" by fastforce
  have ok: "cs_ok 0 cs" using reach_ok [OF assms(1)] by auto
  note P = PurgeIf_laws [OF ok assms(2) p]
  have "Used (cs_budget cs') = (\<Sum>j\<leftarrow>b_evictors (cs_budget cs'). snd (GetCacheSize (cs_mgrs cs' j)))"
    using P(1) by (simp add: cs_ok_def accounted_def held_sum_def Used_def GetCacheSize_def shards_held_def)
  with P(2,3) p show ?thesis by simp
qed

theorem cache_purge_exact_witness:
  "\<exists>n cs'. PurgeIf 0 (\<lambda>k. k = ''k'') (snd demo) = (n, cs') \<and> cached (cs_mgrs cs' 0) ''k'' = None"
  using cache_purge_exact [OF demo_reach, of 0 "\<lambda>k. k = ''k''"] demo_facts(2)
  by (auto simp: live_def dest: spec [of _ "''k''"])

text \<open>
  C8: read-through. A Get whose entry is present and was accessed within the TTL is answered from
  the cache and does not touch the driver; any other Get calls the driver exactly once and
  returns its answer, and a document it returns is then cached if and only if it fits the
  per-object cap and the whole budget.
\<close>

theorem cache_read_through:
  assumes "reach d limit w0 now w cs" and "live i cs"
  shows "\<exists>r s' cs'. Manager_Get d i clk key (w i) cs = Some (r, s', cs') \<and>
    (if fresh_entry clk (cs_mgrs cs i) key
     then r = Inr (cached_obj cs i key) \<and> cached_obj cs i key \<noteq> None \<and> s' = w i \<and> cached_obj cs' = cached_obj cs
     else (r, s') = dGet d (w i) key \<and>
       (\<forall>obj. r = Inr (Some obj) \<longrightarrow> cached_obj cs' i key = (if cacheable i obj cs then Some obj else None)))"
proof -
  have ok: "cs_ok 0 cs" using reach_ok [OF assms(1)] by auto
  then have mok: "mgr_ok (cs_mgrs cs i)" by (simp add: cs_ok_def)
  obtain hit m where l: "Get_lookup clk key (cs_mgrs cs i) = (hit, m)" by fastforce
  note S = Get_lookup_state [OF ok l] and L = Get_lookup_laws [OF mok l]
  show ?thesis
  proof (cases "fresh_entry clk (cs_mgrs cs i) key")
    case True
    then obtain it where "cached (cs_mgrs cs i) key = Some it" by (auto simp: fresh_entry_def split: option.splits)
    with True L(7) l S(2) show ?thesis by (auto simp: Manager_Get_def cached_obj_def)
  next
    case False
    with L(7) have "hit = None" by simp
    obtain r s' where g: "dGet d (w i) key = (r, s')" by fastforce
    let ?cs = "cs\<lparr>cs_mgrs := (cs_mgrs cs)(i := m)\<rparr>"
    have lv: "live i ?cs" using S(3) assms(2) by simp
    show ?thesis
    proof (cases r rule: go_result_cases)
      case (found obj)
      obtain cs' where A: "admit i (clk 2) key obj ?cs = Some cs'"
        "cached_obj cs' i key = (if cacheable i obj ?cs then Some obj else None)"
        using admit_laws [OF S(1) lv, of "clk 2" key obj] by blast
      then show ?thesis using False \<open>hit = None\<close> found g l S(5) by (auto simp: Manager_Get_def Get_lead_def)
    qed (use False \<open>hit = None\<close> g l in \<open>auto simp: Manager_Get_def Get_lead_def\<close>)
  qed
qed

theorem cache_read_through_witness:
  "\<exists>r s' cs'. Manager_Get demo_driver 0 (\<lambda>_. 7) ''z'' (fst demo 0) (snd demo) = Some (r, s', cs') \<and> r = Inl ErrNotFound"
proof -
  have "\<not> fresh_entry (\<lambda>_. 7) (cs_mgrs (snd demo) 0) ''z''" by (rule demo_facts(8))
  moreover have "dGet demo_driver (fst demo 0) ''z'' = (Inl ErrNotFound, fst demo 0)"
    using demo_facts(6) by (simp add: demo_driver_def mem_Get_def mem_stored_def)
  ultimately show ?thesis
    using cache_read_through [OF demo_reach, of 0 "\<lambda>_. 7" "''z''"] demo_facts(2) by (auto simp: live_def)
qed

text \<open>
  C4: coherence. Over drivers that keep the storage contract, in every reachable state every
  document a Manager holds is the stored one, so a Get that returns a document, from the cache or
  not, returns the currently stored payload and ETag, and it changes nothing in the store. (The
  operations of a run do not overlap, and each Manager owns its driver.)
\<close>

theorem cache_coherent_read:
  assumes "driver d stored drv_ok" and "\<forall>j. drv_ok (w0 j)" and "reach d limit w0 now w cs" and "live i cs"
    and "Manager_Get d i clk key (w i) cs = Some (Inr (Some obj), s', cs')"
  shows "stored (w i) key = Some (doc_of obj) \<and> stored s' = stored (w i)"
proof -
  have C: "\<forall>j. drv_ok (w j)" "coherent i (stored (w i)) cs"
    using driver.reach_coherent [OF assms(1,3,2)] by auto
  have "cs_ok 0 cs" using reach_ok [OF assms(3)] by auto
  from driver.Manager_Get_coherent [OF assms(1) C(1) [rule_format] this assms(4) C(2), of clk key] assms(5)
  show ?thesis by auto
qed

theorem cache_coherent_read_witness:
  "\<exists>obj s' cs'. Manager_Get demo_driver 0 (\<lambda>_. 7) ''k'' (fst demo 0) (snd demo) = Some (Inr (Some obj), s', cs') \<and>
     Some (doc_of obj) = Some ([1, 2, 3], [CHR 0x22] @ ''01020330'' @ [CHR 0x22])"
proof -
  have f: "fresh_entry (\<lambda>_. 7) (cs_mgrs (snd demo) 0) ''k''" by (rule demo_facts(7))
  have lv: "live 0 (snd demo)" using demo_facts(2) by (simp add: live_def)
  have drv: "driver demo_driver mem_stored mem_ok" unfolding demo_driver_def by (rule mem.driver_axioms)
  have w0: "\<forall>j. mem_ok (demo_start j)" by (simp add: demo_start_def mem_NewDriver_def mem_ok_def)
  obtain obj s' cs' where G: "Manager_Get demo_driver 0 (\<lambda>_. 7) ''k'' (fst demo 0) (snd demo) = Some (Inr (Some obj), s', cs')"
    using driver.Manager_Get_coherent [OF drv _ _ lv, of "fst demo 0" "\<lambda>_. 7" "''k''"]
      driver.reach_coherent [OF drv demo_reach w0] reach_ok [OF demo_reach] f by auto
  with demo_facts(5) cache_coherent_read [OF drv w0 demo_reach lv G] G show ?thesis by auto
qed

text \<open>
  An object that cannot be cached costs nobody else an entry. Admitting an object above the
  per-object cap, or above the whole budget, drops the key's old entry, so no stale copy is
  served, and leaves every other entry of every Manager in place.
\<close>

theorem cache_oversized_evicts_nothing:
  assumes "reach d limit w0 now w cs" and "live i cs"
    and "0 < m_maxObjectSize (cs_mgrs cs i) \<and> m_maxObjectSize (cs_mgrs cs i) < objectSize (Some obj) \<or>
         m_budget (cs_mgrs cs i) \<and> 0 < limit \<and> limit < objectSize (Some obj)"
  shows "\<exists>cs'. admit i t key obj cs = Some cs' \<and> \<not> contains key (cs_mgrs cs' i) \<and>
    (\<forall>j k. (j, k) \<noteq> (i, key) \<longrightarrow> cached_obj cs' j k = cached_obj cs j k)"
proof -
  have ok: "cs_ok 0 cs" "b_limit (cs_budget cs) = limit" using reach_ok [OF assms(1)] by auto
  have nc: "\<not> cacheable i obj cs" using assms(3) ok(2) by (auto simp: cacheable_def)
  obtain cs' where A: "admit i t key obj cs = Some cs'" "cs_ok 0 cs'" "cached_obj cs' i key = None"
    "\<forall>j k. (j, k) \<noteq> (i, key) \<longrightarrow> cached_obj cs' j k = cached_obj cs j k"
    using admit_laws [OF ok(1) assms(2), of t key obj] nc by auto
  have "\<not> contains key (cs_mgrs cs' i)"
    using contains_cached [of "cs_mgrs cs' i" key] A(2,3) by (auto simp: cs_ok_def cached_obj_def)
  with A show ?thesis by blast
qed

theorem cache_oversized_evicts_nothing_witness:
  "\<exists>cs'. admit 0 6 ''z'' \<lparr>oKey = ''z'', oValue = replicate 11 0, oETag = [], oModTime = 0, oMetadata = []\<rparr> (snd demo) = Some cs' \<and>
     cached_obj cs' 0 ''k'' = cached_obj (snd demo) 0 ''k''"
  using cache_oversized_evicts_nothing [OF demo_reach, of 0
      "\<lparr>oKey = ''z'', oValue = replicate 11 0, oETag = [], oModTime = 0, oMetadata = []\<rparr>" 6 "''z''"] demo_facts(2,4)
  by (auto simp: live_def objectSize_def)

end
