(* ===== verification/ListCache.thy ===== *)
theory ListCache
  imports GoList MemoryDriver
begin

text \<open>
  pkg/cache/list_cache.go: the cache of listing pages. A page is found through the printed form
  of its query key; the state is that map, the LRU list and the counters. The operations are
  modelled one at a time, so the single-flight table is empty whenever a call starts and every
  miss is a leader; the clock readings of a call are the values \<open>clk 0, clk 1, ...\<close> in the order
  the code takes them (overlapping operations are in the theory \<open>ListFlight\<close>). \<open>copyMetas\<close> is the identity on values that are never shared.
\<close>

section \<open>Definitions\<close>

definition DefaultListTTL :: duration where
  "DefaultListTTL = 24 * 3600 * 1000000000"

definition DefaultListMaxPages :: int where
  "DefaultListMaxPages = 500"

record ListConfig =
  lcfg_TTL :: duration
  lcfg_MaxPages :: int

record ListCacheKey =
  lk_Prefix :: string
  lk_Cursor :: string
  lk_Limit :: int

definition ListCacheKey_String :: "ListCacheKey \<Rightarrow> string" where
  "ListCacheKey_String k = lk_Prefix k @ ''|'' @ lk_Cursor k @ ''|'' @ show_int (lk_Limit k)"

record listCacheEntry =
  le_key :: ListCacheKey
  le_items :: "KeyMeta list"
  le_nextCursor :: string
  le_fetchedAt :: gotime
  le_lastAccessed :: gotime

record ListCache =
  lc_ttl :: duration
  lc_max :: int
  lc_items :: "(string, nat) gomap"
  lc_lru :: "listCacheEntry golist"
  lc_hits :: "64 word"
  lc_misses :: "64 word"
  lc_sfHits :: "64 word"
  lc_evictions :: "64 word"
  lc_invalidations :: "64 word"

definition NewListCache :: "ListConfig \<Rightarrow> ListCache" where
  "NewListCache cfg =
     \<lparr>lc_ttl = (if lcfg_TTL cfg \<le> 0 then DefaultListTTL else lcfg_TTL cfg),
      lc_max = (if lcfg_MaxPages cfg \<le> 0 then DefaultListMaxPages else lcfg_MaxPages cfg),
      lc_items = [], lc_lru = gl_New,
      lc_hits = 0, lc_misses = 0, lc_sfHits = 0, lc_evictions = 0, lc_invalidations = 0\<rparr>"

text \<open>The entry the map leads to; an element of the map is always in the list.\<close>

definition lc_find :: "string \<Rightarrow> ListCache \<Rightarrow> (nat \<times> listCacheEntry) option" where
  "lc_find mk c =
     (case map_of (lc_items c) mk of
        None \<Rightarrow> None
      | Some el \<Rightarrow> map_option (\<lambda>e. (el, e)) (gl_Value el (lc_lru c)))"

definition lc_touch :: "nat \<Rightarrow> gotime \<Rightarrow> ListCache \<Rightarrow> ListCache" where
  "lc_touch el now c =
     c\<lparr>lc_lru := gl_MoveToFront el (gl_Mutate el (\<lambda>e. e\<lparr>le_lastAccessed := now\<rparr>) (lc_lru c)),
       lc_hits := lc_hits c + 1\<rparr>"

text \<open>The fast path: a fresh page is served, an expired one removed.\<close>

definition list_lookup :: "gotime \<Rightarrow> string \<Rightarrow> ListCache \<Rightarrow> listCacheEntry option \<times> ListCache" where
  "list_lookup now mk c =
     (case lc_find mk c of
        None \<Rightarrow> (None, c)
      | Some (el, e) \<Rightarrow>
          if lc_ttl c \<le> 0 \<or> now - le_lastAccessed e < lc_ttl c then (Some e, lc_touch el now c)
          else (None, c\<lparr>lc_lru := gl_Remove el (lc_lru c), lc_items := AList.delete mk (lc_items c)\<rparr>))"

text \<open>The leader's second look, which leaves an expired page in place.\<close>

definition list_recheck :: "gotime \<Rightarrow> gotime \<Rightarrow> string \<Rightarrow> ListCache \<Rightarrow> listCacheEntry option \<times> ListCache" where
  "list_recheck t1 t2 mk c =
     (case lc_find mk c of
        None \<Rightarrow> (None, c)
      | Some (el, e) \<Rightarrow>
          if lc_ttl c \<le> 0 \<or> t1 - le_lastAccessed e < lc_ttl c then (Some e, lc_touch el t2 c) else (None, c))"

lemma gl_Remove_Back_decreases:
  "gl_Back l = Some (el, e) \<Longrightarrow> length (gl_elems (gl_Remove el l)) < length (gl_elems l)"
proof -
  assume "gl_Back l = Some (el, e)"
  then have "(el, e) \<in> set (gl_elems l)" by (auto simp: gl_Back_def split: if_splits) (metis last_in_set)
  then show ?thesis by (auto simp: gl_Remove_def AList.delete_eq intro: length_filter_less)
qed

text \<open>The eviction loop of the admission.\<close>

function evict_pages :: "ListCache \<Rightarrow> ListCache" where
  "evict_pages c =
     (if int (gl_Len (lc_lru c)) \<ge> lc_max c then
        (case gl_Back (lc_lru c) of
           None \<Rightarrow> c
         | Some (el, e) \<Rightarrow>
             evict_pages (c\<lparr>lc_items := AList.delete (ListCacheKey_String (le_key e)) (lc_items c),
               lc_lru := gl_Remove el (lc_lru c), lc_evictions := lc_evictions c + 1\<rparr>))
      else c)"
  by pat_completeness auto

termination
  by (relation "measure (\<lambda>c. length (gl_elems (lc_lru c)))") (auto dest: gl_Remove_Back_decreases)

declare evict_pages.simps [simp del]

definition list_admit :: "gotime \<Rightarrow> ListCacheKey \<Rightarrow> KeyMeta list \<Rightarrow> string \<Rightarrow> ListCache \<Rightarrow> ListCache" where
  "list_admit now k metas nxt c =
     (case lc_find (ListCacheKey_String k) c of
        Some (el, e) \<Rightarrow>
          c\<lparr>lc_lru := gl_MoveToFront el (gl_Mutate el (\<lambda>e. e\<lparr>le_items := metas, le_nextCursor := nxt,
              le_fetchedAt := now, le_lastAccessed := now\<rparr>) (lc_lru c))\<rparr>
      | None \<Rightarrow>
          let c1 = evict_pages c;
              (el, l) = gl_PushFront \<lparr>le_key = k, le_items = metas, le_nextCursor = nxt,
                le_fetchedAt = now, le_lastAccessed = now\<rparr> (lc_lru c1)
          in c1\<lparr>lc_items := AList.update (ListCacheKey_String k) el (lc_items c1), lc_lru := l\<rparr>)"

definition ListCache_ListPage ::
  "'s Driver \<Rightarrow> (nat \<Rightarrow> gotime) \<Rightarrow> string \<Rightarrow> ListOptions \<Rightarrow> 's \<Rightarrow> ListCache \<Rightarrow>
   (gerror + (KeyMeta list \<times> string)) \<times> 's \<times> ListCache" where
  "ListCache_ListPage d clk prefx opts s c =
     (let k = \<lparr>lk_Prefix = prefx, lk_Cursor = loCursor opts, lk_Limit = loLimit opts\<rparr>;
          mapKey = ListCacheKey_String k
      in case list_lookup (clk 0) mapKey c of
           (Some e, c1) \<Rightarrow> (Inr (le_items e, le_nextCursor e), s, c1)
         | (None, c1) \<Rightarrow>
             (case list_recheck (clk 1) (clk 2) mapKey (c1\<lparr>lc_misses := lc_misses c1 + 1\<rparr>) of
                (Some e, c2) \<Rightarrow> (Inr (le_items e, le_nextCursor e), s, c2)
              | (None, c2) \<Rightarrow>
                  (case dList d s prefx opts of
                     (Inl err, s') \<Rightarrow> (Inl err, s', c2)
                   | (Inr (metas, nxt), s') \<Rightarrow>
                       (Inr (metas, nxt), s', list_admit (clk 3) k metas nxt c2))))"

text \<open>The two phases of an invalidation: collect the elements, then remove them.\<close>

fun remove_pages :: "(nat \<times> listCacheEntry) list \<Rightarrow> ListCache \<Rightarrow> ListCache" where
  "remove_pages [] c = c"
| "remove_pages ((el, e) # es) c =
     remove_pages es (c\<lparr>lc_lru := gl_Remove el (lc_lru c),
       lc_items := AList.delete (ListCacheKey_String (le_key e)) (lc_items c),
       lc_invalidations := lc_invalidations c + 1\<rparr>)"

definition lc_collect :: "(listCacheEntry \<Rightarrow> bool) \<Rightarrow> ListCache \<Rightarrow> (nat \<times> listCacheEntry) list" where
  "lc_collect P c =
     filter (\<lambda>(el, e). P e)
       (List.map_filter (\<lambda>(mk, el). map_option (\<lambda>e. (el, e)) (gl_Value el (lc_lru c))) (lc_items c))"

definition InvalidateKey :: "string \<Rightarrow> ListCache \<Rightarrow> ListCache" where
  "InvalidateKey key c =
     remove_pages (lc_collect (\<lambda>e. lk_Prefix (le_key e) = [] \<or> HasPrefix key (lk_Prefix (le_key e))) c) c"

definition InvalidatePrefix :: "string \<Rightarrow> ListCache \<Rightarrow> ListCache" where
  "InvalidatePrefix prefx c =
     remove_pages (lc_collect (\<lambda>e. prefx = [] \<or> lk_Prefix (le_key e) = [] \<or>
       HasPrefix (lk_Prefix (le_key e)) prefx \<or> HasPrefix prefx (lk_Prefix (le_key e))) c) c"

definition ListCache_Purge :: "ListCache \<Rightarrow> ListCache" where
  "ListCache_Purge c = c\<lparr>lc_items := [], lc_lru := (lc_lru c)\<lparr>gl_elems := []\<rparr>\<rparr>"

definition ListCache_Size :: "ListCache \<Rightarrow> nat" where
  "ListCache_Size c = length (lc_items c)"

definition ListCache_Stats :: "ListCache \<Rightarrow> 64 word \<times> 64 word \<times> 64 word \<times> 64 word \<times> 64 word" where
  "ListCache_Stats c = (lc_hits c, lc_misses c, lc_sfHits c, lc_evictions c, lc_invalidations c)"

section \<open>The structure of the cache\<close>

text \<open>The map and the list describe the same pages, each under the printed form of its key.\<close>

definition lc_ok :: "ListCache \<Rightarrow> bool" where
  "lc_ok c \<longleftrightarrow> gl_ok (lc_lru c) \<and> wf_map (lc_items c) \<and>
     (\<forall>mk el. map_of (lc_items c) mk = Some el \<longrightarrow>
        (\<exists>e. gl_Value el (lc_lru c) = Some e \<and> ListCacheKey_String (le_key e) = mk)) \<and>
     (\<forall>el e. gl_Value el (lc_lru c) = Some e \<longrightarrow> map_of (lc_items c) (ListCacheKey_String (le_key e)) = Some el)"

definition page :: "ListCache \<Rightarrow> string \<Rightarrow> listCacheEntry option" where
  "page c mk = map_option snd (lc_find mk c)"

lemma lc_okD:
  assumes "lc_ok c"
  shows "gl_ok (lc_lru c)" "wf_map (lc_items c)"
    "map_of (lc_items c) mk = Some el \<Longrightarrow> \<exists>e. gl_Value el (lc_lru c) = Some e \<and> ListCacheKey_String (le_key e) = mk"
    "gl_Value el (lc_lru c) = Some e \<Longrightarrow> map_of (lc_items c) (ListCacheKey_String (le_key e)) = Some el"
  using assms by (auto simp: lc_ok_def)

lemma lc_findD:
  assumes "lc_ok c" and "lc_find mk c = Some (el, e)"
  shows "map_of (lc_items c) mk = Some el" "gl_Value el (lc_lru c) = Some e" "ListCacheKey_String (le_key e) = mk"
  using assms lc_okD(3) [OF assms(1)] by (fastforce simp: lc_find_def split: option.splits)+

text \<open>Taking out one page, however it was chosen.\<close>

definition lc_drop :: "nat \<Rightarrow> listCacheEntry \<Rightarrow> ListCache \<Rightarrow> ListCache" where
  "lc_drop el e c =
     c\<lparr>lc_lru := gl_Remove el (lc_lru c), lc_items := AList.delete (ListCacheKey_String (le_key e)) (lc_items c)\<rparr>"

lemma lc_drop_laws:
  assumes ok: "lc_ok c" and el: "gl_Value el (lc_lru c) = Some e"
    and c': "lc_lru c' = gl_Remove el (lc_lru c)" "lc_items c' = AList.delete (ListCacheKey_String (le_key e)) (lc_items c)"
  shows "lc_ok c'" "page c' = (page c)(ListCacheKey_String (le_key e) := None)"
proof -
  let ?k = "ListCacheKey_String (le_key e)"
  have key: "map_of (lc_items c) ?k = Some el" using lc_okD(4) [OF ok el] .
  have other: "map_of (lc_items c) mk \<noteq> Some el" if "mk \<noteq> ?k" for mk
    using that el lc_okD(3) [OF ok, of mk el] by auto
  have "ListCacheKey_String (le_key x) \<noteq> ?k" if "gl_Value y (lc_lru c) = Some x" "y \<noteq> el" for x y
    using that key lc_okD(4) [OF ok that(1)] by auto
  then show "lc_ok c'"
    using ok other c' by (auto simp: lc_ok_def gl_ok_Remove split: if_splits)
  show "page c' = (page c)(?k := None)"
    using other c' by (auto simp: page_def lc_find_def fun_eq_iff split: option.splits)
qed

lemma gl_touch_laws:
  assumes ok: "lc_ok c" and el: "lc_find mk c = Some (el, e)" and key: "\<And>x. le_key (f x) = le_key x"
    and c': "lc_lru c' = gl_MoveToFront el (gl_Mutate el f (lc_lru c))" "lc_items c' = lc_items c"
  shows "lc_ok c'" "page c' = (page c)(mk \<mapsto> f e)"
proof -
  note F = lc_findD [OF ok el]
  have "ListCacheKey_String (le_key e) = m" if "map_of (lc_items c) m = Some el" for m
    using F(2) lc_okD(3) [OF ok that] by simp
  then show "lc_ok c'" using ok F(2) c' key
    by (auto simp: lc_ok_def gl_ok_MoveToFront gl_ok_Mutate split: if_splits)
  have "map_of (lc_items c) m \<noteq> Some el" if "m \<noteq> mk" for m
    using that F lc_okD(3) [OF ok, of m el] by auto
  then show "page c' = (page c)(mk \<mapsto> f e)"
    using F c' by (auto simp: page_def lc_find_def fun_eq_iff split: option.splits)
qed

lemma gl_Len_values: "gl_Len l = size (gl_values l)"
  by (simp add: gl_Len_def gl_values_def)

lemma gl_Len_touch:
  assumes "gl_ok l" and "gl_Value el l = Some e"
  shows "gl_Len (gl_MoveToFront el (gl_Mutate el f l)) = gl_Len l"
proof -
  have ok: "gl_ok (gl_Mutate el f l)" using assms(1) by (rule gl_ok_Mutate)
  have "gl_values (gl_MoveToFront el (gl_Mutate el f l)) = gl_values (gl_Mutate el f l)"
    using gl_values_MoveToFront [OF ok] .
  then show ?thesis by (simp add: gl_Len_values) (simp add: gl_values_def gl_Mutate_def)
qed

lemma page_key: "lc_ok c \<Longrightarrow> page c mk = Some e \<Longrightarrow> ListCacheKey_String (le_key e) = mk"
  by (auto simp: page_def dest: lc_findD)

lemma lc_ok_New: "lc_ok (NewListCache cfg)" "page (NewListCache cfg) = Map.empty"
  by (auto simp: lc_ok_def NewListCache_def gl_ok_New page_def lc_find_def fun_eq_iff)

lemma list_lookup_laws:
  assumes ok: "lc_ok c" and res: "list_lookup now mk c = (r, c')"
  shows "lc_ok c'" "lc_max c' = lc_max c" "lc_ttl c' = lc_ttl c"
    "r = Some e \<Longrightarrow> page c mk = Some e \<and> page c' = (page c)(mk \<mapsto> e\<lparr>le_lastAccessed := now\<rparr>)"
    "r = None \<Longrightarrow> page c' = (page c)(mk := None)"
proof -
  have "lc_ok c' \<and> lc_max c' = lc_max c \<and> lc_ttl c' = lc_ttl c \<and>
    (\<forall>e. r = Some e \<longrightarrow> page c mk = Some e \<and> page c' = (page c)(mk \<mapsto> e\<lparr>le_lastAccessed := now\<rparr>)) \<and>
    (r = None \<longrightarrow> page c' = (page c)(mk := None))"
  proof (cases "lc_find mk c")
    case None
    then show ?thesis using ok res by (auto simp: list_lookup_def page_def fun_upd_idem)
  next
    case (Some b)
    obtain el e where b: "b = (el, e)" by (cases b)
    note F = lc_findD [OF ok Some [unfolded b]]
    show ?thesis
    proof (cases "lc_ttl c \<le> 0 \<or> now - le_lastAccessed e < lc_ttl c")
      case True
      then have c': "r = Some e" "c' = lc_touch el now c" using res Some b by (auto simp: list_lookup_def)
      note T = gl_touch_laws [OF ok Some [unfolded b], of "\<lambda>e. e\<lparr>le_lastAccessed := now\<rparr>" c']
      show ?thesis using T c' Some b by (simp add: lc_touch_def page_def)
    next
      case False
      then have c': "r = None" "c' = c\<lparr>lc_lru := gl_Remove el (lc_lru c), lc_items := AList.delete mk (lc_items c)\<rparr>"
        using res Some b by (auto simp: list_lookup_def)
      show ?thesis using lc_drop_laws [OF ok F(2), of c'] c' F(3) by simp
    qed
  qed
  then show "lc_ok c'" "lc_max c' = lc_max c" "lc_ttl c' = lc_ttl c"
    "r = Some e \<Longrightarrow> page c mk = Some e \<and> page c' = (page c)(mk \<mapsto> e\<lparr>le_lastAccessed := now\<rparr>)"
    "r = None \<Longrightarrow> page c' = (page c)(mk := None)" by auto
qed

lemma evict_pages_laws:
  assumes "lc_ok c" and "0 < lc_max c"
  shows "lc_ok (evict_pages c) \<and> (\<forall>mk e. page (evict_pages c) mk = Some e \<longrightarrow> page c mk = Some e) \<and>
    lc_max (evict_pages c) = lc_max c \<and> lc_ttl (evict_pages c) = lc_ttl c \<and>
    int (gl_Len (lc_lru (evict_pages c))) < lc_max c"
  using assms
proof (induction c rule: evict_pages.induct)
  case (1 c)
  show ?case
  proof (cases "int (gl_Len (lc_lru c)) \<ge> lc_max c")
    case False
    then show ?thesis using 1 by (subst (1 2 3 4 5) evict_pages.simps) simp
  next
    case True
    then have "gl_elems (lc_lru c) \<noteq> []" using 1(3) by (auto simp: gl_Len_def)
    then obtain el e where b: "gl_Back (lc_lru c) = Some (el, e)" by (metis gl_Back_def surj_pair)
    let ?c = "c\<lparr>lc_items := AList.delete (ListCacheKey_String (le_key e)) (lc_items c),
      lc_lru := gl_Remove el (lc_lru c), lc_evictions := lc_evictions c + 1\<rparr>"
    have v: "gl_Value el (lc_lru c) = Some e" using gl_Back_Value [OF lc_okD(1) [OF 1(2)] b] .
    note D = lc_drop_laws [OF 1(2) v, of ?c]
    have eq: "evict_pages c = evict_pages ?c" using True b by (subst evict_pages.simps) simp
    have "lc_ok (evict_pages ?c) \<and> (\<forall>mk e. page (evict_pages ?c) mk = Some e \<longrightarrow> page ?c mk = Some e) \<and>
      lc_max (evict_pages ?c) = lc_max ?c \<and> lc_ttl (evict_pages ?c) = lc_ttl ?c \<and>
      int (gl_Len (lc_lru (evict_pages ?c))) < lc_max ?c"
      using 1(1) [OF True b refl] D(1) 1(3) by simp
    moreover have "page c mk = Some x" if "page ?c mk = Some x" for mk x
      using that D(2) by (simp split: if_splits)
    ultimately show ?thesis unfolding eq by simp
  qed
qed

lemma list_admit_laws:
  assumes ok: "lc_ok c" and m: "0 < lc_max c"
  shows "lc_ok (list_admit now k metas nxt c) \<and> lc_max (list_admit now k metas nxt c) = lc_max c \<and>
    (\<exists>e. page (list_admit now k metas nxt c) (ListCacheKey_String k) = Some e \<and> le_items e = metas \<and>
      le_nextCursor e = nxt \<and> le_lastAccessed e = now \<and> ListCacheKey_String (le_key e) = ListCacheKey_String k \<and>
      (page c (ListCacheKey_String k) = None \<longrightarrow> le_key e = k)) \<and>
    (\<forall>mk e. mk \<noteq> ListCacheKey_String k \<longrightarrow> page (list_admit now k metas nxt c) mk = Some e \<longrightarrow> page c mk = Some e) \<and>
    (int (gl_Len (lc_lru c)) \<le> lc_max c \<longrightarrow> int (gl_Len (lc_lru (list_admit now k metas nxt c))) \<le> lc_max c)"
proof (cases "lc_find (ListCacheKey_String k) c")
  case (Some b)
  obtain el e where b: "b = (el, e)" by (cases b)
  let ?f = "\<lambda>e. e\<lparr>le_items := metas, le_nextCursor := nxt, le_fetchedAt := now, le_lastAccessed := now\<rparr>"
  let ?c = "list_admit now k metas nxt c"
  have c': "lc_lru ?c = gl_MoveToFront el (gl_Mutate el ?f (lc_lru c))" "lc_items ?c = lc_items c" "lc_max ?c = lc_max c"
    using Some b by (simp_all add: list_admit_def)
  note T = gl_touch_laws [OF ok Some [unfolded b], of ?f ?c] and F = lc_findD [OF ok Some [unfolded b]]
  have "gl_Len (lc_lru ?c) = gl_Len (lc_lru c)"
    using F(2) gl_Len_touch [OF lc_okD(1) [OF ok] F(2), of ?f] c' by simp
  then show ?thesis using T c' F(3) Some b by (auto simp: page_def)
next
  case None
  let ?c1 = "evict_pages c" and ?c = "list_admit now k metas nxt c" and ?mk = "ListCacheKey_String k"
  let ?e = "\<lparr>le_key = k, le_items = metas, le_nextCursor = nxt, le_fetchedAt = now, le_lastAccessed = now\<rparr>"
  have E: "lc_ok ?c1" "\<forall>mk e. page ?c1 mk = Some e \<longrightarrow> page c mk = Some e" "lc_max ?c1 = lc_max c"
    "int (gl_Len (lc_lru ?c1)) < lc_max c" using evict_pages_laws [OF ok m] by auto
  have c': "lc_lru ?c = snd (gl_PushFront ?e (lc_lru ?c1))" "lc_max ?c = lc_max c"
    "lc_items ?c = AList.update ?mk (gl_next (lc_lru ?c1)) (lc_items ?c1)"
    using None E(3) by (simp_all add: list_admit_def gl_PushFront_def Let_def)
  have none: "map_of (lc_items ?c1) ?mk = None"
  proof (rule ccontr)
    assume "map_of (lc_items ?c1) ?mk \<noteq> None"
    then obtain e where "page ?c1 ?mk = Some e" using lc_okD(3) [OF E(1)] by (fastforce simp: page_def lc_find_def)
    then have "page c ?mk = Some e" using E(2) by blast
    then show False using None by (simp add: page_def)
  qed
  have fresh: "gl_Value (gl_next (lc_lru ?c1)) (lc_lru ?c1) = None" using gl_Value_fresh lc_okD(1) [OF E(1)] by blast
  have nokey: "ListCacheKey_String (le_key x) \<noteq> ?mk" if "gl_Value y (lc_lru ?c1) = Some x" for x y
    using lc_okD(4) [OF E(1) that] none by auto
  have noel: "map_of (lc_items ?c1) mk \<noteq> Some (gl_next (lc_lru ?c1))" for mk
    using lc_okD(3) [OF E(1), of mk] fresh by auto
  have "lc_ok ?c"
    using E(1) nokey noel fresh by (auto simp: lc_ok_def c' gl_ok_PushFront map_of_update split: if_splits)
  moreover have "page ?c = (page ?c1)(?mk \<mapsto> ?e)"
    using noel by (auto simp: page_def lc_find_def c' map_of_update fun_eq_iff split: option.splits)
  moreover have "gl_Len (lc_lru ?c) = Suc (gl_Len (lc_lru ?c1))" by (simp add: c' gl_Len_def gl_PushFront_def)
  ultimately show ?thesis using E(2,4) c'(2) by auto
qed

text \<open>Invalidation removes exactly the pages the predicate holds for.\<close>

lemma remove_pages_laws:
  assumes "lc_ok c"
    and "\<forall>(el, e) \<in> set es. gl_Value el (lc_lru c) = Some e \<or>
      gl_Value el (lc_lru c) = None \<and> map_of (lc_items c) (ListCacheKey_String (le_key e)) = None"
  shows "lc_ok (remove_pages es c) \<and> lc_max (remove_pages es c) = lc_max c \<and>
    page (remove_pages es c) = (\<lambda>mk. if mk \<in> (\<lambda>(el, e). ListCacheKey_String (le_key e)) ` set es then None else page c mk) \<and>
    gl_Len (lc_lru (remove_pages es c)) \<le> gl_Len (lc_lru c)"
  using assms
proof (induction es c rule: remove_pages.induct)
  case (2 el e es c)
  let ?c = "c\<lparr>lc_lru := gl_Remove el (lc_lru c),
    lc_items := AList.delete (ListCacheKey_String (le_key e)) (lc_items c),
    lc_invalidations := lc_invalidations c + 1\<rparr>"
  have step: "lc_ok ?c \<and> page ?c = (page c)(ListCacheKey_String (le_key e) := None)"
  proof (cases "gl_Value el (lc_lru c)")
    case (Some x)
    then show ?thesis using lc_drop_laws [OF 2(2), of el e ?c] 2(3) by auto
  next
    case None
    then have n: "map_of (lc_items c) (ListCacheKey_String (le_key e)) = None" using 2(3) by auto
    have "map_of (lc_items c) mk \<noteq> Some el" for mk using lc_okD(3) [OF 2(2), of mk el] None by auto
    moreover have "ListCacheKey_String (le_key x) \<noteq> ListCacheKey_String (le_key e)" if "gl_Value y (lc_lru c) = Some x" for x y
      using lc_okD(4) [OF 2(2) that] n by auto
    ultimately show ?thesis using 2(2) None n
      by (auto simp: lc_ok_def gl_ok_Remove page_def lc_find_def fun_eq_iff split: if_splits option.splits)
  qed
  have "gl_Value el2 (lc_lru ?c) = Some e2 \<or>
      gl_Value el2 (lc_lru ?c) = None \<and> map_of (lc_items ?c) (ListCacheKey_String (le_key e2)) = None"
    if "(el2, e2) \<in> set es" for el2 e2
    using that 2(3) by (cases "el2 = el") auto
  then have IH: "lc_ok (remove_pages es ?c) \<and> lc_max (remove_pages es ?c) = lc_max ?c \<and>
    page (remove_pages es ?c) = (\<lambda>mk. if mk \<in> (\<lambda>(el, e). ListCacheKey_String (le_key e)) ` set es then None else page ?c mk) \<and>
    gl_Len (lc_lru (remove_pages es ?c)) \<le> gl_Len (lc_lru ?c)"
    using 2(1) step by auto
  have "gl_Len (gl_Remove el (lc_lru c)) \<le> gl_Len (lc_lru c)"
    by (simp add: gl_Len_def gl_Remove_def AList.delete_eq)
  with IH step show ?case by (auto simp: fun_eq_iff)
qed auto

lemma invalidate_laws:
  fixes P :: "listCacheEntry \<Rightarrow> bool"
  assumes ok: "lc_ok c"
  defines "c' \<equiv> remove_pages (lc_collect P c) c"
  shows "lc_ok c'" "lc_max c' = lc_max c" "gl_Len (lc_lru c') \<le> gl_Len (lc_lru c)"
    "page c' mk = (case page c mk of None \<Rightarrow> None | Some e \<Rightarrow> if P e then None else Some e)"
proof -
  have in_c: "(el, e) \<in> set (lc_collect P c) \<longleftrightarrow> P e \<and> (\<exists>mk. map_of (lc_items c) mk = Some el) \<and> gl_Value el (lc_lru c) = Some e"
    for el e
    using lc_okD(2) [OF ok] by (auto simp: lc_collect_def List.map_filter_def map_of_eq_Some_iff split: option.splits) force
  have "\<forall>(el, e) \<in> set (lc_collect P c). gl_Value el (lc_lru c) = Some e \<or>
      gl_Value el (lc_lru c) = None \<and> map_of (lc_items c) (ListCacheKey_String (le_key e)) = None"
    using in_c by auto
  note R = remove_pages_laws [OF ok this]
  show "lc_ok c'" "lc_max c' = lc_max c" "gl_Len (lc_lru c') \<le> gl_Len (lc_lru c)" using R by (auto simp: c'_def)
  show "page c' mk = (case page c mk of None \<Rightarrow> None | Some e \<Rightarrow> if P e then None else Some e)"
  proof (cases "page c mk")
    case None
    then show ?thesis using R by (simp add: c'_def)
  next
    case (Some e)
    then obtain el where f: "lc_find mk c = Some (el, e)" by (auto simp: page_def)
    note F = lc_findD [OF ok f]
    have "mk \<in> (\<lambda>(el, e). ListCacheKey_String (le_key e)) ` set (lc_collect P c) \<longleftrightarrow> P e"
    proof
      assume "mk \<in> (\<lambda>(el, e). ListCacheKey_String (le_key e)) ` set (lc_collect P c)"
      then obtain el2 e2 where "P e2" "gl_Value el2 (lc_lru c) = Some e2" "mk = ListCacheKey_String (le_key e2)"
        using in_c by auto
      then show "P e" using lc_okD(4) [OF ok, of el2 e2] F by auto
    next
      assume "P e"
      then show "mk \<in> (\<lambda>(el, e). ListCacheKey_String (le_key e)) ` set (lc_collect P c)"
        using F in_c [of el e] by (auto intro!: image_eqI [of _ _ "(el, e)"])
    qed
    with R Some show ?thesis by (simp add: c'_def)
  qed
qed

lemma size_len: "lc_ok c \<Longrightarrow> ListCache_Size c = gl_Len (lc_lru c)"
  unfolding ListCache_Size_def by (rule index_length [where K = "\<lambda>e. ListCacheKey_String (le_key e)", symmetric])
    (auto simp: lc_ok_def)

text \<open>A call on a cached fresh page, and on any other.\<close>

lemma ListPage_laws:
  assumes ok: "lc_ok c" and m: "0 < lc_max c" and len: "int (gl_Len (lc_lru c)) \<le> lc_max c"
  defines "k p opts \<equiv> \<lparr>lk_Prefix = p, lk_Cursor = loCursor opts, lk_Limit = loLimit opts\<rparr>"
  assumes res: "ListCache_ListPage d clk p opts s c = (r, s', c')"
  shows "lc_ok c'" "lc_max c' = lc_max c" "int (gl_Len (lc_lru c')) \<le> lc_max c"
    "mk \<noteq> ListCacheKey_String (k p opts) \<Longrightarrow> page c' mk = Some e \<Longrightarrow> page c mk = Some e"
    "(\<exists>e. page c (ListCacheKey_String (k p opts)) = Some e \<and> r = Inr (le_items e, le_nextCursor e) \<and> s' = s \<and>
        page c' (ListCacheKey_String (k p opts)) = Some (e\<lparr>le_lastAccessed := clk 0\<rparr>)) \<or>
     (r, s') = dList d s p opts \<and>
       (case r of Inl err \<Rightarrow> page c' (ListCacheKey_String (k p opts)) = None
        | Inr (metas, nxt) \<Rightarrow> \<exists>e. page c' (ListCacheKey_String (k p opts)) = Some e \<and> le_items e = metas \<and>
            le_nextCursor e = nxt \<and> le_key e = k p opts)"
proof -
  let ?k = "k p opts" and ?mk = "ListCacheKey_String (k p opts)"
  obtain h c1 where l: "list_lookup (clk 0) ?mk c = (h, c1)" by fastforce
  note L = list_lookup_laws [OF ok l]
  have len1: "gl_Len (lc_lru c1) \<le> gl_Len (lc_lru c)"
    using l gl_Len_touch [OF lc_okD(1) [OF ok]] lc_findD [OF ok]
    by (auto simp: list_lookup_def lc_touch_def gl_Len_def gl_Remove_def AList.delete_eq split: option.splits if_splits)
  have "lc_ok c' \<and> lc_max c' = lc_max c \<and> int (gl_Len (lc_lru c')) \<le> lc_max c \<and>
    (\<forall>mk e. mk \<noteq> ?mk \<longrightarrow> page c' mk = Some e \<longrightarrow> page c mk = Some e) \<and>
    ((\<exists>e. page c ?mk = Some e \<and> r = Inr (le_items e, le_nextCursor e) \<and> s' = s \<and>
        page c' ?mk = Some (e\<lparr>le_lastAccessed := clk 0\<rparr>)) \<or>
     (r, s') = dList d s p opts \<and>
       (case r of Inl err \<Rightarrow> page c' ?mk = None
        | Inr (metas, nxt) \<Rightarrow> \<exists>e. page c' ?mk = Some e \<and> le_items e = metas \<and> le_nextCursor e = nxt \<and> le_key e = ?k))"
  proof (cases h)
    case (Some e)
    then show ?thesis
      using res l L len len1 by (auto simp: ListCache_ListPage_def Let_def k_def)
  next
    case None
    let ?c2 = "c1\<lparr>lc_misses := lc_misses c1 + 1\<rparr>"
    have same: "lc_find x ?c2 = lc_find x c1" "page ?c2 x = page c1 x" "lc_ok ?c2 = lc_ok c1" for x
      by (simp_all add: lc_find_def page_def lc_ok_def split: option.split)
    have "page c1 ?mk = None" using L(5) [OF None] by simp
    then have "lc_find ?mk c1 = None" by (simp add: page_def)
    then have rc: "list_recheck (clk 1) (clk 2) ?mk ?c2 = (None, ?c2)" by (simp add: list_recheck_def same)
    obtain q t where g: "dList d s p opts = (q, t)" by fastforce
    show ?thesis
    proof (cases q)
      case (Inl err)
      then have "r = Inl err" "s' = t" "c' = ?c2"
        using res l None rc g by (auto simp: ListCache_ListPage_def Let_def k_def)
      then show ?thesis using Inl g L(1,2) L(5) [OF None] len len1 same by auto
    next
      case (Inr b)
      obtain metas nxt where b: "b = (metas, nxt)" by (cases b)
      have c': "r = Inr (metas, nxt)" "s' = t" "c' = list_admit (clk 3) ?k metas nxt ?c2"
        using res l None rc g Inr b by (auto simp: ListCache_ListPage_def Let_def k_def)
      have A: "lc_ok c'" "lc_max c' = lc_max c" "int (gl_Len (lc_lru c')) \<le> lc_max c"
        "\<forall>mk e. mk \<noteq> ?mk \<longrightarrow> page c' mk = Some e \<longrightarrow> page ?c2 mk = Some e"
        "\<exists>e. page c' ?mk = Some e \<and> le_items e = metas \<and> le_nextCursor e = nxt \<and> le_key e = ?k"
        unfolding c'(3)
        using list_admit_laws [of ?c2 "clk 3" ?k metas nxt] L(1,2) m len len1 \<open>page c1 ?mk = None\<close> same by auto
      then show ?thesis using c' Inr b g L(5) [OF None] same by auto
    qed
  qed
  then show "lc_ok c'" "lc_max c' = lc_max c" "int (gl_Len (lc_lru c')) \<le> lc_max c"
    "mk \<noteq> ?mk \<Longrightarrow> page c' mk = Some e \<Longrightarrow> page c mk = Some e"
    "(\<exists>e. page c ?mk = Some e \<and> r = Inr (le_items e, le_nextCursor e) \<and> s' = s \<and>
        page c' ?mk = Some (e\<lparr>le_lastAccessed := clk 0\<rparr>)) \<or>
     (r, s') = dList d s p opts \<and>
       (case r of Inl err \<Rightarrow> page c' ?mk = None
        | Inr (metas, nxt) \<Rightarrow> \<exists>e. page c' ?mk = Some e \<and> le_items e = metas \<and> le_nextCursor e = nxt \<and> le_key e = ?k)"
    by blast+
qed

section \<open>The printed key\<close>

lemma show_int_no_bar: "CHR ''|'' \<notin> set (show_int n)"
  using show_int_chars [of _ n] by fastforce

text \<open>
  The printed key tells two queries apart when their prefixes have no bar: the first bar ends the
  prefix and the last one starts the limit, whatever the cursor is.
\<close>

lemma ListCacheKey_String_inj:
  assumes "CHR ''|'' \<notin> set (lk_Prefix k)" and "CHR ''|'' \<notin> set (lk_Prefix k')"
    and "ListCacheKey_String k = ListCacheKey_String k'"
  shows "k = k'"
proof -
  have "lk_Prefix k = lk_Prefix k' \<and> lk_Cursor k @ ''|'' @ show_int (lk_Limit k) = lk_Cursor k' @ ''|'' @ show_int (lk_Limit k')"
    using assms append_sep_eq_iff [of "CHR ''|''" "lk_Prefix k" "lk_Prefix k'"]
    by (simp add: ListCacheKey_String_def)
  moreover from this have "rev (show_int (lk_Limit k)) @ CHR ''|'' # rev (lk_Cursor k) =
      rev (show_int (lk_Limit k')) @ CHR ''|'' # rev (lk_Cursor k')"
    by (metis append.assoc append_Cons append_Nil rev.simps(2) rev_append rev_rev_ident)
  then have "rev (show_int (lk_Limit k)) = rev (show_int (lk_Limit k')) \<and> rev (lk_Cursor k) = rev (lk_Cursor k')"
    using append_sep_eq_iff [of "CHR ''|''" "rev (show_int (lk_Limit k))" "rev (show_int (lk_Limit k'))"] show_int_no_bar
    by simp
  ultimately show ?thesis by (auto simp: show_int_inject intro: ListCacheKey.equality)
qed

section \<open>Runs\<close>

text \<open>
  The writes of the database next to the listings: it drops the pages of a key after a successful
  Put or Delete of it.
\<close>

datatype list_op =
    LPage "nat \<Rightarrow> gotime" string ListOptions
  | LPut string bytes string
  | LDelete string string
  | LInvalidatePrefix string
  | LPurge

fun list_step :: "'s Driver \<Rightarrow> list_op \<Rightarrow> 's \<times> ListCache \<Rightarrow> 's \<times> ListCache" where
  "list_step d (LPage clk p opts) (s, c) = snd (ListCache_ListPage d clk p opts s c)"
| "list_step d (LPut key v e) (s, c) =
     (case dPut d s key v e of
        (Inl err, s') \<Rightarrow> (s', c)
      | (Inr obj, s') \<Rightarrow> (s', InvalidateKey key c))"
| "list_step d (LDelete key e) (s, c) =
     (case dDelete d s key e of
        (Some err, s') \<Rightarrow> (s', c)
      | (None, s') \<Rightarrow> (s', InvalidateKey key c))"
| "list_step d (LInvalidatePrefix p) (s, c) = (s, InvalidatePrefix p c)"
| "list_step d LPurge (s, c) = (s, ListCache_Purge c)"

definition list_run :: "'s Driver \<Rightarrow> list_op list \<Rightarrow> 's \<times> ListCache \<Rightarrow> 's \<times> ListCache" where
  "list_run d ops = fold (list_step d) ops"

text \<open>Listings as the database asks for them: no delimiter, and a prefix without a bar.\<close>

definition plain_query :: "string \<Rightarrow> ListOptions \<Rightarrow> bool" where
  "plain_query p opts \<longleftrightarrow> CHR ''|'' \<notin> set p \<and> loDelimiter opts = []"

fun plain_op :: "list_op \<Rightarrow> bool" where
  "plain_op (LPage clk p opts) = plain_query p opts"
| "plain_op op = True"

definition lc_bounded :: "ListCache \<Rightarrow> bool" where
  "lc_bounded c \<longleftrightarrow> lc_ok c \<and> 0 < lc_max c \<and> int (gl_Len (lc_lru c)) \<le> lc_max c"

lemma Purge_laws: "lc_ok c \<Longrightarrow> lc_ok (ListCache_Purge c)" "page (ListCache_Purge c) = Map.empty"
  "lc_max (ListCache_Purge c) = lc_max c" "gl_Len (lc_lru (ListCache_Purge c)) = 0"
  by (auto simp: ListCache_Purge_def lc_ok_def gl_ok_def gl_Value_def page_def lc_find_def gl_Len_def fun_eq_iff)

lemma invalidate_bounded:
  "lc_bounded c \<Longrightarrow> lc_bounded (remove_pages (lc_collect P c) c) \<and> lc_max (remove_pages (lc_collect P c) c) = lc_max c"
  using invalidate_laws [of c P] by (fastforce simp: lc_bounded_def)

lemma list_step_bounded:
  assumes "lc_bounded c" and "list_step d op (s, c) = (s', c')"
  shows "lc_bounded c' \<and> lc_max c' = lc_max c"
proof (cases op)
  case (LPage clk p opts)
  obtain r where "ListCache_ListPage d clk p opts s c = (r, s', c')"
    using assms(2) LPage by (cases "ListCache_ListPage d clk p opts s c") auto
  from ListPage_laws(1-3) [OF _ _ _ this] assms(1) show ?thesis by (auto simp: lc_bounded_def)
next
  case LPurge
  then show ?thesis using assms Purge_laws by (auto simp: lc_bounded_def)
qed (use assms invalidate_bounded [OF assms(1)] in
      \<open>auto simp: InvalidateKey_def InvalidatePrefix_def split: prod.splits sum.splits option.splits\<close>)

lemma list_run_bounded:
  "lc_bounded c \<Longrightarrow> list_run d ops (s, c) = (s', c') \<Longrightarrow> lc_bounded c' \<and> lc_max c' = lc_max c"
proof (induction ops arbitrary: s c)
  case (Cons op ops)
  obtain s1 c1 where st: "list_step d op (s, c) = (s1, c1)" by fastforce
  with Cons.prems have "list_run d ops (s1, c1) = (s', c')" by (simp add: list_run_def)
  with Cons.IH [of c1 s1] list_step_bounded [OF Cons.prems(1) st] show ?case by auto
qed (auto simp: list_run_def)

text \<open>Every page a cache holds is what the driver would answer now.\<close>

definition lc_current :: "'s Driver \<Rightarrow> 's \<Rightarrow> ListCache \<Rightarrow> bool" where
  "lc_current d s c \<longleftrightarrow>
     (\<forall>mk e. page c mk = Some e \<longrightarrow> CHR ''|'' \<notin> set (lk_Prefix (le_key e)) \<and>
        fst (dList d s (lk_Prefix (le_key e)) (page_opts (lk_Limit (le_key e)) (lk_Cursor (le_key e)))) =
        Inr (le_items e, le_nextCursor e))"

lemma lc_currentD:
  assumes "lc_current d s c" and "page c mk = Some e"
  shows "CHR ''|'' \<notin> set (lk_Prefix (le_key e))"
    "fst (dList d s (lk_Prefix (le_key e)) (page_opts (lk_Limit (le_key e)) (lk_Cursor (le_key e)))) =
       Inr (le_items e, le_nextCursor e)"
  using assms by (auto simp: lc_current_def)

lemma plain_opts: "loDelimiter opts = [] \<Longrightarrow> opts = page_opts (loLimit opts) (loCursor opts)"
  by (simp add: page_opts_def)

context list_driver
begin

lemma current_state:
  assumes "lc_current d s c" and "drv_ok s" "drv_ok s'" and "listed s' = listed s"
  shows "lc_current d s' c"
  using assms list_local [of s' s] unfolding lc_current_def by metis

lemma current_InvalidateKey:
  assumes ok: "lc_ok c" and cur: "lc_current d s c" and drv: "drv_ok s" "drv_ok s'"
    and eq: "\<forall>k. k \<noteq> key \<longrightarrow> listed s' k = listed s k"
  shows "lc_current d s' (InvalidateKey key c)"
  unfolding lc_current_def
proof (intro allI impI)
  fix mk e assume "page (InvalidateKey key c) mk = Some e"
  then have e: "page c mk = Some e" "\<not> (lk_Prefix (le_key e) = [] \<or> HasPrefix key (lk_Prefix (le_key e)))"
    using invalidate_laws(4) [OF ok] by (auto simp: InvalidateKey_def split: option.splits if_splits)
  have "\<forall>k. HasPrefix k (lk_Prefix (le_key e)) \<longrightarrow> listed s' k = listed s k"
    using e(2) eq by auto
  from list_local [OF drv(2,1) this] cur e(1)
  show "CHR ''|'' \<notin> set (lk_Prefix (le_key e)) \<and>
      fst (dList d s' (lk_Prefix (le_key e)) (page_opts (lk_Limit (le_key e)) (lk_Cursor (le_key e)))) =
      Inr (le_items e, le_nextCursor e)"
    by (simp add: lc_current_def)
qed

lemma ListPage_current:
  assumes b: "lc_bounded c" and cur: "lc_current d s c" and drv: "drv_ok s" and q: "plain_query p opts"
    and res: "ListCache_ListPage d clk p opts s c = (r, s', c')"
  shows "r = fst (dList d s p opts)" "lc_current d s' c'" "drv_ok s'" "listed s' = listed s"
proof -
  let ?k = "\<lparr>lk_Prefix = p, lk_Cursor = loCursor opts, lk_Limit = loLimit opts\<rparr>"
  let ?mk = "ListCacheKey_String ?k"
  note L = ListPage_laws [OF _ _ _ res]
  have key: "le_key e = ?k" if "page c ?mk = Some e" for e
  proof -
    have "ListCacheKey_String (le_key e) = ?mk" using page_key [OF _ that] b by (simp add: lc_bounded_def)
    then show ?thesis
      using ListCacheKey_String_inj [of "le_key e" ?k] that cur q by (auto simp: lc_current_def plain_query_def)
  qed
  consider (hit) e where "page c ?mk = Some e" "r = Inr (le_items e, le_nextCursor e)" "s' = s"
      "page c' ?mk = Some (e\<lparr>le_lastAccessed := clk 0\<rparr>)"
    | (miss) "(r, s') = dList d s p opts" "case r of Inl err \<Rightarrow> page c' ?mk = None
        | Inr (metas, nxt) \<Rightarrow> \<exists>e. page c' ?mk = Some e \<and> le_items e = metas \<and> le_nextCursor e = nxt \<and> le_key e = ?k"
    using L(5) b by (auto simp: lc_bounded_def)
  note cases = this
  have opts: "opts = page_opts (loLimit opts) (loCursor opts)" using q by (simp add: plain_query_def plain_opts)
  show r: "r = fst (dList d s p opts)"
  proof (cases rule: cases)
    case (hit e)
    have "fst (dList d s p (page_opts (loLimit opts) (loCursor opts))) = Inr (le_items e, le_nextCursor e)"
      using lc_currentD(2) [OF cur hit(1)] key [OF hit(1)] by simp
    then show ?thesis using hit(2) opts by simp
  next
    case miss
    then show ?thesis by (metis fst_conv)
  qed
  have "drv_ok s' \<and> listed s' = listed s"
    using list_frame [OF drv, of p opts r s'] drv by (cases rule: cases) auto
  then show ds: "drv_ok s'" "listed s' = listed s" by auto
  have cur': "lc_current d s' c" using current_state [OF cur drv ds] .
  have old: "page c mk = Some e" if "mk \<noteq> ?mk" "page c' mk = Some e" for mk e
    using L(4) that b by (auto simp: lc_bounded_def)
  have new: "CHR ''|'' \<notin> set (lk_Prefix (le_key e)) \<and>
      fst (dList d s' (lk_Prefix (le_key e)) (page_opts (lk_Limit (le_key e)) (lk_Cursor (le_key e)))) =
      Inr (le_items e, le_nextCursor e)" if "page c' ?mk = Some e" for e
  proof (cases rule: cases)
    case (hit x)
    then have e: "e = x\<lparr>le_lastAccessed := clk 0\<rparr>" using that by simp
    have "CHR ''|'' \<notin> set (lk_Prefix (le_key x)) \<and>
      fst (dList d s' (lk_Prefix (le_key x)) (page_opts (lk_Limit (le_key x)) (lk_Cursor (le_key x)))) =
      Inr (le_items x, le_nextCursor x)" using cur' hit(1) by (auto simp: lc_current_def)
    then show ?thesis by (simp add: e)
  next
    case miss
    then have e: "le_key e = ?k" "r = Inr (le_items e, le_nextCursor e)"
      using that by (auto split: sum.splits prod.splits)
    have "fst (dList d s' p opts) = fst (dList d s p opts)" using list_local [OF ds(1) drv] ds(2) by simp
    then show ?thesis using e r opts q by (simp add: plain_query_def)
  qed
  show "lc_current d s' c'"
    unfolding lc_current_def
  proof (intro allI impI)
    fix mk e assume e: "page c' mk = Some e"
    show "CHR ''|'' \<notin> set (lk_Prefix (le_key e)) \<and>
      fst (dList d s' (lk_Prefix (le_key e)) (page_opts (lk_Limit (le_key e)) (lk_Cursor (le_key e)))) =
      Inr (le_items e, le_nextCursor e)"
    proof (cases "mk = ?mk")
      case False
      from cur' old [OF False e] show ?thesis by (auto simp: lc_current_def)
    qed (use e new in simp)
  qed
qed

lemma list_step_current:
  assumes b: "lc_bounded c" and cur: "lc_current d s c" and drv: "drv_ok s" and op: "plain_op op"
    and res: "list_step d op (s, c) = (s', c')"
  shows "lc_current d s' c' \<and> drv_ok s'"
proof (cases op)
  case (LPage clk p opts)
  obtain r where "ListCache_ListPage d clk p opts s c = (r, s', c')"
    using res LPage by (cases "ListCache_ListPage d clk p opts s c") auto
  from ListPage_current [OF b cur drv _ this] op LPage show ?thesis by auto
next
  case (LPut key v e)
  obtain r t where p: "dPut d s key v e = (r, t)" by fastforce
  note F = lput_frame [OF drv p]
  show ?thesis
  proof (cases r)
    case (Inl err)
    then show ?thesis using LPut res p F current_state [OF cur drv] by auto
  next
    case (Inr obj)
    then show ?thesis using LPut res p F current_InvalidateKey [OF _ cur drv] b by (auto simp: lc_bounded_def)
  qed
next
  case (LDelete key e)
  obtain r t where p: "dDelete d s key e = (r, t)" by fastforce
  note F = ldelete_frame [OF drv p]
  show ?thesis
  proof (cases r)
    case (Some err)
    then show ?thesis using LDelete res p F current_state [OF cur drv] by auto
  next
    case None
    then show ?thesis using LDelete res p F current_InvalidateKey [OF _ cur drv] b by (auto simp: lc_bounded_def)
  qed
next
  case (LInvalidatePrefix p)
  then show ?thesis using res cur drv invalidate_laws(4) [of c] b
    by (auto simp: lc_current_def InvalidatePrefix_def lc_bounded_def split: option.splits if_splits)
next
  case LPurge
  then show ?thesis using res drv Purge_laws(2) by (auto simp: lc_current_def)
qed

lemma list_run_current:
  "lc_bounded c \<Longrightarrow> lc_current d s c \<Longrightarrow> drv_ok s \<Longrightarrow> \<forall>op \<in> set ops. plain_op op \<Longrightarrow>
   list_run d ops (s, c) = (s', c') \<Longrightarrow> lc_bounded c' \<and> lc_current d s' c' \<and> drv_ok s'"
proof (induction ops arbitrary: s c)
  case (Cons op ops)
  obtain s1 c1 where st: "list_step d op (s, c) = (s1, c1)" by fastforce
  with Cons.prems have "list_run d ops (s1, c1) = (s', c')" by (simp add: list_run_def)
  with Cons.IH [of c1 s1] list_step_bounded [OF Cons.prems(1) st] list_step_current [OF Cons.prems(1-3) _ st]
    Cons.prems(4) show ?case by auto
qed (auto simp: list_run_def)

end

lemma NewListCache_bounded: "lc_bounded (NewListCache cfg)" "lc_current d s (NewListCache cfg)"
  using lc_ok_New by (auto simp: lc_bounded_def lc_current_def) (auto simp: NewListCache_def DefaultListMaxPages_def gl_Len_def gl_New_def)

section \<open>Properties\<close>



text \<open>
  The page cache is bounded. Whatever the sequence of operations and whatever the driver
  answers, the map and the LRU list describe the same pages and there are never more of them than
  the configured maximum, or 500 when none is configured.
\<close>

theorem list_cache_bounded:
  assumes "list_run d ops (s0, NewListCache cfg) = (s, c)"
  shows "int (ListCache_Size c) \<le> (if lcfg_MaxPages cfg \<le> 0 then 500 else lcfg_MaxPages cfg) \<and>
    ListCache_Size c = gl_Len (lc_lru c)"
  using list_run_bounded [OF NewListCache_bounded(1) assms] size_len [of c]
  by (auto simp: lc_bounded_def NewListCache_def DefaultListMaxPages_def)

theorem list_cache_bounded_witness:
  "let (s, c) = list_run (mem_driver (\<lambda>bs. bs)) [LPage (\<lambda>_. 0) ''a'' (page_opts 1 []), LPage (\<lambda>_. 0) ''b'' (page_opts 1 [])]
     (mem_NewDriver (\<lambda>_. 0), NewListCache \<lparr>lcfg_TTL = 0, lcfg_MaxPages = 1\<rparr>)
   in int (ListCache_Size c) \<le> 1"
proof -
  let ?d = "mem_driver (\<lambda>bs. bs)" and ?cfg = "\<lparr>lcfg_TTL = 0, lcfg_MaxPages = 1\<rparr> :: ListConfig"
  obtain s c where r: "list_run ?d [LPage (\<lambda>_. 0) ''a'' (page_opts 1 []), LPage (\<lambda>_. 0) ''b'' (page_opts 1 [])]
      (mem_NewDriver (\<lambda>_. 0), NewListCache ?cfg) = (s, c)" by fastforce
  show ?thesis using list_cache_bounded [OF r] by (simp add: r)
qed

text \<open>
  Two different listings can share a cache entry. The printed key does not quote the bar, so
  prefix a|b with cursor a and prefix a with cursor b|a print the same; and the key leaves out the
  delimiter. With the documents a|b|d and a|e stored, the page cached for the first query is
  served for the second, whose own answer is different.
\<close>

theorem list_cache_key_collision:
  "let put = (\<lambda>s k. snd (mem_Put (\<lambda>bs. bs) s k [] []));
       s = put (put (mem_NewDriver (\<lambda>_. 0)) ''a|b|d'') ''a|e'';
       d = mem_driver (\<lambda>bs. bs);
       (r, s1, c) = ListCache_ListPage d (\<lambda>_. 0) ''a|b'' (page_opts 9 ''a'') s (NewListCache \<lparr>lcfg_TTL = 0, lcfg_MaxPages = 0\<rparr>)
   in ListCacheKey_String \<lparr>lk_Prefix = ''a|b'', lk_Cursor = ''a'', lk_Limit = 9\<rparr> =
      ListCacheKey_String \<lparr>lk_Prefix = ''a'', lk_Cursor = ''b|a'', lk_Limit = 9\<rparr> \<and>
      map_sum id (map kmKey \<circ> fst) (fst (ListCache_ListPage d (\<lambda>_. 0) ''a'' (page_opts 9 ''b|a'') s1 c)) = Inr [''a|b|d''] \<and>
      map_sum id (map kmKey \<circ> fst) (fst (mem_List s1 ''a'' (page_opts 9 ''b|a''))) = Inr []"
  by code_simp

end
