(* ===== verification/BinaryProtocol.thy ===== *)
theory BinaryProtocol
  imports Storage
begin

text \<open>
  pkg/cluster/binary.go and the message types of pkg/cluster/mesh.go: the binary framing of the
  inter-query protocol. A writer builds its frame in a buffer, taken from a pool when it fits, by
  writing at offsets; the contents of the recycled buffer are a parameter, so that what a frame
  holds is proved and not assumed. A reader consumes a stream, the bytes up to its end, and
  returns the rest of it next to its result.
\<close>

section \<open>Messages\<close>

record InterQueryReq =
  rqNamespace :: string
  rqOp :: byte
  rqKey :: string
  rqValue :: bytes
  rqExpectedETag :: string
  rqTS :: "64 word"
  rqAuth :: string

record InterQueryResp =
  rpObject :: "Object option"
  rpErr :: string

definition protocolMagic :: byte where
  "protocolMagic = 0x4A"

definition protocolVer :: byte where
  "protocolVer = 1"

definition maxInt :: nat where
  "maxInt = 2 ^ 63 - 1"

section \<open>Writers\<close>

text \<open>Writing a slice that fits into a buffer at an offset: \<open>copy\<close> and the \<open>Put\<close> functions.\<close>

definition put_at :: "nat \<Rightarrow> bytes \<Rightarrow> bytes \<Rightarrow> bytes" where
  "put_at off bs buf = take off buf @ bs @ drop (off + length bs) buf"

text \<open>The running total of \<open>addPart\<close>, None when it would overflow an int.\<close>

fun add_parts :: "nat list \<Rightarrow> nat \<Rightarrow> nat option" where
  "add_parts [] totalLen = Some totalLen"
| "add_parts (n # ns) totalLen =
     (if n > maxInt \<or> totalLen > maxInt - n then None else add_parts ns (totalLen + n))"

definition frame_buffer :: "bytes \<Rightarrow> nat \<Rightarrow> bytes" where
  "frame_buffer pool totalLen = (if totalLen \<le> 65536 then take totalLen pool else replicate totalLen 0)"

definition writeBinaryReq :: "bytes \<Rightarrow> InterQueryReq \<Rightarrow> gerror + bytes" where
  "writeBinaryReq pool req =
     (let authB = bytes_of_string (rqAuth req);
          nsB = bytes_of_string (rqNamespace req);
          keyB = bytes_of_string (rqKey req);
          etagB = bytes_of_string (rqExpectedETag req);
          valB = rqValue req
      in if length authB > maxUint16 then Inl (ErrorMsg ''jaydb cluster: auth too large'')
         else if length nsB > maxUint16 then Inl (ErrorMsg ''jaydb cluster: namespace too large'')
         else if length keyB > maxUint16 then Inl (ErrorMsg ''jaydb cluster: key too large'')
         else if length etagB > maxUint16 then Inl (ErrorMsg ''jaydb cluster: expected etag too large'')
         else if length valB > maxUint32 then Inl (ErrorMsg ''jaydb cluster: value too large'')
         else (case add_parts [1, 1, 1, 8, 2, length authB, 2, length nsB, 2, length keyB, 2, length etagB,
                 4, length valB] 0 of
             None \<Rightarrow> Inl (ErrorMsg ''jaydb cluster: request too large'')
           | Some totalLen \<Rightarrow>
               let buf = frame_buffer pool totalLen;
                   buf = put_at 0 [protocolMagic] buf;
                   buf = put_at 1 [protocolVer] buf;
                   buf = put_at 2 [rqOp req] buf;
                   buf = put_at 3 (PutUint64 (rqTS req)) buf;
                   off = 11;
                   buf = put_at off (PutUint16 (word_of_nat (length authB))) buf;
                   off = off + 2;
                   buf = put_at off authB buf;
                   off = off + length authB;
                   buf = put_at off (PutUint16 (word_of_nat (length nsB))) buf;
                   off = off + 2;
                   buf = put_at off nsB buf;
                   off = off + length nsB;
                   buf = put_at off (PutUint16 (word_of_nat (length keyB))) buf;
                   off = off + 2;
                   buf = put_at off keyB buf;
                   off = off + length keyB;
                   buf = put_at off (PutUint16 (word_of_nat (length etagB))) buf;
                   off = off + 2;
                   buf = put_at off etagB buf;
                   off = off + length etagB;
                   buf = put_at off (PutUint32 (word_of_nat (length valB))) buf;
                   off = off + 4
               in Inr (put_at off valB buf)))"

text \<open>\<open>UnixNano\<close> reduces the instant to 64 bits.\<close>

definition UnixNano :: "gotime \<Rightarrow> 64 word" where
  "UnixNano t = word_of_int t"

definition writeBinaryResp :: "bytes \<Rightarrow> InterQueryResp \<Rightarrow> bytes" where
  "writeBinaryResp pool resp =
     (if rpErr resp \<noteq> [] then
        let errB = bytes_of_string (rpErr resp);
            buf = replicate (3 + 2 + length errB) 0;
            buf = put_at 0 [protocolMagic] buf;
            buf = put_at 1 [protocolVer] buf;
            buf = put_at 2 [1] buf;
            buf = put_at 3 (PutUint16 (word_of_nat (length errB))) buf
        in put_at 5 errB buf
      else (case rpObject resp of
          None \<Rightarrow> [protocolMagic, protocolVer, 0, 0]
        | Some obj \<Rightarrow>
            let keyB = bytes_of_string (oKey obj);
                etagB = bytes_of_string (oETag obj);
                valB = oValue obj;
                modNano = UnixNano (oModTime obj);
                totalLen = 3 + 1 + 2 + length keyB + 2 + length etagB + 8 + 4 + length valB;
                buf = frame_buffer pool totalLen;
                buf = put_at 0 [protocolMagic] buf;
                buf = put_at 1 [protocolVer] buf;
                buf = put_at 2 [0] buf;
                buf = put_at 3 [1] buf;
                off = 4;
                buf = put_at off (PutUint16 (word_of_nat (length keyB))) buf;
                off = off + 2;
                buf = put_at off keyB buf;
                off = off + length keyB;
                buf = put_at off (PutUint16 (word_of_nat (length etagB))) buf;
                off = off + 2;
                buf = put_at off etagB buf;
                off = off + length etagB;
                buf = put_at off (PutUint64 modNano) buf;
                off = off + 8;
                buf = put_at off (PutUint32 (word_of_nat (length valB))) buf;
                off = off + 4
            in put_at off valB buf))"

section \<open>Readers\<close>

type_synonym 'a read = "bytes \<Rightarrow> (gerror + 'a) \<times> bytes"

text \<open>\<open>io.ReadFull\<close> on a stream that ends after the given bytes.\<close>

definition ReadFull :: "nat \<Rightarrow> bytes read" where
  "ReadFull n s =
     (if n \<le> length s then (Inr (take n s), drop n s)
      else if s = [] then (Inl EOF, []) else (Inl ErrUnexpectedEOF, []))"

definition read_bind :: "'a read \<Rightarrow> ('a \<Rightarrow> 'b read) \<Rightarrow> 'b read" where
  "read_bind m f s = (case m s of (Inl e, s') \<Rightarrow> (Inl e, s') | (Inr a, s') \<Rightarrow> f a s')"

definition read_return :: "'a \<Rightarrow> 'a read" where
  "read_return a s = (Inr a, s)"

definition read_fail :: "gerror \<Rightarrow> 'a read" where
  "read_fail e s = (Inl e, s)"

text \<open>A length of two or four bytes, then that many bytes when it is positive.\<close>

definition read_field16 :: "bytes read" where
  "read_field16 =
     read_bind (ReadFull 2) (\<lambda>lBuf.
       let len = unat (Uint16 lBuf) in if len > 0 then ReadFull len else read_return [])"

definition read_field32 :: "bytes read" where
  "read_field32 =
     read_bind (ReadFull 4) (\<lambda>lBuf.
       let len = unat (Uint32 lBuf) in if len > 0 then ReadFull len else read_return [])"

definition readBinaryReq :: "InterQueryReq read" where
  "readBinaryReq =
     read_bind (ReadFull 11) (\<lambda>header.
       if header ! 0 \<noteq> protocolMagic then read_fail ErrInvalidMagic
       else if header ! 1 \<noteq> protocolVer then read_fail ErrInvalidVer
       else
         read_bind read_field16 (\<lambda>auth.
         read_bind read_field16 (\<lambda>ns.
         read_bind read_field16 (\<lambda>key.
         read_bind read_field16 (\<lambda>etag.
         read_bind read_field32 (\<lambda>val.
           read_return \<lparr>rqNamespace = string_of_bytes ns, rqOp = header ! 2, rqKey = string_of_bytes key,
             rqValue = val, rqExpectedETag = string_of_bytes etag, rqTS = Uint64 (drop 3 header),
             rqAuth = string_of_bytes auth\<rparr>))))))"

text \<open>The fields of a response are read without the test for an empty one.\<close>

definition read_bytes16 :: "bytes read" where
  "read_bytes16 = read_bind (ReadFull 2) (\<lambda>lBuf. ReadFull (unat (Uint16 lBuf)))"

definition readBinaryResp :: "InterQueryResp read" where
  "readBinaryResp =
     read_bind (ReadFull 3) (\<lambda>header.
       if header ! 0 \<noteq> protocolMagic then read_fail ErrInvalidMagic
       else if header ! 1 \<noteq> protocolVer then read_fail ErrInvalidVer
       else if header ! 2 = 1 then
         read_bind read_bytes16 (\<lambda>errBytes.
           read_return \<lparr>rpObject = None, rpErr = string_of_bytes errBytes\<rparr>)
       else
         read_bind (ReadFull 1) (\<lambda>hasObjBuf.
           if hasObjBuf ! 0 = 0 then read_return \<lparr>rpObject = None, rpErr = []\<rparr>
           else
             read_bind read_bytes16 (\<lambda>key.
             read_bind read_bytes16 (\<lambda>etag.
             read_bind (ReadFull 8) (\<lambda>nanoBuf.
             read_bind read_field32 (\<lambda>val.
               read_return \<lparr>rpObject = Some \<lparr>oKey = string_of_bytes key, oValue = val,
                   oETag = string_of_bytes etag, oModTime = sint (Uint64 nanoBuf), oMetadata = []\<rparr>,
                 rpErr = []\<rparr>))))))"

section \<open>Frames\<close>

text \<open>A frame as the sequence of its fields.\<close>

definition field16 :: "bytes \<Rightarrow> bytes" where
  "field16 bs = PutUint16 (word_of_nat (length bs)) @ bs"

definition field32 :: "bytes \<Rightarrow> bytes" where
  "field32 bs = PutUint32 (word_of_nat (length bs)) @ bs"

definition req_frame :: "InterQueryReq \<Rightarrow> bytes" where
  "req_frame req =
     [protocolMagic, protocolVer, rqOp req] @ PutUint64 (rqTS req) @
     field16 (bytes_of_string (rqAuth req)) @ field16 (bytes_of_string (rqNamespace req)) @
     field16 (bytes_of_string (rqKey req)) @ field16 (bytes_of_string (rqExpectedETag req)) @ field32 (rqValue req)"

definition obj_frame :: "Object \<Rightarrow> bytes" where
  "obj_frame obj =
     [protocolMagic, protocolVer, 0, 1] @ field16 (bytes_of_string (oKey obj)) @
     field16 (bytes_of_string (oETag obj)) @ PutUint64 (UnixNano (oModTime obj)) @ field32 (oValue obj)"

definition err_frame :: "string \<Rightarrow> bytes" where
  "err_frame err = [protocolMagic, protocolVer, 1] @ field16 (bytes_of_string err)"

lemma put_at_append [simp]: "length pre = off \<Longrightarrow> put_at off bs (pre @ rest) = pre @ bs @ drop (length bs) rest"
  by (simp add: put_at_def)

text \<open>Writing adjacent slices that together fill the buffer leaves nothing of what was in it.\<close>

lemma put_at_next: "put_at (off + length a) b (put_at off a buf) = put_at off (a @ b) buf" if "off \<le> length buf"
  using that by (simp add: put_at_def min_def ac_simps)

lemma put_at_all: "length bs = length buf \<Longrightarrow> put_at 0 bs buf = bs"
  by (simp add: put_at_def)

lemma put_at_next':
  "off \<le> length buf \<Longrightarrow> n = off + length a \<Longrightarrow> put_at n b (put_at off a buf) = put_at off (a @ b) buf"
  by (simp add: put_at_next)

lemma length_fields [simp]: "length (field16 bs) = 2 + length bs" "length (field32 bs) = 4 + length bs"
  by (simp_all add: field16_def field32_def length_PutUint)

definition req_fits :: "InterQueryReq \<Rightarrow> bool" where
  "req_fits req \<longleftrightarrow> length (rqAuth req) \<le> maxUint16 \<and> length (rqNamespace req) \<le> maxUint16 \<and>
     length (rqKey req) \<le> maxUint16 \<and> length (rqExpectedETag req) \<le> maxUint16 \<and> length (rqValue req) \<le> maxUint32"

lemma frame_buffer_length: "length pool = 65536 \<Longrightarrow> length (frame_buffer pool n) = n"
  by (simp add: frame_buffer_def)

lemma add_parts_sum: "totalLen + sum_list ns \<le> maxInt \<Longrightarrow> add_parts ns totalLen = Some (totalLen + sum_list ns)"
  by (induction ns arbitrary: totalLen) auto

lemma writeBinaryReq_frame:
  assumes "length pool = 65536" and "req_fits req"
  shows "writeBinaryReq pool req = Inr (req_frame req)"
proof -
  have buf: "length (frame_buffer pool n) = n" for n using assms(1) by (rule frame_buffer_length)
  let ?parts = "[1, 1, 1, 8, 2, length (rqAuth req), 2, length (rqNamespace req), 2, length (rqKey req), 2,
    length (rqExpectedETag req), 4, length (rqValue req)]"
  have parts: "add_parts ?parts 0 = Some (sum_list ?parts)"
    using add_parts_sum [of 0 ?parts] assms(2) by (simp add: req_fits_def maxInt_def)
  have len: "length (rqAuth req) \<le> maxUint16" "length (rqNamespace req) \<le> maxUint16" "length (rqKey req) \<le> maxUint16"
    "length (rqExpectedETag req) \<le> maxUint16" "length (rqValue req) \<le> maxUint32"
    using assms(2) by (simp_all add: req_fits_def)
  then have "writeBinaryReq pool req = Inr (put_at 0 (req_frame req) (frame_buffer pool (sum_list ?parts)))"
    unfolding writeBinaryReq_def Let_def length_bytes_of_string parts
    by (simp add: put_at_next' req_frame_def field16_def field32_def)
  then show ?thesis by (simp add: put_at_all buf req_frame_def)
qed

lemma writeBinaryReq_too_large:
  "\<not> req_fits req \<Longrightarrow> \<exists>msg. writeBinaryReq pool req = Inl (ErrorMsg msg)"
  by (auto simp: writeBinaryReq_def req_fits_def Let_def)

lemma writeBinaryResp_frame:
  assumes "length pool = 65536"
  shows "rpErr resp \<noteq> [] \<Longrightarrow> writeBinaryResp pool resp = err_frame (rpErr resp)"
    "rpErr resp = [] \<Longrightarrow> rpObject resp = Some obj \<Longrightarrow> writeBinaryResp pool resp = obj_frame obj"
  using frame_buffer_length [OF assms]
  by (simp_all add: writeBinaryResp_def Let_def put_at_next' put_at_all obj_frame_def err_frame_def field16_def field32_def)

lemma writeBinaryResp_empty:
  "rpErr resp = [] \<Longrightarrow> rpObject resp = None \<Longrightarrow> writeBinaryResp pool resp = [protocolMagic, protocolVer, 0, 0]"
  by (simp add: writeBinaryResp_def)

section \<open>Reading back\<close>

text \<open>
  A reader reads a frame as \<open>a\<close> when it takes exactly that frame off any stream that starts with
  it, and reports the end of the stream on every proper prefix of it.
\<close>

definition reads :: "'a read \<Rightarrow> bytes \<Rightarrow> 'a \<Rightarrow> bool" where
  "reads m fr a \<longleftrightarrow> (\<forall>rest. m (fr @ rest) = (Inr a, rest)) \<and>
     (\<forall>n < length fr. m (take n fr) = (Inl EOF, []) \<or> m (take n fr) = (Inl ErrUnexpectedEOF, []))"

lemma readsD:
  assumes "reads m fr a"
  shows "m (fr @ rest) = (Inr a, rest)"
    "n < length fr \<Longrightarrow> m (take n fr) = (Inl EOF, []) \<or> m (take n fr) = (Inl ErrUnexpectedEOF, [])"
  using assms by (auto simp: reads_def)

lemma reads_return: "reads (read_return a) [] a"
  by (simp add: reads_def read_return_def)

lemma reads_ReadFull: "length bs = n \<Longrightarrow> reads (ReadFull n) bs bs"
  by (auto simp: reads_def ReadFull_def)

lemma reads_bind:
  assumes "reads m fr a" and "reads (f a) fr2 b"
  shows "reads (read_bind m f) (fr @ fr2) b"
  unfolding reads_def
proof (intro conjI allI impI)
  show "read_bind m f ((fr @ fr2) @ rest) = (Inr b, rest)" for rest
    using readsD(1) [OF assms(1), of "fr2 @ rest"] readsD(1) [OF assms(2)] by (simp add: read_bind_def)
  fix n assume n: "n < length (fr @ fr2)"
  show "read_bind m f (take n (fr @ fr2)) = (Inl EOF, []) \<or> read_bind m f (take n (fr @ fr2)) = (Inl ErrUnexpectedEOF, [])"
  proof (cases "n < length fr")
    case True
    then show ?thesis using readsD(2) [OF assms(1) True] by (auto simp: read_bind_def)
  next
    case False
    then have "take n (fr @ fr2) = fr @ take (n - length fr) fr2" "n - length fr < length fr2" using n by auto
    with readsD(1) [OF assms(1), of "take (n - length fr) fr2"] readsD(2) [OF assms(2), of "n - length fr"]
    show ?thesis by (auto simp: read_bind_def)
  qed
qed

lemma unat_word_of_nat_le [simp]:
  "n \<le> maxUint16 \<Longrightarrow> unat (word_of_nat n :: 16 word) = n" "n \<le> maxUint32 \<Longrightarrow> unat (word_of_nat n :: 32 word) = n"
  by (simp_all add: unat_of_nat)

lemma reads_field16: "length bs \<le> maxUint16 \<Longrightarrow> reads read_field16 (field16 bs) bs"
  unfolding read_field16_def field16_def
  by (rule reads_bind [OF reads_ReadFull]) (auto simp: Let_def reads_ReadFull reads_return)

lemma reads_field32: "length bs \<le> maxUint32 \<Longrightarrow> reads read_field32 (field32 bs) bs"
  unfolding read_field32_def field32_def
  by (rule reads_bind [OF reads_ReadFull]) (auto simp: Let_def reads_ReadFull reads_return)

lemma reads_bytes16: "length bs \<le> maxUint16 \<Longrightarrow> reads read_bytes16 (field16 bs) bs"
  unfolding read_bytes16_def field16_def
  by (rule reads_bind [OF reads_ReadFull]) (auto simp: reads_ReadFull)

text \<open>The last step of a chain of readers ends its frame.\<close>

lemma reads_last: "reads m fr a \<Longrightarrow> f a = read_return b \<Longrightarrow> reads (read_bind m f) fr b"
  using reads_bind [of m fr a f "[]" b] reads_return by fastforce

lemma reads_req:
  assumes "req_fits req"
  shows "reads readBinaryReq (req_frame req) req"
proof -
  let ?h = "[protocolMagic, protocolVer, rqOp req] @ PutUint64 (rqTS req)"
  have h: "?h ! 0 = protocolMagic" "?h ! 1 = protocolVer" "?h ! 2 = rqOp req" "drop 3 ?h = PutUint64 (rqTS req)"
    by simp_all
  have len: "length (bytes_of_string (rqAuth req)) \<le> maxUint16" "length (bytes_of_string (rqNamespace req)) \<le> maxUint16"
    "length (bytes_of_string (rqKey req)) \<le> maxUint16" "length (bytes_of_string (rqExpectedETag req)) \<le> maxUint16"
    "length (rqValue req) \<le> maxUint32"
    using assms by (simp_all add: req_fits_def)
  have "reads readBinaryReq (?h @ field16 (bytes_of_string (rqAuth req)) @ field16 (bytes_of_string (rqNamespace req)) @
     field16 (bytes_of_string (rqKey req)) @ field16 (bytes_of_string (rqExpectedETag req)) @ field32 (rqValue req)) req"
    unfolding readBinaryReq_def
    apply (rule reads_bind [OF reads_ReadFull], simp)
    apply (simp only: h if_False if_True simp_thms)
    by (intro reads_bind [OF reads_field16 [OF len(1)]] reads_bind [OF reads_field16 [OF len(2)]]
        reads_bind [OF reads_field16 [OF len(3)]] reads_bind [OF reads_field16 [OF len(4)]]
        reads_last [OF reads_field32 [OF len(5)]]) (cases req, simp)
  then show ?thesis by (simp add: req_frame_def)
qed

definition obj_fits :: "Object \<Rightarrow> bool" where
  "obj_fits obj \<longleftrightarrow> length (oKey obj) \<le> maxUint16 \<and> length (oETag obj) \<le> maxUint16 \<and>
     length (oValue obj) \<le> maxUint32 \<and> - (2 ^ 63) \<le> oModTime obj \<and> oModTime obj < 2 ^ 63 \<and> oMetadata obj = []"

lemma sint_UnixNano: "- (2 ^ 63) \<le> t \<Longrightarrow> t < 2 ^ 63 \<Longrightarrow> sint (UnixNano t) = t"
  by (simp add: UnixNano_def signed_of_int signed_take_bit_int_eq_self)

lemma reads_obj:
  assumes "obj_fits obj"
  shows "reads readBinaryResp (obj_frame obj) \<lparr>rpObject = Some obj, rpErr = []\<rparr>"
proof -
  have len: "length (bytes_of_string (oKey obj)) \<le> maxUint16" "length (bytes_of_string (oETag obj)) \<le> maxUint16"
    "length (PutUint64 (UnixNano (oModTime obj))) = 8" "length (oValue obj) \<le> maxUint32"
    using assms by (simp_all add: obj_fits_def)
  have "reads readBinaryResp ([protocolMagic, protocolVer, 0] @ [1] @ field16 (bytes_of_string (oKey obj)) @
      field16 (bytes_of_string (oETag obj)) @ PutUint64 (UnixNano (oModTime obj)) @ field32 (oValue obj))
    \<lparr>rpObject = Some obj, rpErr = []\<rparr>"
    unfolding readBinaryResp_def
    apply (rule reads_bind [OF reads_ReadFull], simp, simp)
    apply (rule reads_bind [where fr = "[1]", simplified, OF reads_ReadFull], simp, simp)
    by (intro reads_bind [OF reads_bytes16 [OF len(1)]] reads_bind [OF reads_bytes16 [OF len(2)]]
        reads_bind [OF reads_ReadFull [OF len(3)]] reads_last [OF reads_field32 [OF len(4)]])
      (use assms in \<open>cases obj, simp add: obj_fits_def sint_UnixNano\<close>)
  then show ?thesis by (simp add: obj_frame_def)
qed

lemma reads_err:
  assumes "length err \<le> maxUint16"
  shows "reads readBinaryResp (err_frame err) \<lparr>rpObject = None, rpErr = err\<rparr>"
  unfolding readBinaryResp_def err_frame_def
  apply (rule reads_bind [OF reads_ReadFull], simp, simp)
  using assms by (auto intro!: reads_last [OF reads_bytes16])

lemma reads_empty: "reads readBinaryResp [protocolMagic, protocolVer, 0, 0] \<lparr>rpObject = None, rpErr = []\<rparr>"
proof -
  have "reads readBinaryResp ([protocolMagic, protocolVer, 0] @ [0]) \<lparr>rpObject = None, rpErr = []\<rparr>"
    unfolding readBinaryResp_def
    apply (rule reads_bind [OF reads_ReadFull], simp, simp)
    by (auto intro!: reads_last [OF reads_ReadFull])
  then show ?thesis by simp
qed

section \<open>Properties\<close>

text \<open>
  C30: requests survive the wire. A request whose fields fit the length prefixes is always encoded,
  the frame depends on nothing left over in the recycled buffer, a reader takes exactly this
  request off any stream that starts with the frame and leaves the next bytes untouched, and a
  frame cut off anywhere is reported as an end of stream, never as a request.
\<close>

theorem binary_req_roundtrip:
  assumes "length pool = 65536" and "length (rqAuth req) \<le> 65535" and "length (rqNamespace req) \<le> 65535"
    and "length (rqKey req) \<le> 65535" and "length (rqExpectedETag req) \<le> 65535" and "length (rqValue req) \<le> 4294967295"
  shows "\<exists>fr. writeBinaryReq pool req = Inr fr \<and> (\<forall>rest. readBinaryReq (fr @ rest) = (Inr req, rest)) \<and>
    (\<forall>n < length fr. fst (readBinaryReq (take n fr)) \<in> {Inl EOF, Inl ErrUnexpectedEOF})"
proof -
  have fits: "req_fits req" using assms by (simp add: req_fits_def)
  have "writeBinaryReq pool req = Inr (req_frame req)" using writeBinaryReq_frame [OF assms(1) fits] .
  with readsD [OF reads_req [OF fits]] show ?thesis by fastforce
qed

theorem binary_req_roundtrip_witness:
  "let req = \<lparr>rqNamespace = ''ns'', rqOp = 2, rqKey = ''k'', rqValue = [1, 2], rqExpectedETag = ''*'', rqTS = - 1, rqAuth = []\<rparr>
   in \<exists>fr. writeBinaryReq (replicate 65536 7) req = Inr fr \<and> readBinaryReq (fr @ [9]) = (Inr req, [9])"
  using binary_req_roundtrip [of "replicate 65536 7"
    "\<lparr>rqNamespace = ''ns'', rqOp = 2, rqKey = ''k'', rqValue = [1, 2], rqExpectedETag = ''*'', rqTS = - 1, rqAuth = []\<rparr>"]
  by auto

text \<open>
  A request that does not fit is refused. The writer reports an error, and writes nothing, if
  and only if one of the five fields exceeds its length prefix.
\<close>

theorem binary_req_refused:
  assumes "length pool = 65536"
  shows "(\<exists>e. writeBinaryReq pool req = Inl e) \<longleftrightarrow>
    65535 < length (rqAuth req) \<or> 65535 < length (rqNamespace req) \<or> 65535 < length (rqKey req) \<or>
    65535 < length (rqExpectedETag req) \<or> 4294967295 < length (rqValue req)"
proof (cases "req_fits req")
  case True
  then show ?thesis using writeBinaryReq_frame [OF assms] by (auto simp: req_fits_def)
next
  case False
  then show ?thesis using writeBinaryReq_too_large [of req pool] by (auto simp: req_fits_def)
qed

theorem binary_req_refused_witness:
  "\<exists>e. writeBinaryReq (replicate 65536 0)
     \<lparr>rqNamespace = [], rqOp = 1, rqKey = replicate 65536 (CHR ''k''), rqValue = [], rqExpectedETag = [], rqTS = 0, rqAuth = []\<rparr> = Inl e"
  using binary_req_refused [of "replicate 65536 0"
    "\<lparr>rqNamespace = [], rqOp = 1, rqKey = replicate 65536 (CHR ''k''), rqValue = [], rqExpectedETag = [], rqTS = 0, rqAuth = []\<rparr>"]
  by simp

text \<open>
  C31: responses survive the wire. An error of at most 65535 bytes, an empty response, and an
  object without metadata whose key and ETag fit and whose time is within 64-bit nanoseconds are
  read back exactly, whatever the recycled buffer held, and a cut-off frame is an end of stream.
\<close>

theorem binary_resp_roundtrip:
  assumes "length pool = 65536"
    and "rpErr resp = [] \<or> length (rpErr resp) \<le> 65535 \<and> rpObject resp = None"
    and "\<forall>obj. rpObject resp = Some obj \<longrightarrow> length (oKey obj) \<le> 65535 \<and> length (oETag obj) \<le> 65535 \<and>
      length (oValue obj) \<le> 4294967295 \<and> - (2 ^ 63) \<le> oModTime obj \<and> oModTime obj < 2 ^ 63 \<and> oMetadata obj = []"
  shows "(\<forall>rest. readBinaryResp (writeBinaryResp pool resp @ rest) = (Inr resp, rest)) \<and>
    (\<forall>n < length (writeBinaryResp pool resp).
       fst (readBinaryResp (take n (writeBinaryResp pool resp))) \<in> {Inl EOF, Inl ErrUnexpectedEOF})"
proof -
  have "reads readBinaryResp (writeBinaryResp pool resp) resp"
  proof (cases "rpErr resp = []")
    case False
    then have "reads readBinaryResp (err_frame (rpErr resp)) \<lparr>rpObject = None, rpErr = rpErr resp\<rparr>"
      using assms(2) by (intro reads_err) auto
    moreover have "\<lparr>rpObject = None, rpErr = rpErr resp\<rparr> = resp" using False assms(2) by (cases resp) auto
    ultimately show ?thesis using writeBinaryResp_frame(1) [OF assms(1) False] by simp
  next
    case True
    show ?thesis
    proof (cases "rpObject resp")
      case None
      then have "\<lparr>rpObject = None, rpErr = []\<rparr> = resp" using True by (cases resp) auto
      then show ?thesis using reads_empty None True by (metis writeBinaryResp_empty)
    next
      case (Some obj)
      then have "\<lparr>rpObject = Some obj, rpErr = []\<rparr> = resp" using True by (cases resp) auto
      moreover have "obj_fits obj" using assms(3) Some by (simp add: obj_fits_def)
      ultimately show ?thesis
        using reads_obj [of obj] writeBinaryResp_frame(2) [OF assms(1) True Some] by simp
    qed
  qed
  from readsD [OF this] show ?thesis by fastforce
qed

theorem binary_resp_roundtrip_witness:
  "let resp = \<lparr>rpObject = Some \<lparr>oKey = ''k'', oValue = [1], oETag = ''e'', oModTime = - 5, oMetadata = []\<rparr>, rpErr = []\<rparr>
   in readBinaryResp (writeBinaryResp (replicate 65536 7) resp) = (Inr resp, [])"
  using binary_resp_roundtrip [of "replicate 65536 7"
    "\<lparr>rpObject = Some \<lparr>oKey = ''k'', oValue = [1], oETag = ''e'', oModTime = - 5, oMetadata = []\<rparr>, rpErr = []\<rparr>"]
  by (auto dest: spec [of _ "[]"])

text \<open>
  The length of an error message is not checked. An error of 65536 bytes is written with
  length zero, so the other side reads an empty response, which a forwarded Delete takes for
  success, and the message itself is left in the stream in front of the next response.
\<close>

theorem binary_resp_long_error_lost:
  "length err = 65536 \<Longrightarrow>
   readBinaryResp (writeBinaryResp pool \<lparr>rpObject = None, rpErr = err\<rparr>) =
     (Inr \<lparr>rpObject = None, rpErr = []\<rparr>, bytes_of_string err)"
proof -
  assume len: "length err = 65536"
  have w: "writeBinaryResp pool \<lparr>rpObject = None, rpErr = err\<rparr> = err_frame err"
    using len by (auto simp: writeBinaryResp_def Let_def put_at_next' put_at_all err_frame_def field16_def)
  have "(word_of_nat 65536 :: 16 word) = word_of_nat 0" by (simp only: word_of_nat_eq_iff) simp
  then have "err_frame err = err_frame [] @ bytes_of_string err"
    unfolding err_frame_def field16_def length_bytes_of_string len by (simp only: list.size) simp
  with w readsD(1) [OF reads_err, of "[]"] show ?thesis by simp
qed

theorem binary_resp_long_error_lost_witness:
  "readBinaryResp (writeBinaryResp [] \<lparr>rpObject = None, rpErr = replicate 65536 (CHR ''x'')\<rparr>) =
     (Inr \<lparr>rpObject = None, rpErr = []\<rparr>, bytes_of_string (replicate 65536 (CHR ''x'')))"
  using binary_resp_long_error_lost [of "replicate 65536 (CHR ''x'')" "[]"] by simp

end
