(* ===== verification/Mesh.thy ===== *)
theory Mesh
  imports BinaryProtocol Sharding MemoryDriver
begin

text \<open>
  pkg/cluster/mesh.go: the handlers of a node, the authentication of forwarded requests, the
  server loop of a connection, the forwarding call and the membership callbacks. The databases
  behind the handlers are addresses \<open>'h\<close> whose methods act on a state \<open>'s\<close>. Outside the repository
  and therefore parameters: \<open>hmac\<close> and \<open>sha\<close> (the HMAC-SHA256 and SHA-256 functions), \<open>quote\<close> (the
  printed form of \<open>%q\<close>), the clock, and the transport of a round trip. The life of a
  node with its pool and listener is the subject of the theory \<open>NodeLifecycle\<close>.
\<close>

section \<open>Definitions\<close>

definition OpGet :: byte where "OpGet = 1"
definition OpPut :: byte where "OpPut = 2"
definition OpDelete :: byte where "OpDelete = 3"

definition defaultMeshPort :: int where
  "defaultMeshPort = 7947"

definition authSkew :: duration where
  "authSkew = 30 * 1000000000"

definition ErrNoHandler :: string where
  "ErrNoHandler = ''jaydb cluster: no DB handler registered for namespace''"

record 's Handler =
  hGetRaw :: "'s \<Rightarrow> string \<Rightarrow> (gerror + Object option) \<times> 's"
  hPutRaw :: "'s \<Rightarrow> string \<Rightarrow> bytes \<Rightarrow> string \<Rightarrow> (gerror + Object option) \<times> 's"
  hDeleteRaw :: "'s \<Rightarrow> string \<Rightarrow> string \<Rightarrow> gerror option \<times> 's"

record 'h NodeConfig =
  nc_BindAddr :: string
  nc_DBHandler :: "'h option"
  nc_ClusterSecret :: string
  nc_DialTimeout :: duration
  nc_StreamOpenTimeout :: duration
  nc_RequestTimeout :: duration

definition defaultDialTimeout :: duration where
  "defaultDialTimeout = 3 * 1000000000"

definition defaultStreamOpenTimeout :: duration where
  "defaultStreamOpenTimeout = 100 * 1000000"

definition defaultRequestTimeout :: duration where
  "defaultRequestTimeout = 10 * 1000000000"

definition dialTimeout :: "'h NodeConfig \<Rightarrow> duration" where
  "dialTimeout c = (if nc_DialTimeout c > 0 then nc_DialTimeout c else defaultDialTimeout)"

definition streamOpenTimeout :: "'h NodeConfig \<Rightarrow> duration" where
  "streamOpenTimeout c =
     (if nc_StreamOpenTimeout c > 0 then nc_StreamOpenTimeout c else defaultStreamOpenTimeout)"

definition requestTimeout :: "'h NodeConfig \<Rightarrow> duration" where
  "requestTimeout c = (if nc_RequestTimeout c > 0 then nc_RequestTimeout c else defaultRequestTimeout)"

record 'h Node =
  nd_cfg :: "'h NodeConfig"
  nd_meshPort :: int
  nd_handlers :: "(string, 'h) gomap"
  nd_ring :: Ring
  nd_peers :: "string list"

definition RegisterHandler :: "string \<Rightarrow> 'h \<Rightarrow> 'h Node \<Rightarrow> 'h Node" where
  "RegisterHandler namespace h n = n\<lparr>nd_handlers := AList.update namespace h (nd_handlers n)\<rparr>"

definition UnregisterHandler :: "string \<Rightarrow> 'h Node \<Rightarrow> 'h Node" where
  "UnregisterHandler namespace n = n\<lparr>nd_handlers := AList.delete namespace (nd_handlers n)\<rparr>"

definition handlerFor :: "'h Node \<Rightarrow> string \<Rightarrow> 'h option" where
  "handlerFor n namespace =
     (case map_of (nd_handlers n) namespace of
        Some h \<Rightarrow> Some h
      | None \<Rightarrow> nc_DBHandler (nd_cfg n))"

definition SelfMeshAddr :: "'h Node \<Rightarrow> string" where
  "SelfMeshAddr n = nc_BindAddr (nd_cfg n) @ '':'' @ show_int (nd_meshPort n)"

definition getMeshPort :: "bytes \<Rightarrow> int" where
  "getMeshPort meta = (if length meta \<ge> 2 then uint (Uint16 (take 2 meta)) else defaultMeshPort)"

text \<open>
  The membership callbacks: the address of a member is its IP and the port in its metadata. Of
  the connection pool only the set of peers is kept.
\<close>

definition member_addr :: "string \<Rightarrow> bytes \<Rightarrow> string" where
  "member_addr ip meta = ip @ '':'' @ show_int (getMeshPort meta)"

definition pool_add :: "string \<Rightarrow> string list \<Rightarrow> string list" where
  "pool_add a peers = (if a = [] \<or> a \<in> set peers then peers else peers @ [a])"

definition NotifyJoin :: "string \<Rightarrow> bytes \<Rightarrow> 'h Node \<Rightarrow> 'h Node" where
  "NotifyJoin ip meta n =
     (let meshAddr = member_addr ip meta;
          n1 = n\<lparr>nd_ring := AddNode meshAddr (nd_ring n)\<rparr>
      in if meshAddr \<noteq> SelfMeshAddr n then n1\<lparr>nd_peers := pool_add meshAddr (nd_peers n)\<rparr> else n1)"

definition NotifyLeave :: "string \<Rightarrow> bytes \<Rightarrow> 'h Node \<Rightarrow> 'h Node" where
  "NotifyLeave ip meta n =
     (let meshAddr = member_addr ip meta in
      n\<lparr>nd_ring := RemoveNode meshAddr (nd_ring n), nd_peers := removeAll meshAddr (nd_peers n)\<rparr>)"

definition NotifyUpdate :: "string \<Rightarrow> bytes \<Rightarrow> 'h Node \<Rightarrow> 'h Node" where
  "NotifyUpdate ip meta n =
     (let meshAddr = member_addr ip meta;
          n1 = n\<lparr>nd_ring := AddNode meshAddr (nd_ring n)\<rparr>
      in if meshAddr \<noteq> SelfMeshAddr n then n1\<lparr>nd_peers := pool_add meshAddr (nd_peers n)\<rparr> else n1)"

definition node_IsOwner :: "'h Node \<Rightarrow> string \<Rightarrow> bool" where
  "node_IsOwner n key = IsOwner (nd_ring n) key (SelfMeshAddr n)"

definition canonical :: "(bytes \<Rightarrow> bytes) \<Rightarrow> InterQueryReq \<Rightarrow> string" where
  "canonical sha req =
     rqNamespace req @ '':'' @ show_int (uint (rqOp req)) @ '':'' @ rqKey req @ '':'' @ rqExpectedETag req @ '':'' @
     hex_of_bytes (sha (rqValue req)) @ '':'' @ show_int (sint (rqTS req))"

definition computeAuth ::
  "(bytes \<Rightarrow> bytes \<Rightarrow> bytes) \<Rightarrow> (bytes \<Rightarrow> bytes) \<Rightarrow> string \<Rightarrow> InterQueryReq \<Rightarrow> string" where
  "computeAuth hmac sha secret req =
     hex_of_bytes (hmac (bytes_of_string secret) (bytes_of_string (canonical sha req)))"

text \<open>
  \<open>time.Since\<close> saturates at the range of a Duration; the unary minus on a Duration wraps, so the
  least Duration is its own negation.
\<close>

definition maxDuration :: duration where
  "maxDuration = 2 ^ 63 - 1"

definition minDuration :: duration where
  "minDuration = - (2 ^ 63)"

definition time_Sub :: "gotime \<Rightarrow> gotime \<Rightarrow> duration" where
  "time_Sub t u = (if t - u > maxDuration then maxDuration else if t - u < minDuration then minDuration else t - u)"

definition neg_duration :: "duration \<Rightarrow> duration" where
  "neg_duration d = (if d = minDuration then minDuration else - d)"

definition authenticate ::
  "(bytes \<Rightarrow> bytes \<Rightarrow> bytes) \<Rightarrow> (bytes \<Rightarrow> bytes) \<Rightarrow> gotime \<Rightarrow> 'h Node \<Rightarrow> InterQueryReq \<Rightarrow> gerror option" where
  "authenticate hmac sha now n req =
     (let secret = nc_ClusterSecret (nd_cfg n) in
      if secret = [] then None
      else if rqAuth req = [] then Some ErrUnauthenticated
      else
        let skew = time_Sub now (sint (rqTS req) * 1000000000);
            skew = (if skew < 0 then neg_duration skew else skew)
        in if skew > authSkew then Some ErrUnauthenticated
           else if computeAuth hmac sha secret req \<noteq> rqAuth req then Some ErrUnauthenticated
           else None)"

definition resp_err :: "string \<Rightarrow> InterQueryResp" where
  "resp_err e = \<lparr>rpObject = None, rpErr = e\<rparr>"

definition dispatch :: "'s Handler \<Rightarrow> InterQueryReq \<Rightarrow> 's \<Rightarrow> InterQueryResp \<times> 's" where
  "dispatch handler req s =
     (if rqOp req = OpGet then
        (case hGetRaw handler s (rqKey req) of
           (Inl err, s') \<Rightarrow> (resp_err (Error err), s')
         | (Inr None, s') \<Rightarrow> (resp_err (Error ErrNotFound), s')
         | (Inr (Some obj), s') \<Rightarrow> (\<lparr>rpObject = Some obj, rpErr = []\<rparr>, s'))
      else if rqOp req = OpPut then
        (case hPutRaw handler s (rqKey req) (rqValue req) (rqExpectedETag req) of
           (Inl err, s') \<Rightarrow> (resp_err (Error err), s')
         | (Inr None, s') \<Rightarrow> (resp_err ''jaydb cluster: put returned no object'', s')
         | (Inr (Some obj), s') \<Rightarrow> (\<lparr>rpObject = Some obj, rpErr = []\<rparr>, s'))
      else if rqOp req = OpDelete then
        (case hDeleteRaw handler s (rqKey req) (rqExpectedETag req) of
           (Some err, s') \<Rightarrow> (resp_err (Error err), s')
         | (None, s') \<Rightarrow> (\<lparr>rpObject = None, rpErr = []\<rparr>, s'))
      else (resp_err (''jaydb cluster: unknown op '' @ show_int (uint (rqOp req))), s))"

record crypto =
  c_hmac :: "bytes \<Rightarrow> bytes \<Rightarrow> bytes"
  c_sha :: "bytes \<Rightarrow> bytes"
  c_quote :: "string \<Rightarrow> string"

definition serve ::
  "crypto \<Rightarrow> ('h \<Rightarrow> 's Handler) \<Rightarrow> gotime \<Rightarrow> 'h Node \<Rightarrow> InterQueryReq \<Rightarrow> 's \<Rightarrow> InterQueryResp \<times> 's" where
  "serve cr meth now n req s =
     (case authenticate (c_hmac cr) (c_sha cr) now n req of
        Some err \<Rightarrow> (resp_err (Error err), s)
      | None \<Rightarrow>
          (case handlerFor n (rqNamespace req) of
             None \<Rightarrow> (resp_err (ErrNoHandler @ '' '' @ c_quote cr (rqNamespace req)), s)
           | Some h \<Rightarrow> dispatch (meth h) req s))"

lemma ReadFull_shrinks: "ReadFull n s = (r, s') \<Longrightarrow> length s' \<le> length s"
  by (auto simp: ReadFull_def split: if_splits)

lemma read_bind_shrinks:
  assumes "\<And>r s'. m s = (r, s') \<Longrightarrow> length s' \<le> length s" and "\<And>a t r s'. f a t = (r, s') \<Longrightarrow> length s' \<le> length t"
  shows "read_bind m f s = (r, s') \<Longrightarrow> length s' \<le> length s"
  using assms by (fastforce simp: read_bind_def split: prod.splits sum.splits)

lemma field_shrinks: "read_field16 s = (r, s') \<Longrightarrow> length s' \<le> length s" "read_field32 s = (r, s') \<Longrightarrow> length s' \<le> length s"
  unfolding read_field16_def read_field32_def
  by (erule read_bind_shrinks [rotated 2]; auto simp: read_return_def Let_def dest: ReadFull_shrinks split: if_splits)+

lemma readBinaryReq_consumes: "readBinaryReq s = (Inr req, rest) \<Longrightarrow> length rest < length s"
proof -
  assume r: "readBinaryReq s = (Inr req, rest)"
  have len: "11 \<le> length s"
    using r by (auto simp: readBinaryReq_def read_bind_def ReadFull_def split: if_splits)
  let ?g = "\<lambda>auth. read_bind read_field16 (\<lambda>ns. read_bind read_field16 (\<lambda>key. read_bind read_field16 (\<lambda>etag.
         read_bind read_field32 (\<lambda>val.
           read_return \<lparr>rqNamespace = string_of_bytes ns, rqOp = take 11 s ! 2, rqKey = string_of_bytes key,
             rqValue = val, rqExpectedETag = string_of_bytes etag, rqTS = Uint64 (drop 3 (take 11 s)),
             rqAuth = string_of_bytes auth\<rparr>))))"
  have "read_bind read_field16 ?g (drop 11 s) = (Inr req, rest)"
    using r len by (simp add: readBinaryReq_def read_bind_def [of "ReadFull 11"] ReadFull_def read_fail_def split: if_splits)
  then have "length rest \<le> length (drop 11 s)"
    by (rule read_bind_shrinks [rotated 2])
      (auto simp: read_return_def dest!: field_shrinks elim!: read_bind_shrinks [rotated 2])
  with len show ?thesis by simp
qed

text \<open>
  The server loop of a connection over the bytes that arrive on it: read a request, serve it,
  write the response, until a read fails. \<open>clk i\<close> and \<open>pool i\<close> are the clock and the recycled
  buffer of the i-th turn. The loop ends because every request takes bytes off the stream.
\<close>

function handleConn ::
  "crypto \<Rightarrow> ('h \<Rightarrow> 's Handler) \<Rightarrow> (nat \<Rightarrow> gotime) \<Rightarrow> (nat \<Rightarrow> bytes) \<Rightarrow> 'h Node \<Rightarrow> nat \<Rightarrow> bytes \<Rightarrow> 's \<Rightarrow> bytes \<times> 's" where
  "handleConn cr meth clk pool n i conn s =
     (case readBinaryReq conn of
        (Inl err, rest) \<Rightarrow> ([], s)
      | (Inr req, rest) \<Rightarrow>
          let (resp, s') = serve cr meth (clk i) n req s;
              out = writeBinaryResp (pool i) resp;
              (outs, s'') = handleConn cr meth clk pool n (i + 1) rest s'
          in (out @ outs, s''))"
  by pat_completeness auto

termination
  by (relation "measure (\<lambda>(cr, meth, clk, pool, n, i, conn, s). length conn)")
    (auto dest!: readBinaryReq_consumes [OF sym])

declare handleConn.simps [simp del]

text \<open>
  The connections of the pool as seen by one round trip: obtaining one, writing to it, the bytes
  that can be read from it before its deadline, and giving it back or dropping it.
\<close>

record ('w, 'c) Transport =
  tGetConn :: "'w \<Rightarrow> string \<Rightarrow> (gerror + 'c) \<times> 'w"
  tWrite :: "'w \<Rightarrow> 'c \<Rightarrow> bytes \<Rightarrow> gerror option \<times> 'w"
  tRead :: "'w \<Rightarrow> 'c \<Rightarrow> bytes"
  tPutConn :: "'w \<Rightarrow> 'c \<Rightarrow> bytes \<Rightarrow> 'w"
  tDropConn :: "'w \<Rightarrow> 'c \<Rightarrow> 'w"

definition roundTrip ::
  "('w, 'c) Transport \<Rightarrow> bytes \<Rightarrow> string \<Rightarrow> InterQueryReq \<Rightarrow> 'w \<Rightarrow> (gerror + InterQueryResp) \<times> 'w" where
  "roundTrip t pool targetNode req w =
     (case tGetConn t w targetNode of
        (Inl err, w1) \<Rightarrow> (Inl err, w1)
      | (Inr conn, w1) \<Rightarrow>
          (case writeBinaryReq pool req of
             Inl err \<Rightarrow> (Inl err, tDropConn t w1 conn)
           | Inr frame \<Rightarrow>
               (case tWrite t w1 conn frame of
                  (Some err, w2) \<Rightarrow> (Inl err, tDropConn t w2 conn)
                | (None, w2) \<Rightarrow>
                    (case readBinaryResp (tRead t w2 conn) of
                       (Inl err, rest) \<Rightarrow> (Inl err, tDropConn t w2 conn)
                     | (Inr resp, rest) \<Rightarrow> (Inr resp, tPutConn t w2 conn rest)))))"

definition sign_req :: "crypto \<Rightarrow> gotime \<Rightarrow> 'h Node \<Rightarrow> InterQueryReq \<Rightarrow> InterQueryReq" where
  "sign_req cr now n req =
     (let secret = nc_ClusterSecret (nd_cfg n) in
      if secret \<noteq> [] then
        let req1 = req\<lparr>rqTS := word_of_int (now div 1000000000)\<rparr>
        in req1\<lparr>rqAuth := computeAuth (c_hmac cr) (c_sha cr) secret req1\<rparr>
      else req)"

text \<open>\<open>ctxDone\<close> tells whether the caller's context is over when the first attempt has failed.\<close>

definition ExecuteInterQuery ::
  "crypto \<Rightarrow> ('w, 'c) Transport \<Rightarrow> (nat \<Rightarrow> bytes) \<Rightarrow> gotime \<Rightarrow> ('w \<Rightarrow> bool) \<Rightarrow> 'h Node \<Rightarrow> string \<Rightarrow>
   InterQueryReq \<Rightarrow> 'w \<Rightarrow> (gerror + InterQueryResp) \<times> 'w" where
  "ExecuteInterQuery cr t pool now ctxDone n targetNode req w =
     (let req' = sign_req cr now n req in
      case roundTrip t (pool 0) targetNode req' w of
        (Inr resp, w1) \<Rightarrow> (Inr resp, w1)
      | (Inl err, w1) \<Rightarrow>
          if ctxDone w1 then (Inl err, w1)
          else roundTrip t (pool 1) targetNode req' w1)"

section \<open>The server loop\<close>

lemma handleConn_end: "readBinaryReq conn = (Inl err, rest) \<Longrightarrow> handleConn cr meth clk pool n i conn s = ([], s)"
  by (subst handleConn.simps) simp

lemma readBinaryReq_Nil: "readBinaryReq [] = (Inl EOF, [])"
  by (simp add: readBinaryReq_def read_bind_def ReadFull_def)

text \<open>The responses to a sequence of requests, served in order.\<close>

fun serve_all ::
  "crypto \<Rightarrow> ('h \<Rightarrow> 's Handler) \<Rightarrow> (nat \<Rightarrow> gotime) \<Rightarrow> 'h Node \<Rightarrow> nat \<Rightarrow> InterQueryReq list \<Rightarrow> 's \<Rightarrow>
   InterQueryResp list \<times> 's" where
  "serve_all cr meth clk n i [] s = ([], s)"
| "serve_all cr meth clk n i (req # reqs) s =
     (let (resp, s') = serve cr meth (clk i) n req s;
          (resps, s'') = serve_all cr meth clk n (i + 1) reqs s'
      in (resp # resps, s''))"

lemma handleConn_frames:
  assumes "\<forall>req \<in> set reqs. req_fits req" and tail: "readBinaryReq tail = (Inl err, rest)"
  shows "handleConn cr meth clk pool n i (concat (map req_frame reqs) @ tail) s =
    (let (resps, s') = serve_all cr meth clk n i reqs s
     in (concat (map (\<lambda>(j, resp). writeBinaryResp (pool (i + j)) resp) (enumerate 0 resps)), s'))"
  using assms(1)
proof (induction reqs arbitrary: i s)
  case Nil
  then show ?case by (simp add: handleConn_end [OF tail])
next
  case (Cons req reqs)
  obtain resp s1 where sv: "serve cr meth (clk i) n req s = (resp, s1)" by fastforce
  obtain resps s2 where more: "serve_all cr meth clk n (i + 1) reqs s1 = (resps, s2)" by fastforce
  have "readBinaryReq (req_frame req @ concat (map req_frame reqs) @ tail) = (Inr req, concat (map req_frame reqs) @ tail)"
    using readsD(1) [OF reads_req] Cons.prems by simp
  moreover have "concat (map (\<lambda>(j, resp). writeBinaryResp (pool (Suc i + j)) resp) (enumerate 0 resps)) =
      concat (map (\<lambda>(j, resp). writeBinaryResp (pool (i + j)) resp) (enumerate (Suc 0) resps))"
    by (simp add: enumerate_Suc_eq comp_def case_prod_unfold)
  ultimately show ?case
    using Cons.IH [of "i + 1" s1] Cons.prems sv more by (subst handleConn.simps) simp
qed

section \<open>Forwarding over a live transport\<close>

definition resp_fits :: "InterQueryResp \<Rightarrow> bool" where
  "resp_fits resp \<longleftrightarrow>
     (rpErr resp = [] \<or> length (rpErr resp) \<le> maxUint16 \<and> rpObject resp = None) \<and>
     (\<forall>obj. rpObject resp = Some obj \<longrightarrow> obj_fits obj)"

lemma reads_resp:
  assumes "length pool = 65536" and "resp_fits resp"
  shows "reads readBinaryResp (writeBinaryResp pool resp) resp"
proof (cases "rpErr resp = []")
  case False
  then have "reads readBinaryResp (err_frame (rpErr resp)) \<lparr>rpObject = None, rpErr = rpErr resp\<rparr>"
    using assms(2) by (intro reads_err) (auto simp: resp_fits_def)
  moreover have "\<lparr>rpObject = None, rpErr = rpErr resp\<rparr> = resp" using False assms(2) by (cases resp) (auto simp: resp_fits_def)
  ultimately show ?thesis using writeBinaryResp_frame(1) [OF assms(1) False] by simp
next
  case True
  show ?thesis
  proof (cases "rpObject resp")
    case None
    then have "\<lparr>rpObject = None, rpErr = []\<rparr> = resp" using True by (cases resp) auto
    then show ?thesis using reads_empty None True by (metis writeBinaryResp_empty)
  next
    case (Some obj)
    then have "\<lparr>rpObject = Some obj, rpErr = []\<rparr> = resp" using True by (cases resp) auto
    moreover have "obj_fits obj" using assms(2) Some by (simp add: resp_fits_def)
    ultimately show ?thesis
      using reads_obj [of obj] writeBinaryResp_frame(2) [OF assms(1) True Some] by simp
  qed
qed

text \<open>
  The contract of a transport that works: \<open>answer\<close> is what the peer does with a request. A frame
  that is written reaches the peer, and the bytes to be read are a frame of its answer.
\<close>

locale live_transport =
  fixes t :: "('w, 'c) Transport"
    and answer :: "'w \<Rightarrow> string \<Rightarrow> InterQueryReq \<Rightarrow> InterQueryResp \<times> 'w"
    and w_ok :: "'w \<Rightarrow> bool"
  assumes delivered: "w_ok w \<Longrightarrow> req_fits req \<Longrightarrow> answer w target req = (resp, w') \<Longrightarrow> resp_fits resp \<Longrightarrow>
      \<exists>conn w1 w2 pool. tGetConn t w target = (Inr conn, w1) \<and> tWrite t w1 conn (req_frame req) = (None, w2) \<and>
        length pool = 65536 \<and> tRead t w2 conn = writeBinaryResp pool resp \<and> tPutConn t w2 conn [] = w'"
    and answer_ok: "w_ok w \<Longrightarrow> answer w target req = (resp, w') \<Longrightarrow> w_ok w'"
begin

lemma roundTrip_answer:
  assumes "w_ok w" and "req_fits req" and "answer w target req = (resp, w')" and "resp_fits resp" and "length pool = 65536"
  shows "roundTrip t pool target req w = (Inr resp, w')"
proof -
  obtain conn w1 w2 p where D: "tGetConn t w target = (Inr conn, w1)" "tWrite t w1 conn (req_frame req) = (None, w2)"
    "length p = 65536" "tRead t w2 conn = writeBinaryResp p resp" "tPutConn t w2 conn [] = w'"
    using delivered [OF assms(1-4)] by blast
  have "readBinaryResp (writeBinaryResp p resp) = (Inr resp, [])"
    using readsD(1) [OF reads_resp [OF D(3) assms(4)], of "[]"] by simp
  then show ?thesis using D writeBinaryReq_frame [OF assms(5,2)] by (simp add: roundTrip_def)
qed

lemma ExecuteInterQuery_answer:
  assumes "w_ok w" and "req_fits (sign_req cr now n req)" and "answer w target (sign_req cr now n req) = (resp, w')"
    and "resp_fits resp" and "length (pool 0) = 65536"
  shows "ExecuteInterQuery cr t pool now ctxDone n target req w = (Inr resp, w')"
  using roundTrip_answer [OF assms] by (simp add: ExecuteInterQuery_def Let_def)

end

text \<open>
  A mesh of nodes in one world: a connection is the address of the peer, and what is written to it
  is handled by the peer's server loop. The first \<open>mw_lost\<close> responses never arrive.
\<close>

record ('h, 's) mesh_world =
  mw_nodes :: "string \<Rightarrow> 'h Node"
  mw_state :: 's
  mw_inbox :: bytes
  mw_lost :: nat

definition mesh_transport ::
  "crypto \<Rightarrow> ('h \<Rightarrow> 's Handler) \<Rightarrow> gotime \<Rightarrow> bytes \<Rightarrow> (('h, 's) mesh_world, string) Transport" where
  "mesh_transport cr meth now pool =
     \<lparr>tGetConn = (\<lambda>w target. (Inr target, w\<lparr>mw_inbox := []\<rparr>)),
      tWrite = (\<lambda>w conn bs.
        let (out, s') = handleConn cr meth (\<lambda>_. now) (\<lambda>_. pool) (mw_nodes w conn) 0 bs (mw_state w)
        in (None, w\<lparr>mw_state := s', mw_inbox := (if mw_lost w = 0 then out else [])\<rparr>)),
      tRead = (\<lambda>w conn. mw_inbox w),
      tPutConn = (\<lambda>w conn rest. w\<lparr>mw_inbox := rest\<rparr>),
      tDropConn = (\<lambda>w conn. w\<lparr>mw_inbox := [], mw_lost := mw_lost w - 1\<rparr>)\<rparr>"

definition mesh_answer ::
  "crypto \<Rightarrow> ('h \<Rightarrow> 's Handler) \<Rightarrow> gotime \<Rightarrow> ('h, 's) mesh_world \<Rightarrow> string \<Rightarrow> InterQueryReq \<Rightarrow>
   InterQueryResp \<times> ('h, 's) mesh_world" where
  "mesh_answer cr meth now w target req =
     (let (resp, s') = serve cr meth now (mw_nodes w target) req (mw_state w)
      in (resp, w\<lparr>mw_state := s', mw_inbox := []\<rparr>))"

lemma handleConn_one:
  assumes "req_fits req" and "serve cr meth now n req s = (resp, s')"
  shows "handleConn cr meth (\<lambda>_. now) (\<lambda>_. pool) n 0 (req_frame req) s = (writeBinaryResp pool resp, s')"
  using handleConn_frames [OF _ readBinaryReq_Nil, of "[req]" cr meth "\<lambda>_. now" "\<lambda>_. pool" n 0 s] assms by simp

interpretation mesh: live_transport "mesh_transport cr meth now (replicate 65536 0)" "mesh_answer cr meth now"
  "\<lambda>w. mw_lost w = 0"
proof (unfold_locales, goal_cases)
  case (1 w req target resp w')
  obtain r s' where sv: "serve cr meth now (mw_nodes w target) req (mw_state w) = (r, s')" by fastforce
  then have "resp = r" "w' = w\<lparr>mw_state := s', mw_inbox := []\<rparr>" using 1(3) by (auto simp: mesh_answer_def)
  then show ?case using 1(1) handleConn_one [OF 1(2) sv]
    by (auto simp: mesh_transport_def intro!: exI [of _ "replicate 65536 0"])
next
  case (2 w target req resp w')
  then show ?case by (auto simp: mesh_answer_def split: prod.splits)
qed

text \<open>A lost response makes the call run the request a second time.\<close>

lemma ExecuteInterQuery_lost:
  assumes lost: "mw_lost w = 1" and fits: "req_fits (sign_req cr now n req)"
    and sv: "serve cr meth now' (mw_nodes w target) (sign_req cr now n req) (mw_state w) = (resp1, s1)"
      "serve cr meth now' (mw_nodes w target) (sign_req cr now n req) s1 = (resp2, s2)"
    and r2: "resp_fits resp2" and pool: "length (pool 0) = 65536" "length (pool 1) = 65536"
  shows "ExecuteInterQuery cr (mesh_transport cr meth now' (replicate 65536 0)) pool now (\<lambda>_. False) n target req w =
    (Inr resp2, w\<lparr>mw_state := s2, mw_inbox := [], mw_lost := 0\<rparr>)"
proof -
  let ?t = "mesh_transport cr meth now' (replicate 65536 0)" and ?req = "sign_req cr now n req"
  let ?w1 = "w\<lparr>mw_state := s1, mw_inbox := [], mw_lost := 0\<rparr>"
  have "readBinaryResp [] = (Inl EOF, [])" by (simp add: readBinaryResp_def read_bind_def ReadFull_def)
  then have "roundTrip ?t (pool 0) target ?req w = (Inl EOF, ?w1)"
    using lost handleConn_one [OF fits sv(1)] writeBinaryReq_frame [OF pool(1) fits]
    by (simp add: roundTrip_def mesh_transport_def)
  moreover have "roundTrip ?t (pool 1) target ?req ?w1 = (Inr resp2, w\<lparr>mw_state := s2, mw_inbox := [], mw_lost := 0\<rparr>)"
    using mesh.roundTrip_answer [of ?w1 ?req cr meth now' target resp2 _ "pool 1"] fits r2 pool(2) sv(2)
    by (simp add: mesh_answer_def)
  ultimately show ?thesis by (simp add: ExecuteInterQuery_def Let_def)
qed

section \<open>Authentication\<close>

lemma length_hex: "length (hex_of_bytes bs) = 2 * length bs"
  by (induction bs) (auto simp: hex_of_bytes_def)

lemma hex_no_colon: "CHR '':'' \<notin> set (hex_of_bytes bs)"
proof -
  have "CHR '':'' \<noteq> hexdigit n" if "n < 16" for n
  proof
    assume "CHR '':'' = hexdigit n"
    then have "(of_char (CHR '':'') :: nat) = of_char (hexdigit n)" by simp
    with that show False by (simp add: hexdigit_def split: if_splits)
  qed
  moreover have "unat (b :: 8 word) div 16 < 16" for b using unsigned_less [of b, where 'a = nat] by auto
  ultimately show ?thesis by (auto simp: hex_of_bytes_def)
qed

lemma show_int_no_colon: "CHR '':'' \<notin> set (show_int n)"
  using show_int_chars [of _ n] by fastforce

lemma authenticate_signed:
  assumes skew: "\<bar>now' - now\<bar> \<le> 29 * 1000000000" and range: "- (2 ^ 63) \<le> now" "now < 2 ^ 63"
    and secret: "nc_ClusterSecret (nd_cfg n') = nc_ClusterSecret (nd_cfg n)"
    and out: "\<forall>k m. length (c_hmac cr k m) = 32"
  shows "authenticate (c_hmac cr) (c_sha cr) now' n' (sign_req cr now n req) = None"
proof (cases "nc_ClusterSecret (nd_cfg n) = []")
  case True
  then show ?thesis using secret by (simp add: authenticate_def)
next
  case False
  let ?s = "sign_req cr now n req" and ?sec = "nc_ClusterSecret (nd_cfg n)"
  have TS: "rqTS ?s = word_of_int (now div 1000000000)" using False by (simp add: sign_req_def Let_def)
  have "- (2 ^ 63) \<le> now div 1000000000" "now div 1000000000 < 2 ^ 63" using range by auto
  then have sint: "sint (rqTS ?s) = now div 1000000000"
    unfolding TS using sint_UnixNano [of "now div 1000000000"] by (simp add: UnixNano_def)
  have "now - now div 1000000000 * 1000000000 < 1000000000" "0 \<le> now - now div 1000000000 * 1000000000"
    by (simp_all add: minus_div_mult_eq_mod)
  then have "\<bar>now' - now div 1000000000 * 1000000000\<bar> \<le> 30 * 1000000000" using skew by linarith
  moreover have "computeAuth (c_hmac cr) (c_sha cr) ?sec ?s = rqAuth ?s"
    using False by (simp add: sign_req_def Let_def computeAuth_def canonical_def)
  moreover have "length (rqAuth ?s) = 64"
    using False out by (simp add: sign_req_def Let_def computeAuth_def length_hex)
  then have "rqAuth ?s \<noteq> []" by auto
  ultimately show ?thesis
    using False secret sint
    by (auto simp: authenticate_def Let_def authSkew_def time_Sub_def neg_duration_def maxDuration_def minDuration_def)
qed

lemma sign_req_simps [simp]:
  "rqNamespace (sign_req cr now n req) = rqNamespace req" "rqOp (sign_req cr now n req) = rqOp req"
  "rqKey (sign_req cr now n req) = rqKey req" "rqValue (sign_req cr now n req) = rqValue req"
  "rqExpectedETag (sign_req cr now n req) = rqExpectedETag req"
  by (simp_all add: sign_req_def Let_def)

lemma dispatch_signed [simp]: "dispatch h (sign_req cr now n req) s = dispatch h req s"
  by (simp add: dispatch_def)

lemma hexdigit_inj: "m < 16 \<Longrightarrow> n < 16 \<Longrightarrow> hexdigit m = hexdigit n \<Longrightarrow> m = n"
proof -
  assume mn: "m < 16" "n < 16" and "hexdigit m = hexdigit n"
  then have "(of_char (hexdigit m) :: nat) = of_char (hexdigit n)" by simp
  with mn show ?thesis by (simp add: hexdigit_def split: if_splits)
qed

lemma hex_of_bytes_inj: "hex_of_bytes a = hex_of_bytes b \<longleftrightarrow> a = b"
proof
  assume "hex_of_bytes a = hex_of_bytes b"
  then show "a = b"
  proof (induction a arbitrary: b)
    case Nil
    then show ?case by (cases b) (auto simp: hex_of_bytes_def)
  next
    case (Cons x a)
    then obtain y b' where b: "b = y # b'" by (cases b) (auto simp: hex_of_bytes_def)
    have less: "unat (z :: 8 word) div 16 < 16" for z using unsigned_less [of z, where 'a = nat] by auto
    from Cons.prems b have "hexdigit (unat x div 16) = hexdigit (unat y div 16)"
      "hexdigit (unat x mod 16) = hexdigit (unat y mod 16)" "hex_of_bytes a = hex_of_bytes b'"
      by (auto simp: hex_of_bytes_def)
    then have "unat x div 16 = unat y div 16" "unat x mod 16 = unat y mod 16" "a = b'"
      using Cons.IH hexdigit_inj [OF less less] hexdigit_inj [of "unat x mod 16" "unat y mod 16"] by auto
    then have "unat x = unat y" by (metis div_mult_mod_eq)
    with \<open>a = b'\<close> b show ?case by (simp add: word_unat_eq_iff)
  qed
qed simp

text \<open>Reading the canonical form from both ends: only a colon in the namespace or the key is ambiguous.\<close>

lemma canonical_inj:
  assumes "CHR '':'' \<notin> set (rqNamespace r)" "CHR '':'' \<notin> set (rqNamespace r')"
    and "CHR '':'' \<notin> set (rqKey r)" "CHR '':'' \<notin> set (rqKey r')"
    and eq: "canonical sha r = canonical sha r'"
  shows "rqNamespace r = rqNamespace r' \<and> rqOp r = rqOp r' \<and> rqKey r = rqKey r' \<and>
    rqExpectedETag r = rqExpectedETag r' \<and> sha (rqValue r) = sha (rqValue r') \<and> rqTS r = rqTS r'"
proof -
  note sep = append_sep_eq_iff [of "CHR '':''"]
  let ?tl = "\<lambda>r. rqExpectedETag r @ '':'' @ hex_of_bytes (sha (rqValue r)) @ '':'' @ show_int (sint (rqTS r))"
  have "rqNamespace r = rqNamespace r' \<and> show_int (uint (rqOp r)) = show_int (uint (rqOp r')) \<and>
      rqKey r = rqKey r' \<and> ?tl r = ?tl r'"
    using eq assms(1-4) show_int_no_colon by (simp add: canonical_def sep)
  moreover from this have "rev (?tl r) = rev (?tl r')" by simp
  then have "rev (show_int (sint (rqTS r))) = rev (show_int (sint (rqTS r'))) \<and>
      rev (hex_of_bytes (sha (rqValue r))) = rev (hex_of_bytes (sha (rqValue r'))) \<and>
      rev (rqExpectedETag r) = rev (rqExpectedETag r')"
    using show_int_no_colon hex_no_colon by (simp add: sep)
  ultimately have e: "rqNamespace r = rqNamespace r'" "uint (rqOp r) = uint (rqOp r')" "rqKey r = rqKey r'"
    "rqExpectedETag r = rqExpectedETag r'" "sha (rqValue r) = sha (rqValue r')" "sint (rqTS r) = sint (rqTS r')"
    by (simp_all add: hex_of_bytes_inj)
  have "rqOp r = rqOp r'" using e(2) by (simp add: word_uint_eq_iff)
  moreover have "rqTS r = rqTS r'" using e(6) by (rule word_eq_iff_signed [THEN iffD2])
  ultimately show ?thesis using e by simp
qed

lemma bytes_of_string_inj: "bytes_of_string a = bytes_of_string b \<longleftrightarrow> a = b"
  by (metis string_of_bytes_of_string)

section \<open>Properties\<close>


definition demo_node :: "unit Node" where
  "demo_node = \<lparr>nd_cfg = \<lparr>nc_BindAddr = ''h'', nc_DBHandler = None, nc_ClusterSecret = ''s'', nc_DialTimeout = 0,
       nc_StreamOpenTimeout = 0, nc_RequestTimeout = 0\<rparr>,
     nd_meshPort = 1, nd_handlers = [(''ns'', ())], nd_ring = NewRing 100 2, nd_peers = []\<rparr>"

definition demo_crypto :: crypto where
  "demo_crypto = \<lparr>c_hmac = (\<lambda>k m. replicate 32 0), c_sha = (\<lambda>m. []), c_quote = (\<lambda>s. s)\<rparr>"

definition demo_meth :: "unit \<Rightarrow> nat Handler" where
  "demo_meth = (\<lambda>_. \<lparr>hGetRaw = (\<lambda>s k. (Inl ErrNotFound, s + 1)), hPutRaw = (\<lambda>s k v e. (Inr None, s)),
     hDeleteRaw = (\<lambda>s k e. (None, s))\<rparr>)"

definition demo_req :: InterQueryReq where
  "demo_req = \<lparr>rqNamespace = ''ns'', rqOp = OpGet, rqKey = ''k'', rqValue = [], rqExpectedETag = [], rqTS = 0, rqAuth = []\<rparr>"


text \<open>
  A connection is served in order and cleanly. However many requests arrive back to back on a
  connection, and even when the stream is cut inside the next frame, each complete request is
  served exactly once, in order, on the state the previous one left, and the responses are
  written in that order; the cut-off request is never served.
\<close>

theorem server_loop_in_order:
  assumes "\<forall>req \<in> set (nxt # reqs). req_fits req" and "k < length (req_frame nxt)"
  shows "handleConn cr meth clk pool n 0 (concat (map req_frame reqs) @ take k (req_frame nxt)) s =
    (let (resps, s') = serve_all cr meth clk n 0 reqs s
     in (concat (map (\<lambda>(j, resp). writeBinaryResp (pool j) resp) (enumerate 0 resps)), s'))"
proof -
  obtain err where "readBinaryReq (take k (req_frame nxt)) = (Inl err, [])"
    using readsD(2) [OF reads_req, of nxt k] assms by auto
  from handleConn_frames [OF _ this, of reqs cr meth clk pool n 0 s] assms(1) show ?thesis by simp
qed

theorem server_loop_in_order_witness:
  "snd (handleConn demo_crypto demo_meth (\<lambda>_. 0) (\<lambda>_. []) (demo_node\<lparr>nd_cfg := (nd_cfg demo_node)\<lparr>nc_ClusterSecret := []\<rparr>\<rparr>) 0
     (concat (map req_frame [demo_req, demo_req]) @ take 5 (req_frame demo_req)) 0) = 2"
proof -
  have "\<forall>req \<in> set (demo_req # [demo_req, demo_req]). req_fits req" "5 < length (req_frame demo_req)"
    by (auto simp: demo_req_def req_fits_def req_frame_def)
  from server_loop_in_order [OF this, of demo_crypto demo_meth "\<lambda>_. 0" "\<lambda>_. []"
      "demo_node\<lparr>nd_cfg := (nd_cfg demo_node)\<lparr>nc_ClusterSecret := []\<rparr>\<rparr>" 0]
  show ?thesis
    by (simp add: serve_def authenticate_def handlerFor_def demo_node_def demo_req_def dispatch_def OpGet_def demo_meth_def)
qed





text \<open>
  Without that restriction it does not bind. The fields are joined by colons that are not
  quoted, so the code of a conditional write of key a:b with ETag c is also the code of a write
  of key a with ETag b:c, with any secret and any hash.
\<close>

theorem auth_colon_ambiguity:
  "computeAuth hmac sha secret (req\<lparr>rqKey := ''a:b'', rqExpectedETag := ''c''\<rparr>) =
   computeAuth hmac sha secret (req\<lparr>rqKey := ''a'', rqExpectedETag := ''b:c''\<rparr>)"
  by (simp add: computeAuth_def canonical_def)

text \<open>
  The skew check does not reject every bad timestamp. The difference to a time more than 292
  years ahead saturates at the least Duration, whose negation is itself, so it passes the
  comparison with the allowed skew and the request is accepted.
\<close>

theorem auth_far_future_accepted:
  assumes "now - sint (rqTS req) * 1000000000 < - (2 ^ 63)" and "rqAuth req \<noteq> []"
    and "rqAuth req = computeAuth hmac sha (nc_ClusterSecret (nd_cfg n)) req"
  shows "authenticate hmac sha now n req = None"
  using assms
  by (auto simp: authenticate_def Let_def authSkew_def time_Sub_def neg_duration_def maxDuration_def minDuration_def)

theorem auth_far_future_accepted_witness:
  "authenticate (\<lambda>k m. [0]) (\<lambda>m. []) 0 demo_node (demo_req\<lparr>rqTS := 10000000000, rqAuth := ''00''\<rparr>) = None"
proof -
  have "hexdigit 0 = CHR ''0''" by code_simp
  then show ?thesis
    by (intro auth_far_future_accepted) (simp_all add: computeAuth_def hex_of_bytes_def)
qed

text \<open>
  Namespaces are served by their own handler, but the fallback is not limited to requests
  without one. A registered namespace is always resolved to the handler registered last for it,
  whatever is registered for others, and a namespace without a handler is served by the legacy
  DBHandler when there is one, even though it is not the empty namespace.
\<close>

theorem handler_resolution:
  "handlerFor (RegisterHandler ns h n) ns' = (if ns' = ns then Some h else handlerFor n ns') \<and>
   handlerFor (UnregisterHandler ns n) ns' = (if ns' = ns then nc_DBHandler (nd_cfg n) else handlerFor n ns')"
  by (auto simp: handlerFor_def RegisterHandler_def UnregisterHandler_def split: option.splits)

text \<open>
  A lost response can turn a successful conditional write into a reported conflict. The call
  retries after any failed attempt; when the first response is lost, the write is run again with
  the same expected ETag, and the caller is told that the version did not match although its
  write is stored.
\<close>

theorem retry_reports_conflict_of_own_write:
  assumes "mw_lost w = 1" and "nc_ClusterSecret (nd_cfg n) = []" and "nc_ClusterSecret (nd_cfg (mw_nodes w target)) = []"
    and "handlerFor (mw_nodes w target) (rqNamespace req) = Some h" and "hPutRaw (meth h) = mem_Put sha"
    and "req_fits req" and "rqOp req = OpPut" and "rqExpectedETag req \<noteq> []" and "rqExpectedETag req \<noteq> MatchAnyETag"
    and "mem_Put sha (mw_state w) (rqKey req) (rqValue req) (rqExpectedETag req) = (Inr (Some obj), s1)"
    and "oETag obj \<noteq> rqExpectedETag req" and "length (pool 0) = 65536" and "length (pool 1) = 65536"
  shows "ExecuteInterQuery cr (mesh_transport cr meth now' (replicate 65536 0)) pool now (\<lambda>_. False) n target req w =
    (Inr (resp_err (Error ErrVersionMismatch)), w\<lparr>mw_state := s1, mw_inbox := [], mw_lost := 0\<rparr>) \<and>
    mem_stored s1 (rqKey req) = Some (rqValue req, oETag obj)"
proof -
  have s: "sign_req cr now n req = req" using assms(2) by (simp add: sign_req_def)
  have put: "mem_Put sha s1 (rqKey req) (rqValue req) (rqExpectedETag req) = (Inl ErrVersionMismatch, s1)"
    "mem_stored s1 (rqKey req) = Some (rqValue req, oETag obj)"
    using assms(8-11)
    by (auto simp: mem_Put_def mem_write_def mem_stored_def Let_def split: option.splits if_splits)
  have "serve cr meth now' (mw_nodes w target) req (mw_state w) = (\<lparr>rpObject = Some obj, rpErr = []\<rparr>, s1)"
    "serve cr meth now' (mw_nodes w target) req s1 = (resp_err (Error ErrVersionMismatch), s1)"
    using assms(3-5,7,10) put(1) by (simp_all add: serve_def authenticate_def dispatch_def OpGet_def OpPut_def)
  moreover have "resp_fits (resp_err (Error ErrVersionMismatch))" by (simp add: resp_fits_def resp_err_def)
  ultimately show ?thesis
    using ExecuteInterQuery_lost [OF assms(1), of cr now n req] s put(2) assms(6,12,13) by simp
qed

definition mem_meth :: "unit \<Rightarrow> MemDriver Handler" where
  "mem_meth = (\<lambda>_. \<lparr>hGetRaw = mem_Get, hPutRaw = mem_Put (\<lambda>bs. bs), hDeleteRaw = mem_Delete\<rparr>)"

theorem retry_reports_conflict_of_own_write_witness:
  "let nd = demo_node\<lparr>nd_cfg := (nd_cfg demo_node)\<lparr>nc_ClusterSecret := []\<rparr>\<rparr>;
       s0 = \<lparr>mem_data = [(''k'', \<lparr>e_value = [9], e_etag = ''1'', e_modTime = 0\<rparr>)], mem_clock = (\<lambda>_. 0), mem_ticks = 0\<rparr>
   in fst (ExecuteInterQuery demo_crypto (mesh_transport demo_crypto mem_meth 0 (replicate 65536 0)) (\<lambda>_. replicate 65536 0) 0
        (\<lambda>_. False) nd ''p:1'' (demo_req\<lparr>rqOp := OpPut, rqExpectedETag := ''1''\<rparr>)
        \<lparr>mw_nodes = (\<lambda>_. nd), mw_state = s0, mw_inbox = [], mw_lost = 1\<rparr>) =
      Inr (resp_err (Error ErrVersionMismatch))"
proof -
  let ?nd = "demo_node\<lparr>nd_cfg := (nd_cfg demo_node)\<lparr>nc_ClusterSecret := []\<rparr>\<rparr>"
  let ?s = "\<lparr>mem_data = [(''k'', \<lparr>e_value = [9], e_etag = ''1'', e_modTime = 0\<rparr>)], mem_clock = (\<lambda>_. 0), mem_ticks = 0\<rparr>"
  let ?w = "\<lparr>mw_nodes = (\<lambda>_. ?nd), mw_state = ?s, mw_inbox = [], mw_lost = 1\<rparr>"
  let ?req = "demo_req\<lparr>rqOp := OpPut, rqExpectedETag := ''1''\<rparr>"
  obtain obj s1 where put: "mem_Put (\<lambda>bs. bs) (mw_state ?w) (rqKey ?req) (rqValue ?req) (rqExpectedETag ?req) = (Inr (Some obj), s1)"
    "oETag obj \<noteq> rqExpectedETag ?req"
    by (simp add: mem_Put_def mem_write_def demo_req_def MatchAnyETag_def generateETag_def Let_def)
  have "fst (ExecuteInterQuery demo_crypto (mesh_transport demo_crypto mem_meth 0 (replicate 65536 0)) (\<lambda>_. replicate 65536 0) 0
        (\<lambda>_. False) ?nd ''p:1'' ?req ?w) = Inr (resp_err (Error ErrVersionMismatch))"
    using retry_reports_conflict_of_own_write [of ?w ?nd "''p:1''" ?req "()" mem_meth "\<lambda>bs. bs", OF _ _ _ _ _ _ _ _ _ put]
    by (simp add: demo_node_def demo_req_def handlerFor_def req_fits_def mem_meth_def MatchAnyETag_def)
  then show ?thesis by (simp add: Let_def)
qed

end
