(* ===== verification/Database.thy ===== *)
theory Database
  imports CacheRuns ListCache Mesh
begin

text \<open>
  pkg/db/db.go: the embedded document database over a driver, a cache Manager and a list cache,
  with the routing of keys to their owners. The state of a database is the state of its driver,
  the caches of its process and the generation it last reconciled; what does not change (driver
  methods, the address of its Manager, codec, namespace) is the environment, and so is what other
  parts change: the ring a call observes and the forwarding call. Forwarding acts on the driver
  state because all nodes share the cold storage. A result None means that the call does not
  return normally (a panic on a nil object, or an endless loop). Tracing is left out.
\<close>

section \<open>Definitions\<close>

record Meta =
  mt_Key :: string
  mt_ETag :: string
  mt_ModTime :: gotime
  mt_Size :: int

text \<open>Interface Codec of pkg/encoding over documents of type \<open>'a\<close>.\<close>

record 'a Codec =
  cd_Marshal :: "'a \<Rightarrow> gerror + bytes"
  cd_Unmarshal :: "bytes \<Rightarrow> gerror + 'a"

record 's database =
  d_store :: 's
  d_cs :: cache_state
  d_list :: "ListCache option"
  d_reconciledGen :: "64 word"

record ('s, 'a) dbenv =
  e_driver :: "'s Driver"
  e_mgr :: nat
  e_codec :: "'a Codec"
  e_namespace :: string
  e_cluster :: "(Ring \<times> string) option"
  e_exec :: "string \<Rightarrow> InterQueryReq \<Rightarrow> 's \<Rightarrow> (gerror + InterQueryResp) \<times> 's"
  e_ctxErr :: "gerror option"

record DbOptions =
  do_CacheTTL :: duration
  do_CacheMaxObjectSize :: int
  do_CacheBudget :: bool
  do_ListCacheTTL :: duration
  do_ListCacheMaxPages :: int
  do_ShardingDepth :: int

definition open_ShardingDepth :: "DbOptions \<Rightarrow> int" where
  "open_ShardingDepth opts = (if do_ShardingDepth opts \<le> 0 then 2 else do_ShardingDepth opts)"

text \<open>
  \<open>Open\<close> at Manager address \<open>i\<close>, over an already open driver, registering the handler \<open>h\<close> (the
  database itself) for its namespace on the cluster node, if there is one.
\<close>

definition db_Open ::
  "nat \<Rightarrow> DbOptions \<Rightarrow> string \<Rightarrow> 'h \<Rightarrow> 's \<Rightarrow> cache_state \<Rightarrow> 'h Node option \<Rightarrow> 's database \<times> 'h Node option" where
  "db_Open i opts ns h s cs node =
     (\<lparr>d_store = s,
       d_cs = NewManagerWithConfig i \<lparr>cfg_TTL = do_CacheTTL opts, cfg_MaxObjectSize = do_CacheMaxObjectSize opts,
         cfg_Budget = do_CacheBudget opts\<rparr> cs,
       d_list = (if do_ListCacheTTL opts \<ge> 0
         then Some (NewListCache \<lparr>lcfg_TTL = do_ListCacheTTL opts, lcfg_MaxPages = do_ListCacheMaxPages opts\<rparr>) else None),
       d_reconciledGen = 0\<rparr>,
      map_option (RegisterHandler ns h) node)"

record PutOptions =
  po_ExpectedETag :: string

type_synonym PutOption = "PutOptions \<Rightarrow> PutOptions"

definition WithExpectedETag :: "string \<Rightarrow> PutOption" where
  "WithExpectedETag etag po = po\<lparr>po_ExpectedETag := etag\<rparr>"

definition CreateOnly :: PutOption where
  "CreateOnly po = po\<lparr>po_ExpectedETag := MatchAnyETag\<rparr>"

text \<open>The options are applied in order, so the last one wins.\<close>

definition put_options :: "PutOption list \<Rightarrow> PutOptions" where
  "put_options opts = fold (\<lambda>opt po. opt po) opts \<lparr>po_ExpectedETag = []\<rparr>"

record DeleteOptions =
  del_ExpectedETag :: string

type_synonym DeleteOption = "DeleteOptions \<Rightarrow> DeleteOptions"

definition WithDeleteExpectedETag :: "string \<Rightarrow> DeleteOption" where
  "WithDeleteExpectedETag etag po = po\<lparr>del_ExpectedETag := etag\<rparr>"

definition delete_options :: "DeleteOption list \<Rightarrow> DeleteOptions" where
  "delete_options opts = fold (\<lambda>opt po. opt po) opts \<lparr>del_ExpectedETag = []\<rparr>"

definition purgeEverything :: "nat \<Rightarrow> 's database \<Rightarrow> 's database" where
  "purgeEverything i d =
     d\<lparr>d_cs := snd (PurgeIf i (\<lambda>_. True) (d_cs d)), d_list := map_option ListCache_Purge (d_list d)\<rparr>"

text \<open>
  \<open>reconcileOwnership\<close> reads the ring several times: its generation first, then, during a
  selective purge, the owner of each key, then the generation again. \<open>ring0\<close>, \<open>ringAt key\<close> and
  \<open>ring2\<close> are the rings it finds.
\<close>

definition foreign_key :: "Ring \<Rightarrow> string \<Rightarrow> string \<Rightarrow> bool" where
  "foreign_key ring self key = (let owner = GetNode ring key in owner \<noteq> [] \<and> owner \<noteq> self)"

definition reconcile :: "nat \<Rightarrow> string \<Rightarrow> Ring \<Rightarrow> (string \<Rightarrow> Ring) \<Rightarrow> Ring \<Rightarrow> 's database \<Rightarrow> 's database" where
  "reconcile i self ring0 ringAt ring2 d =
     (let gen = Generation ring0 in
      if d_reconciledGen d = gen then d
      else
        let lst = d_reconciledGen d;
            skippedGenerations = (gen > lst + 1);
            d1 = (if skippedGenerations then purgeEverything i d
              else
                let da = d\<lparr>d_list := map_option ListCache_Purge (d_list d)\<rparr>;
                    db = da\<lparr>d_cs := snd (PurgeIf i (\<lambda>key. foreign_key (ringAt key) self key) (d_cs da))\<rparr>
                in if Generation ring2 \<noteq> gen then purgeEverything i db else db)
        in d1\<lparr>d_reconciledGen := gen\<rparr>)"

definition reconcileOwnership :: "('s, 'a) dbenv \<Rightarrow> 's database \<Rightarrow> 's database" where
  "reconcileOwnership env d =
     (case e_cluster env of
        None \<Rightarrow> d
      | Some (ring, self) \<Rightarrow> reconcile (e_mgr env) self ring (\<lambda>_. ring) ring d)"

definition mapErrorString :: "string \<Rightarrow> gerror" where
  "mapErrorString errStr =
     (if errStr = Error ErrNotFound then ErrNotFound
      else if errStr = Error ErrAlreadyExists then ErrAlreadyExists
      else if errStr = Error ErrVersionMismatch then ErrVersionMismatch
      else ErrorMsg errStr)"

text \<open>The routing check: the owner, when there is one and it is another node.\<close>

definition route :: "('s, 'a) dbenv \<Rightarrow> string \<Rightarrow> string option" where
  "route env key =
     (case e_cluster env of
        None \<Rightarrow> None
      | Some (ring, self) \<Rightarrow>
          let targetNode = GetNode ring key in
          if targetNode \<noteq> [] \<and> targetNode \<noteq> self then Some targetNode else None)"

text \<open>The requests that the operations forward; \<open>ExecuteInterQuery\<close> signs them.\<close>

definition get_req :: "('s, 'a) dbenv \<Rightarrow> string \<Rightarrow> InterQueryReq" where
  "get_req env key =
     \<lparr>rqNamespace = e_namespace env, rqOp = OpGet, rqKey = key, rqValue = [], rqExpectedETag = [], rqTS = 0, rqAuth = []\<rparr>"

definition put_req :: "('s, 'a) dbenv \<Rightarrow> string \<Rightarrow> bytes \<Rightarrow> string \<Rightarrow> InterQueryReq" where
  "put_req env key data expectedETag =
     \<lparr>rqNamespace = e_namespace env, rqOp = OpPut, rqKey = key, rqValue = data, rqExpectedETag = expectedETag,
      rqTS = 0, rqAuth = []\<rparr>"

definition delete_req :: "('s, 'a) dbenv \<Rightarrow> string \<Rightarrow> string \<Rightarrow> InterQueryReq" where
  "delete_req env key expectedETag =
     \<lparr>rqNamespace = e_namespace env, rqOp = OpDelete, rqKey = key, rqValue = [], rqExpectedETag = expectedETag,
      rqTS = 0, rqAuth = []\<rparr>"

definition readLocal ::
  "('s, 'a) dbenv \<Rightarrow> (nat \<Rightarrow> gotime) \<Rightarrow> string \<Rightarrow> bool \<Rightarrow> 's database \<Rightarrow> ((gerror + Object option) \<times> 's database) option" where
  "readLocal env clk key nonOwner d =
     (if nonOwner then
        let (r, s) = dGet (e_driver env) (d_store d) key in Some (r, d\<lparr>d_store := s\<rparr>)
      else
        map_option (\<lambda>(r, s, cs). (r, d\<lparr>d_store := s, d_cs := cs\<rparr>))
          (Manager_Get (e_driver env) (e_mgr env) clk key (d_store d) (d_cs d)))"

definition meta_of :: "Object \<Rightarrow> Meta" where
  "meta_of obj = \<lparr>mt_Key = oKey obj, mt_ETag = oETag obj, mt_ModTime = oModTime obj, mt_Size = 0\<rparr>"

text \<open>Decoding into the destination, when the caller gave one.\<close>

definition decode_doc :: "'a Codec \<Rightarrow> bool \<Rightarrow> Object \<Rightarrow> gerror + (Meta \<times> 'a option)" where
  "decode_doc codec dest obj =
     (if dest then
        (case cd_Unmarshal codec (oValue obj) of
           Inl err \<Rightarrow> Inl (Wrapped ''db decode error: '' err)
         | Inr x \<Rightarrow> Inr (meta_of obj, Some x))
      else Inr (meta_of obj, None))"

definition get_local ::
  "('s, 'a) dbenv \<Rightarrow> (nat \<Rightarrow> gotime) \<Rightarrow> string \<Rightarrow> bool \<Rightarrow> bool \<Rightarrow> 's database \<Rightarrow>
   ((gerror + (Meta \<times> 'a option)) \<times> 's database) option" where
  "get_local env clk key dest nonOwner d =
     (case readLocal env clk key nonOwner d of
        None \<Rightarrow> None
      | Some (Inl err, d1) \<Rightarrow> Some (Inl err, d1)
      | Some (Inr None, d1) \<Rightarrow> None
      | Some (Inr (Some obj), d1) \<Rightarrow> Some (decode_doc (e_codec env) dest obj, d1))"

definition db_Get ::
  "('s, 'a) dbenv \<Rightarrow> (nat \<Rightarrow> gotime) \<Rightarrow> string \<Rightarrow> bool \<Rightarrow> 's database \<Rightarrow>
   ((gerror + (Meta \<times> 'a option)) \<times> 's database) option" where
  "db_Get env clk key dest d0 =
     (let d = reconcileOwnership env d0 in
      case route env key of
        None \<Rightarrow> get_local env clk key dest False d
      | Some targetNode \<Rightarrow>
          let (res, s) = e_exec env targetNode (get_req env key) (d_store d);
              d1 = d\<lparr>d_store := s\<rparr>;
              fallback = (case e_ctxErr env of
                  Some err \<Rightarrow> Some (Inl err, d1)
                | None \<Rightarrow> get_local env clk key dest True d1)
          in case res of
               Inr resp \<Rightarrow>
                 if rpErr resp \<noteq> [] then Some (Inl (mapErrorString (rpErr resp)), d1)
                 else (case rpObject resp of
                     Some obj \<Rightarrow> Some (decode_doc (e_codec env) dest obj, d1)
                   | None \<Rightarrow> fallback)
             | Inl err \<Rightarrow> fallback)"

definition invalidate_list :: "string \<Rightarrow> 's database \<Rightarrow> 's database" where
  "invalidate_list key d = d\<lparr>d_list := map_option (InvalidateKey key) (d_list d)\<rparr>"

text \<open>The cached write that \<open>Put\<close> and \<open>PutRaw\<close> share.\<close>

definition put_cached ::
  "('s, 'a) dbenv \<Rightarrow> (nat \<Rightarrow> gotime) \<Rightarrow> string \<Rightarrow> bytes \<Rightarrow> string \<Rightarrow> 's database \<Rightarrow>
   ((gerror + Object option) \<times> 's database) option" where
  "put_cached env clk key data expectedETag d =
     (case Manager_Put (e_driver env) (e_mgr env) clk key data expectedETag (d_store d) (d_cs d) of
        None \<Rightarrow> None
      | Some (Inl err, s, cs) \<Rightarrow> Some (Inl err, d\<lparr>d_store := s, d_cs := cs\<rparr>)
      | Some (Inr obj, s, cs) \<Rightarrow> Some (Inr obj, invalidate_list key (d\<lparr>d_store := s, d_cs := cs\<rparr>)))"

definition db_Put ::
  "('s, 'a) dbenv \<Rightarrow> (nat \<Rightarrow> gotime) \<Rightarrow> string \<Rightarrow> 'a \<Rightarrow> PutOption list \<Rightarrow> 's database \<Rightarrow>
   ((gerror + Meta) \<times> 's database) option" where
  "db_Put env clk key doc opts d0 =
     (let d = reconcileOwnership env d0;
          expectedETag = po_ExpectedETag (put_options opts) in
      case cd_Marshal (e_codec env) doc of
        Inl err \<Rightarrow> Some (Inl (Wrapped ''db encode error: '' err), d)
      | Inr data \<Rightarrow>
          (case route env key of
             Some targetNode \<Rightarrow>
               let (res, s) = e_exec env targetNode (put_req env key data expectedETag) (d_store d);
                   d1 = d\<lparr>d_store := s\<rparr>
               in (case res of
                     Inl err \<Rightarrow> Some (Inl (Wrapped ''inter-query error: '' err), d1)
                   | Inr resp \<Rightarrow>
                       if rpErr resp \<noteq> [] then Some (Inl (mapErrorString (rpErr resp)), d1)
                       else (case rpObject resp of
                           None \<Rightarrow> Some (Inl (Wrapped (''inter-query to '' @ targetNode @ '': '') ErrIncompleteResponse), d1)
                         | Some obj \<Rightarrow> Some (Inr (meta_of obj), invalidate_list key d1)))
           | None \<Rightarrow>
               (case put_cached env clk key data expectedETag d of
                  None \<Rightarrow> None
                | Some (Inl err, d1) \<Rightarrow> Some (Inl err, d1)
                | Some (Inr None, d1) \<Rightarrow> None
                | Some (Inr (Some obj), d1) \<Rightarrow> Some (Inr (meta_of obj), d1))))"

text \<open>The cached delete that \<open>Delete\<close> and \<open>DeleteRaw\<close> share.\<close>

definition delete_cached :: "('s, 'a) dbenv \<Rightarrow> string \<Rightarrow> string \<Rightarrow> 's database \<Rightarrow> gerror option \<times> 's database" where
  "delete_cached env key expectedETag d =
     (let (err, s, cs) = Manager_Delete (e_driver env) (e_mgr env) key expectedETag (d_store d) (d_cs d);
          d1 = d\<lparr>d_store := s, d_cs := cs\<rparr>
      in (err, if err = None then invalidate_list key d1 else d1))"

definition db_Delete :: "('s, 'a) dbenv \<Rightarrow> string \<Rightarrow> DeleteOption list \<Rightarrow> 's database \<Rightarrow> gerror option \<times> 's database" where
  "db_Delete env key opts d0 =
     (let d = reconcileOwnership env d0;
          expectedETag = del_ExpectedETag (delete_options opts) in
      case route env key of
        Some targetNode \<Rightarrow>
          let (res, s) = e_exec env targetNode (delete_req env key expectedETag) (d_store d);
              d1 = d\<lparr>d_store := s\<rparr>
          in (case res of
                Inl err \<Rightarrow> (Some (Wrapped ''inter-query error: '' err), d1)
              | Inr resp \<Rightarrow>
                  if rpErr resp \<noteq> [] then (Some (mapErrorString (rpErr resp)), d1)
                  else (None, invalidate_list key d1))
      | None \<Rightarrow> delete_cached env key expectedETag d)"

definition db_GetRaw ::
  "('s, 'a) dbenv \<Rightarrow> (nat \<Rightarrow> gotime) \<Rightarrow> string \<Rightarrow> 's database \<Rightarrow> ((gerror + Object option) \<times> 's database) option" where
  "db_GetRaw env clk key d0 = readLocal env clk key False (reconcileOwnership env d0)"

definition db_PutRaw ::
  "('s, 'a) dbenv \<Rightarrow> (nat \<Rightarrow> gotime) \<Rightarrow> string \<Rightarrow> bytes \<Rightarrow> string \<Rightarrow> 's database \<Rightarrow>
   ((gerror + Object option) \<times> 's database) option" where
  "db_PutRaw env clk key data expectedETag d0 = put_cached env clk key data expectedETag (reconcileOwnership env d0)"

definition db_DeleteRaw :: "('s, 'a) dbenv \<Rightarrow> string \<Rightarrow> string \<Rightarrow> 's database \<Rightarrow> gerror option \<times> 's database" where
  "db_DeleteRaw env key expectedETag d0 = delete_cached env key expectedETag (reconcileOwnership env d0)"

definition db_PartitionKey :: "DbOptions \<Rightarrow> string \<Rightarrow> string" where
  "db_PartitionKey opts key = PartitionKey key (open_ShardingDepth opts)"

definition listPageSize :: int where
  "listPageSize = 1000"

definition item_of :: "KeyMeta \<Rightarrow> Meta" where
  "item_of m = \<lparr>mt_Key = kmKey m, mt_ETag = kmETag m, mt_ModTime = kmModTime m, mt_Size = kmSize m\<rparr>"

definition db_ListPage ::
  "('s, 'a) dbenv \<Rightarrow> (nat \<Rightarrow> gotime) \<Rightarrow> string \<Rightarrow> int \<Rightarrow> string \<Rightarrow> 's database \<Rightarrow>
   (gerror + (Meta list \<times> string)) \<times> 's database" where
  "db_ListPage env clk prefx lim cursor d =
     (let limit = (if lim \<le> 0 then listPageSize else lim);
          opts = \<lparr>loLimit = limit, loCursor = cursor, loDelimiter = []\<rparr>;
          (r, d1) = (case d_list d of
              Some c \<Rightarrow>
                let (r, s, c') = ListCache_ListPage (e_driver env) clk prefx opts (d_store d) c
                in (r, d\<lparr>d_store := s, d_list := Some c'\<rparr>)
            | None \<Rightarrow>
                let (r, s) = dList (e_driver env) (d_store d) prefx opts in (r, d\<lparr>d_store := s\<rparr>))
      in case r of
           Inl err \<Rightarrow> (Inl err, d1)
         | Inr (metas, nxt) \<Rightarrow> (Inr (map item_of metas, nxt), d1))"

partial_function (option) list_loop ::
  "('s, 'a) dbenv \<Rightarrow> (nat \<Rightarrow> nat \<Rightarrow> gotime) \<Rightarrow> string \<Rightarrow> int \<Rightarrow> Meta list \<Rightarrow> string \<Rightarrow> nat \<Rightarrow> 's database \<Rightarrow>
   ((gerror + Meta list) \<times> 's database) option" where
  "list_loop env clk prefx limit items cursor i d =
     (let remaining = limit - int (length items);
          pageLimit = (if limit > 0 \<and> remaining < listPageSize then remaining else listPageSize)
      in case db_ListPage env (clk i) prefx pageLimit cursor d of
           (Inl err, d1) \<Rightarrow> Some (Inl err, d1)
         | (Inr (pg, nxt), d1) \<Rightarrow>
             let items1 = items @ pg in
             if limit > 0 \<and> int (length items1) \<ge> limit then Some (Inr (take (nat limit) items1), d1)
             else if nxt = [] \<or> length pg = 0 then Some (Inr items1, d1)
             else list_loop env clk prefx limit items1 nxt (i + 1) d1)"

definition db_List ::
  "('s, 'a) dbenv \<Rightarrow> (nat \<Rightarrow> nat \<Rightarrow> gotime) \<Rightarrow> string \<Rightarrow> int \<Rightarrow> 's database \<Rightarrow> ((gerror + Meta list) \<times> 's database) option" where
  "db_List env clk prefx limit d = list_loop env clk prefx limit [] [] 0 d"

text \<open>
  \<open>Close\<close>: of the cluster node, the removal of the handler; the shutdown of the node itself, for a
  database without namespace, is outside the model.
\<close>

definition db_Close :: "('s, 'a) dbenv \<Rightarrow> 'h Node option \<Rightarrow> 's database \<Rightarrow> (gerror option \<times> 'h Node option \<times> 's database) option" where
  "db_Close env node d =
     (let d1 = d\<lparr>d_list := map_option ListCache_Purge (d_list d)\<rparr>;
          node1 = map_option (UnregisterHandler (e_namespace env)) node
      in case (if m_budget (cs_mgrs (d_cs d1) (e_mgr env))
               then Unregister EvictOldest (e_mgr env) (cs_budget (d_cs d1)) (cs_mgrs (d_cs d1))
               else Some (cs_budget (d_cs d1), cs_mgrs (d_cs d1))) of
           None \<Rightarrow> None
         | Some (b, h) \<Rightarrow>
             let (err, s) = dClose (e_driver env) (d_store d1)
             in Some (err, node1, d1\<lparr>d_store := s, d_cs := (d_cs d1)\<lparr>cs_budget := b, cs_mgrs := h\<rparr>\<rparr>))"

section \<open>The invariant of an open database\<close>

lemma Manager_Get_driver_state:
  "Manager_Get d i clk key s cs = Some (r, s', cs') \<Longrightarrow> s' = s \<or> s' = snd (dGet d s key)"
  by (auto simp: Manager_Get_def Get_lead_def Let_def split: prod.splits option.splits sum.splits)

locale db_driver = cas_driver d stored drv_ok + list_driver d listed drv_ok
  for d :: "'s Driver" and stored and listed and drv_ok +
  assumes list_stored: "drv_ok s \<Longrightarrow> dList d s p opts = (r, s') \<Longrightarrow> stored s' = stored s"
begin

definition db_inv :: "nat \<Rightarrow> 's database \<Rightarrow> bool" where
  "db_inv i db \<longleftrightarrow> drv_ok (d_store db) \<and> cs_ok 0 (d_cs db) \<and> live i (d_cs db) \<and>
     coherent i (stored (d_store db)) (d_cs db) \<and>
     (\<forall>c. d_list db = Some c \<longrightarrow> lc_bounded c \<and> lc_current d (d_store db) c)"

lemma db_invD:
  assumes "db_inv i db"
  shows "drv_ok (d_store db)" "cs_ok 0 (d_cs db)" "live i (d_cs db)" "coherent i (stored (d_store db)) (d_cs db)"
    "d_list db = Some c \<Longrightarrow> lc_bounded c" "d_list db = Some c \<Longrightarrow> lc_current d (d_store db) c"
  using assms by (auto simp: db_inv_def)

lemma Open_inv:
  assumes "drv_ok s" and "cs_ok 0 cs" and "i \<notin> set (b_evictors (cs_budget cs))"
  shows "db_inv i (fst (db_Open i opts ns h s cs node))"
proof -
  let ?cfg = "\<lparr>cfg_TTL = do_CacheTTL opts, cfg_MaxObjectSize = do_CacheMaxObjectSize opts, cfg_Budget = do_CacheBudget opts\<rparr>"
  have "live i (NewManagerWithConfig i ?cfg cs)" by (simp add: live_def NewManagerWithConfig_def Let_def Register_def)
  then show ?thesis
    using assms New_ok(1,2) [OF assms(2,3)] NewListCache_bounded by (auto simp: db_inv_def db_Open_def coherent_def)
qed

lemma purge_inv:
  assumes inv: "db_inv i db"
    and l: "\<And>c. l = Some c \<Longrightarrow> lc_bounded c \<and> lc_current d (d_store db) c"
  shows "db_inv i (db\<lparr>d_cs := snd (PurgeIf i P (d_cs db)), d_list := l, d_reconciledGen := g\<rparr>)"
    "cached (cs_mgrs (snd (PurgeIf i P (d_cs db))) i) = (\<lambda>k. if P k then None else cached (cs_mgrs (d_cs db) i) k)"
proof -
  obtain n cs' where p: "PurgeIf i P (d_cs db) = (n, cs')" by fastforce
  note L = PurgeIf_laws [OF db_invD(2,3) [OF inv] p]
  have "coherent i (stored (d_store db)) cs'"
    by (rule coherent_shrink [OF db_invD(4) [OF inv]]) (simp add: cached_obj_def L(2) split: if_splits)
  then show "db_inv i (db\<lparr>d_cs := snd (PurgeIf i P (d_cs db)), d_list := l, d_reconciledGen := g\<rparr>)"
    using inv L(1,4) p l by (simp add: db_inv_def)
  show "cached (cs_mgrs (snd (PurgeIf i P (d_cs db))) i) = (\<lambda>k. if P k then None else cached (cs_mgrs (d_cs db) i) k)"
    using L(2) p by simp
qed

lemma Purge_list_inv:
  "lc_bounded c \<Longrightarrow> lc_bounded (ListCache_Purge c) \<and> lc_current d s (ListCache_Purge c)"
  using Purge_laws [of c] by (auto simp: lc_bounded_def lc_current_def)

lemma InvalidateKey_bounded: "lc_bounded c \<Longrightarrow> lc_bounded (InvalidateKey key c) \<and> lc_ok c"
  using invalidate_bounded [of c] by (simp add: InvalidateKey_def) (simp add: lc_bounded_def)

lemma reconcile_inv:
  assumes inv: "db_inv i db"
  shows "db_inv i (reconcile i self ring0 ringAt ring2 db)"
    "d_store (reconcile i self ring0 ringAt ring2 db) = d_store db"
proof -
  have l: "lc_bounded c \<and> lc_current d (d_store db) c" if "map_option ListCache_Purge (d_list db) = Some c" for c
    using that db_invD(5) [OF inv] Purge_list_inv by auto
  let ?P = "\<lambda>key. foreign_key (ringAt key) self key" and ?l = "map_option ListCache_Purge (d_list db)"
  let ?db = "db\<lparr>d_cs := snd (PurgeIf i ?P (d_cs db)), d_list := ?l, d_reconciledGen := d_reconciledGen db\<rparr>"
  have sel: "db_inv i ?db" by (rule purge_inv(1) [where l = ?l, OF inv l])
  have l2: "lc_bounded c \<and> lc_current d (d_store ?db) c" if "map_option ListCache_Purge (d_list ?db) = Some c" for c
    using that db_invD(5) [OF sel] Purge_list_inv by auto
  let ?g = "Generation ring0"
  have "db_inv i (db\<lparr>d_cs := snd (PurgeIf i (\<lambda>_. True) (d_cs db)), d_list := ?l, d_reconciledGen := ?g\<rparr>)"
    by (rule purge_inv(1) [where l = ?l, OF inv l])
  moreover have "db_inv i (db\<lparr>d_list := ?l, d_cs := snd (PurgeIf i ?P (d_cs db)), d_reconciledGen := ?g\<rparr>)"
    using purge_inv(1) [where l = ?l and P = ?P, OF inv l] by (simp add: db_inv_def)
  moreover have "db_inv i (?db\<lparr>d_cs := snd (PurgeIf i (\<lambda>_. True) (d_cs ?db)),
      d_list := map_option ListCache_Purge (d_list ?db), d_reconciledGen := ?g\<rparr>)"
    by (rule purge_inv(1) [where l = "map_option ListCache_Purge (d_list ?db)", OF sel l2])
  ultimately show "db_inv i (reconcile i self ring0 ringAt ring2 db)"
    using inv by (simp add: reconcile_def purgeEverything_def Let_def)
  show "d_store (reconcile i self ring0 ringAt ring2 db) = d_store db"
    by (simp add: reconcile_def purgeEverything_def Let_def)
qed

lemma reconcile_cached:
  assumes inv: "db_inv i db" and gen: "d_reconciledGen db \<noteq> Generation ring0"
  shows "cached (cs_mgrs (d_cs (reconcile i self ring0 ringAt ring2 db)) i) k =
    (if Generation ring0 > d_reconciledGen db + 1 \<or> Generation ring2 \<noteq> Generation ring0 \<or> foreign_key (ringAt k) self k
     then None else cached (cs_mgrs (d_cs db) i) k)"
proof -
  let ?P = "\<lambda>key. foreign_key (ringAt key) self key"
  have l: "\<And>c. d_list db = Some c \<Longrightarrow> lc_bounded c \<and> lc_current d (d_store db) c" using db_invD(5,6) [OF inv] by auto
  let ?db = "db\<lparr>d_cs := snd (PurgeIf i ?P (d_cs db)), d_list := d_list db, d_reconciledGen := d_reconciledGen db\<rparr>"
  note one = purge_inv(2) [where l = "d_list db", OF inv l]
  have sel: "db_inv i ?db" by (rule purge_inv(1) [where l = "d_list db", OF inv l])
  have l2: "\<And>c. d_list ?db = Some c \<Longrightarrow> lc_bounded c \<and> lc_current d (d_store ?db) c" using l by simp
  note two = purge_inv(2) [where l = "d_list ?db" and P = "\<lambda>_. True", OF sel l2]
  show ?thesis using one [where P = "\<lambda>_. True"] one [where P = ?P] two gen
    by (simp add: reconcile_def purgeEverything_def Let_def)
qed

lemma reconcileOwnership_inv:
  assumes "db_inv (e_mgr env) db"
  shows "db_inv (e_mgr env) (reconcileOwnership env db)" "d_store (reconcileOwnership env db) = d_store db"
  using reconcile_inv [OF assms] assms by (auto simp: reconcileOwnership_def split: option.splits)

section \<open>The operations\<close>

lemma readLocal_inv:
  assumes inv: "db_inv i db" and env: "e_driver env = d" "e_mgr env = i"
  shows "\<exists>r db'. readLocal env clk key False db = Some (r, db') \<and> db_inv i db' \<and>
    stored (d_store db') = stored (d_store db) \<and> listed (d_store db') = listed (d_store db) \<and>
    (case stored (d_store db) key of None \<Rightarrow> r = Inl ErrNotFound
     | Some dc \<Rightarrow> \<exists>obj. r = Inr (Some obj) \<and> doc_of obj = dc)"
proof -
  let ?s = "d_store db" and ?cs = "d_cs db"
  note I = db_invD [OF inv]
  obtain r s' cs' where G: "Manager_Get d i clk key ?s ?cs = Some (r, s', cs')" "drv_ok s'" "stored s' = stored ?s"
    "cs_ok 0 cs'" "live i cs'" "coherent i (stored s') cs'"
    "\<forall>obj. r = Inr (Some obj) \<longrightarrow> stored ?s key = Some (doc_of obj)"
    "if fresh_entry clk (cs_mgrs ?cs i) key then r = Inr (cached_obj ?cs i key) \<and> s' = ?s \<and> cached_obj ?cs i key \<noteq> None
     else r = fst (dGet d ?s key)"
    using Manager_Get_coherent [OF I(1-4), of clk key] by blast
  have ls: "listed s' = listed ?s"
    using Manager_Get_driver_state [OF G(1)] lget_frame [OF I(1), of key "fst (dGet d ?s key)" "snd (dGet d ?s key)"] by auto
  have "lc_current d s' c" if "d_list db = Some c" for c
    using current_state [OF I(6) [OF that] I(1) G(2) ls] .
  then have inv': "db_inv i (db\<lparr>d_store := s', d_cs := cs'\<rparr>)" using G I(5) by (simp add: db_inv_def)
  have ex: "case stored ?s key of None \<Rightarrow> fst (dGet d ?s key) = Inl ErrNotFound
     | Some dc \<Rightarrow> \<exists>obj. fst (dGet d ?s key) = Inr (Some obj) \<and> oKey obj = key \<and> doc_of obj = dc"
    using get_exact [OF I(1), of key "fst (dGet d ?s key)" "snd (dGet d ?s key)"] by simp
  have "case stored ?s key of None \<Rightarrow> r = Inl ErrNotFound | Some dc \<Rightarrow> \<exists>obj. r = Inr (Some obj) \<and> doc_of obj = dc"
  proof (cases "fresh_entry clk (cs_mgrs ?cs i) key")
    case True
    then obtain obj where "r = Inr (Some obj)" using G(8) by auto
    with G(7) show ?thesis by auto
  next
    case False
    with G(8) ex show ?thesis by (auto split: option.splits)
  qed
  with G(1,3) ls inv' env show ?thesis by (auto simp: readLocal_def)
qed

lemma put_cached_inv:
  assumes inv: "db_inv i db" and env: "e_driver env = d" "e_mgr env = i"
  shows "\<exists>r db'. put_cached env clk key w e db = Some (r, db') \<and> db_inv i db' \<and>
    (case put_precondition e (stored (d_store db) key) of
       Some err \<Rightarrow> r = Inl err \<and> stored (d_store db') = stored (d_store db)
     | None \<Rightarrow> \<exists>obj. r = Inr (Some obj) \<and> oKey obj = key \<and> oValue obj = w \<and>
         stored (d_store db') = (stored (d_store db))(key \<mapsto> doc_of obj))"
proof -
  let ?s = "d_store db" and ?cs = "d_cs db"
  note I = db_invD [OF inv]
  obtain r s' where p: "dPut d ?s key w e = (r, s')" by fastforce
  obtain cs' where G: "Manager_Put d i clk key w e ?s ?cs = Some (r, s', cs')" "drv_ok s'" "cs_ok 0 cs'" "live i cs'"
    "coherent i (stored s') cs'"
    using Manager_Put_coherent [OF I(1-4), of clk key w e] p by auto
  note F = lput_frame [OF I(1) p]
  have keep: "lc_current d s' c" if "d_list db = Some c" "\<exists>err. r = Inl err" for c
    using current_state [OF I(6) [OF that(1)] I(1) G(2)] F that(2) by blast
  have drop: "lc_bounded (InvalidateKey key c) \<and> lc_current d s' (InvalidateKey key c)" if "d_list db = Some c" for c
    using current_InvalidateKey [OF _ I(6) [OF that] I(1) G(2), of key] F InvalidateKey_bounded [OF I(5) [OF that], of key]
    by blast
  have P: "case put_precondition e (stored ?s key) of
       Some err \<Rightarrow> r = Inl err \<and> stored s' = stored ?s
     | None \<Rightarrow> \<exists>obj. r = Inr (Some obj) \<and> oKey obj = key \<and> oValue obj = w \<and> stored s' = (stored ?s)(key \<mapsto> doc_of obj)"
    using put_exact [OF I(1) p] .
  show ?thesis
  proof (cases r)
    case (Inl err)
    then have "put_cached env clk key w e db = Some (Inl err, db\<lparr>d_store := s', d_cs := cs'\<rparr>)"
      using G(1) env by (simp add: put_cached_def)
    moreover have "db_inv i (db\<lparr>d_store := s', d_cs := cs'\<rparr>)" using G I(5) keep Inl by (simp add: db_inv_def)
    ultimately show ?thesis using P Inl by (auto split: option.splits)
  next
    case (Inr obj)
    then have "put_cached env clk key w e db = Some (Inr obj, invalidate_list key (db\<lparr>d_store := s', d_cs := cs'\<rparr>))"
      using G(1) env by (simp add: put_cached_def)
    moreover have "db_inv i (invalidate_list key (db\<lparr>d_store := s', d_cs := cs'\<rparr>))"
      using G drop by (auto simp: db_inv_def invalidate_list_def)
    ultimately show ?thesis using P Inr by (auto simp: invalidate_list_def split: option.splits)
  qed
qed

lemma delete_cached_inv:
  assumes inv: "db_inv i db" and env: "e_driver env = d" "e_mgr env = i"
  shows "\<exists>db'. delete_cached env key e db = (delete_precondition e (stored (d_store db) key), db') \<and> db_inv i db' \<and>
    stored (d_store db') = (if delete_precondition e (stored (d_store db) key) = None
      then (stored (d_store db))(key := None) else stored (d_store db))"
proof -
  let ?s = "d_store db" and ?cs = "d_cs db"
  note I = db_invD [OF inv]
  obtain err s' cs' where M: "Manager_Delete d i key e ?s ?cs = (err, s', cs')" by (metis prod_cases3)
  note G = Manager_Delete_coherent [OF I(1-4) M]
  have D: "dDelete d ?s key e = (err, s')" using G(1) by simp
  note F = ldelete_frame [OF I(1) D] and X = delete_exact [OF I(1) D]
  have keep: "lc_current d s' c" if "d_list db = Some c" "err \<noteq> None" for c
    using current_state [OF I(6) [OF that(1)] I(1) G(2)] F that(2) by blast
  have drop: "lc_bounded (InvalidateKey key c) \<and> lc_current d s' (InvalidateKey key c)" if "d_list db = Some c" for c
    using current_InvalidateKey [OF _ I(6) [OF that] I(1) G(2), of key] F InvalidateKey_bounded [OF I(5) [OF that], of key]
    by blast
  let ?db = "if err = None then invalidate_list key (db\<lparr>d_store := s', d_cs := cs'\<rparr>) else db\<lparr>d_store := s', d_cs := cs'\<rparr>"
  have "delete_cached env key e db = (err, ?db)" using M env by (auto simp: delete_cached_def Let_def)
  moreover have "db_inv i ?db" using G keep drop I(5) by (auto simp: db_inv_def invalidate_list_def)
  ultimately show ?thesis using X by (auto simp: invalidate_list_def)
qed

lemma ListPage_inv:
  assumes inv: "db_inv i db" and env: "e_driver env = d" and p: "CHR ''|'' \<notin> set p"
  shows "\<exists>db'. db_ListPage env clk p lim cur db =
      (map_sum (\<lambda>x. x) (\<lambda>(metas, nxt). (map item_of metas, nxt))
        (fst (dList d (d_store db) p (page_opts (if lim \<le> 0 then listPageSize else lim) cur))), db') \<and>
    db_inv i db' \<and> stored (d_store db') = stored (d_store db) \<and> listed (d_store db') = listed (d_store db) \<and>
    (d_store db' = d_store db \<or>
     d_store db' = snd (dList d (d_store db) p (page_opts (if lim \<le> 0 then listPageSize else lim) cur)))"
proof -
  let ?s = "d_store db" and ?o = "page_opts (if lim \<le> 0 then listPageSize else lim) cur"
  note I = db_invD [OF inv]
  have o: "\<lparr>loLimit = if lim \<le> 0 then listPageSize else lim, loCursor = cur, loDelimiter = []\<rparr> = ?o"
    by (simp add: page_opts_def)
  have fin: "(case r of Inl err \<Rightarrow> (Inl err, db') | Inr (metas, nxt) \<Rightarrow> (Inr (map item_of metas, nxt), db')) =
      (map_sum (\<lambda>x. x) (\<lambda>(metas, nxt). (map item_of metas, nxt)) r, db')" for r :: "gerror + KeyMeta list \<times> string" and db'
    by (auto split: sum.splits)
  obtain r s' where L: "dList d ?s p ?o = (r, s')" by fastforce
  show ?thesis
  proof (cases "d_list db")
    case None
    have fr: "drv_ok s'" "stored s' = stored ?s" "listed s' = listed ?s"
      using list_frame [OF I(1) L] list_stored [OF I(1) L] by auto
    then have "db_inv i (db\<lparr>d_store := s'\<rparr>)" using inv None by (simp add: db_inv_def)
    moreover have "db_ListPage env clk p lim cur db =
        (map_sum (\<lambda>x. x) (\<lambda>(metas, nxt). (map item_of metas, nxt)) r, db\<lparr>d_store := s'\<rparr>)"
      using None L env by (simp add: db_ListPage_def o fin)
    ultimately show ?thesis using fr L by auto
  next
    case (Some c)
    obtain r2 s2 c2 where P: "ListCache_ListPage d clk p ?o ?s c = (r2, s2, c2)" by (metis prod_cases3)
    have q: "plain_query p ?o" using p by (simp add: plain_query_def page_opts_def)
    note C = ListPage_current [OF I(5) [OF Some] I(6) [OF Some] I(1) q P]
    have ds: "s2 = ?s \<or> s2 = s'" using ListPage_laws(5) [OF _ _ _ P] I(5) [OF Some] L by (auto simp: lc_bounded_def)
    then have st: "stored s2 = stored ?s" using list_stored [OF I(1) L] by auto
    have "lc_bounded c2" using list_step_bounded [OF I(5) [OF Some], of d "LPage clk p ?o" ?s s2 c2] P by simp
    then have "db_inv i (db\<lparr>d_store := s2, d_list := Some c2\<rparr>)" using inv C st by (simp add: db_inv_def)
    moreover have "db_ListPage env clk p lim cur db =
        (map_sum (\<lambda>x. x) (\<lambda>(metas, nxt). (map item_of metas, nxt)) r2, db\<lparr>d_store := s2, d_list := Some c2\<rparr>)"
      using Some P env by (simp add: db_ListPage_def o fin)
    ultimately show ?thesis using C st ds L by auto
  qed
qed

end

interpretation mem: db_driver "mem_driver sha" mem_stored mem_listed mem_ok
  by unfold_locales (simp, metis mem_List_state snd_conv)

end
