(* ===== verification/DatabaseProps.thy ===== *)
theory DatabaseProps
  imports Database
begin

text \<open>
  Runs of one database, from \<open>Open\<close> on, over any driver that keeps the storage contract: the
  operations as a refinement of a compare-and-swap map, listings, the codec round trip, and what
  is left after a purge or a \<open>Close\<close>. The operations do not overlap, and every key is local: either
  there is no cluster, or the ring gives the key to this node. The cluster as a whole is the
  subject of the theory Cluster.
\<close>

section \<open>Listings\<close>

locale db_lister = db_driver d stored listed drv_ok + pager d rest pageable
  for d :: "'s Driver" and stored and listed and drv_ok and rest and pageable
begin

lemma ListPage_page:
  assumes inv: "db_inv i db" "pageable (d_store db)" and env: "e_driver env = d" and p: "CHR ''|'' \<notin> set p"
  shows "\<exists>metas nxt db'. db_ListPage env clk p lim cur db = (Inr (map item_of metas, nxt), db') \<and> db_inv i db' \<and>
     pageable (d_store db') \<and> rest (d_store db') = rest (d_store db) \<and> stored (d_store db') = stored (d_store db) \<and>
     is_page (rest (d_store db) p cur) (rest (d_store db) p) (if lim \<le> 0 then listPageSize else lim) (metas, nxt)"
proof -
  let ?lim = "if lim \<le> 0 then listPageSize else lim"
  obtain r s' where L: "dList d (d_store db) p (page_opts ?lim cur) = (r, s')" by fastforce
  have "0 < ?lim" by (simp add: listPageSize_def)
  from page_result [OF inv(2) this L] obtain metas nxt where
    P: "r = Inr (metas, nxt)" "is_page (rest (d_store db) p cur) (rest (d_store db) p) ?lim (metas, nxt)"
    "pageable s'" "rest s' = rest (d_store db)" by (auto simp: fun_eq_iff)
  from ListPage_inv [OF inv(1) env p, of clk lim cur] obtain db' where
    "db_ListPage env clk p lim cur db = (map_sum (\<lambda>x. x) (\<lambda>(metas, nxt). (map item_of metas, nxt)) r, db')"
    "db_inv i db'" "stored (d_store db') = stored (d_store db)" "d_store db' = d_store db \<or> d_store db' = s'"
    using L by auto
  with P inv(2) show ?thesis by auto
qed

text \<open>The loop of \<open>List\<close> ends, and what it returns does not depend on where the pages end.\<close>

lemma list_loop_all:
  assumes "db_inv i db" "pageable (d_store db)" and env: "e_driver env = d" and p: "CHR ''|'' \<notin> set p"
    and "limit \<le> 0 \<or> int (length items) < limit"
  shows "\<exists>db'. list_loop env clk p limit items cur n db =
      Some (Inr (if limit \<le> 0 then items @ map item_of (rest (d_store db) p cur)
        else take (nat limit) (items @ map item_of (rest (d_store db) p cur))), db') \<and>
    db_inv i db' \<and> pageable (d_store db') \<and> rest (d_store db') = rest (d_store db) \<and>
    stored (d_store db') = stored (d_store db)"
  using assms(1,2,5)
proof (induction "length (rest (d_store db) p cur)" arbitrary: items cur n db rule: less_induct)
  case less
  let ?R = "rest (d_store db) p cur"
  let ?pl = "if limit > 0 \<and> limit - int (length items) < listPageSize then limit - int (length items) else listPageSize"
  have pl: "(if ?pl \<le> 0 then listPageSize else ?pl) = ?pl" using less.prems(3) by (auto simp: listPageSize_def)
  obtain metas nxt db1 where P: "db_ListPage env (clk n) p ?pl cur db = (Inr (map item_of metas, nxt), db1)"
    "db_inv i db1" "pageable (d_store db1)" "rest (d_store db1) = rest (d_store db)"
    "stored (d_store db1) = stored (d_store db)" "is_page ?R (rest (d_store db) p) ?pl (metas, nxt)"
    using ListPage_page [OF less.prems(1,2) env p, of "clk n" ?pl cur] unfolding pl by blast
  have pg: "int (length metas) \<le> ?pl" "?R = metas @ drop (length metas) ?R" "nxt = [] \<Longrightarrow> metas = ?R"
    "nxt \<noteq> [] \<Longrightarrow> metas \<noteq> [] \<and> rest (d_store db) p nxt = drop (length metas) ?R"
    using P(6) append_take_drop_id [of "length metas" ?R] by (auto simp: is_page_def split: if_splits)
  define items1 where "items1 = items @ map item_of metas"
  define left where "left = drop (length metas) ?R"
  have all: "items @ map item_of ?R = items1 @ map item_of left"
    using arg_cong [OF pg(2), of "\<lambda>r. items @ map item_of r"] by (simp add: items1_def left_def)
  have step: "list_loop env clk p limit items cur n db =
      (if limit > 0 \<and> int (length items1) \<ge> limit then Some (Inr (take (nat limit) items1), db1)
       else if nxt = [] \<or> metas = [] then Some (Inr items1, db1)
       else list_loop env clk p limit items1 nxt (n + 1) db1)"
    by (subst list_loop.simps) (simp add: Let_def P(1) items1_def)
  consider (full) "limit > 0" "int (length items1) \<ge> limit"
    | (final) "\<not> (limit > 0 \<and> int (length items1) \<ge> limit)" "nxt = []"
    | (more) "\<not> (limit > 0 \<and> int (length items1) \<ge> limit)" "nxt \<noteq> []" by blast
  then show ?case
  proof cases
    case full
    then have "take (nat limit) (items1 @ map item_of left) = take (nat limit) items1" by simp
    with full P(2-5) step all show ?thesis by simp
  next
    case final
    have "left = []" using pg(3) [OF final(2)] by (simp add: left_def)
    moreover have "limit \<le> 0 \<or> length items1 \<le> nat limit" using final(1) by auto
    ultimately have "(if limit \<le> 0 then items @ map item_of ?R else take (nat limit) (items @ map item_of ?R)) = items1"
      unfolding all by auto
    moreover have "list_loop env clk p limit items cur n db = Some (Inr items1, db1)" using final step by auto
    ultimately show ?thesis using P(2-5) by simp
  next
    case more
    have m: "metas \<noteq> []" "rest (d_store db1) p nxt = left" using pg(4) more P(4) by (auto simp: left_def)
    have "length ?R = length metas + length left"
      using arg_cong [OF pg(2), of length] unfolding left_def length_append .
    with m have "length (rest (d_store db1) p nxt) < length ?R" by simp
    moreover have "limit \<le> 0 \<or> int (length items1) < limit" using more(1) by auto
    ultimately have "\<exists>db'. list_loop env clk p limit items1 nxt (n + 1) db1 =
        Some (Inr (if limit \<le> 0 then items1 @ map item_of left else take (nat limit) (items1 @ map item_of left)), db') \<and>
      db_inv i db' \<and> pageable (d_store db') \<and> rest (d_store db') = rest (d_store db1) \<and>
      stored (d_store db') = stored (d_store db1)"
      using less.hyps [OF _ P(2,3)] m(2) by blast
    with more m(1) step all P(4,5) show ?thesis by (simp only: if_False simp_thms)
  qed
qed

end

interpretation mem: db_lister "mem_driver sha" mem_stored mem_listed mem_ok mem_rest mem_pageable
  by unfold_locales

section \<open>Runs of one database\<close>

datatype 'a db_op =
    DoGet "nat \<Rightarrow> gotime" string bool
  | DoPut "nat \<Rightarrow> gotime" string 'a "PutOption list"
  | DoDelete string "DeleteOption list"
  | DoListPage "nat \<Rightarrow> gotime" string int string

fun db_step :: "('s, 'a) dbenv \<Rightarrow> 'a db_op \<Rightarrow> 's database \<Rightarrow> 's database option" where
  "db_step env (DoGet clk key dest) db = map_option snd (db_Get env clk key dest db)"
| "db_step env (DoPut clk key doc opts) db = map_option snd (db_Put env clk key doc opts db)"
| "db_step env (DoDelete key opts) db = Some (snd (db_Delete env key opts db))"
| "db_step env (DoListPage clk p lim cur) db = Some (snd (db_ListPage env clk p lim cur db))"

text \<open>
  The operations on keys this node serves itself, and listings whose prefix has no bar (see the
  collision of list cache keys in ListCache).
\<close>

fun local_op :: "('s, 'a) dbenv \<Rightarrow> 'a db_op \<Rightarrow> bool" where
  "local_op env (DoGet clk key dest) = (route env key = None)"
| "local_op env (DoPut clk key doc opts) = (route env key = None)"
| "local_op env (DoDelete key opts) = (route env key = None)"
| "local_op env (DoListPage clk p lim cur) = (CHR ''|'' \<notin> set p)"

text \<open>
  The states of a database at Manager address \<open>i\<close> that operations reach from \<open>Open\<close>. The ring and
  the rest of the environment may differ from one operation to the next.
\<close>

inductive db_reach :: "'s Driver \<Rightarrow> 'a Codec \<Rightarrow> nat \<Rightarrow> 's \<Rightarrow> cache_state \<Rightarrow> 's database \<Rightarrow> bool"
  for d :: "'s Driver" and codec :: "'a Codec" and i :: nat and s0 :: 's and cs0 :: cache_state where
  opened: "db_reach d codec i s0 cs0 (fst (db_Open i opts ns (h :: nat) s0 cs0 node))"
| step: "db_reach d codec i s0 cs0 db \<Longrightarrow> e_driver env = d \<Longrightarrow> e_codec env = codec \<Longrightarrow> e_mgr env = i \<Longrightarrow>
    local_op env op \<Longrightarrow> db_step env op db = Some db' \<Longrightarrow> db_reach d codec i s0 cs0 db'"

context db_driver
begin

lemma Get_spec:
  assumes inv: "db_inv i db" and env: "e_driver env = d" "e_mgr env = i" and rt: "route env key = None"
  shows "\<exists>r db'. db_Get env clk key dest db = Some (r, db') \<and> db_inv i db' \<and>
    stored (d_store db') = stored (d_store db) \<and>
    (case stored (d_store db) key of None \<Rightarrow> r = Inl ErrNotFound
     | Some dc \<Rightarrow> \<exists>obj. doc_of obj = dc \<and> r = decode_doc (e_codec env) dest obj)"
proof -
  let ?db = "reconcileOwnership env db"
  have R: "db_inv i ?db" "d_store ?db = d_store db" using reconcileOwnership_inv [of env db] inv env(2) by auto
  obtain r db' where "readLocal env clk key False ?db = Some (r, db')" "db_inv i db'"
    "stored (d_store db') = stored (d_store db)"
    "case stored (d_store db) key of None \<Rightarrow> r = Inl ErrNotFound
     | Some dc \<Rightarrow> \<exists>obj. r = Inr (Some obj) \<and> doc_of obj = dc"
    using readLocal_inv [OF R(1) env, of clk key] R(2) by auto
  then show ?thesis using rt by (auto simp: db_Get_def get_local_def Let_def split: option.splits)
qed

lemma Put_spec:
  assumes inv: "db_inv i db" and env: "e_driver env = d" "e_mgr env = i" and rt: "route env key = None"
  shows "\<exists>r db'. db_Put env clk key doc opts db = Some (r, db') \<and> db_inv i db' \<and>
    (case cd_Marshal (e_codec env) doc of
       Inl err \<Rightarrow> r = Inl (Wrapped ''db encode error: '' err) \<and> stored (d_store db') = stored (d_store db)
     | Inr w \<Rightarrow>
         (case put_precondition (po_ExpectedETag (put_options opts)) (stored (d_store db) key) of
            Some err \<Rightarrow> r = Inl err \<and> stored (d_store db') = stored (d_store db)
          | None \<Rightarrow> \<exists>m. r = Inr m \<and> mt_Key m = key \<and> stored (d_store db') = (stored (d_store db))(key \<mapsto> (w, mt_ETag m))))"
proof (cases "cd_Marshal (e_codec env) doc")
  case (Inl err)
  then show ?thesis using reconcileOwnership_inv [of env db] inv env(2) by (auto simp: db_Put_def Let_def)
next
  case (Inr w)
  let ?db = "reconcileOwnership env db" and ?e = "po_ExpectedETag (put_options opts)"
  have R: "db_inv i ?db" "d_store ?db = d_store db" using reconcileOwnership_inv [of env db] inv env(2) by auto
  obtain r db' where P: "put_cached env clk key w ?e ?db = Some (r, db')" "db_inv i db'"
    "case put_precondition ?e (stored (d_store db) key) of
       Some err \<Rightarrow> r = Inl err \<and> stored (d_store db') = stored (d_store db)
     | None \<Rightarrow> \<exists>obj. r = Inr (Some obj) \<and> oKey obj = key \<and> oValue obj = w \<and>
         stored (d_store db') = (stored (d_store db))(key \<mapsto> doc_of obj)"
    using put_cached_inv [OF R(1) env, of clk key w ?e] unfolding R(2) by blast
  show ?thesis
  proof (cases "put_precondition ?e (stored (d_store db) key)")
    case None
    then obtain obj where "r = Inr (Some obj)" "oKey obj = key" "oValue obj = w"
      "stored (d_store db') = (stored (d_store db))(key \<mapsto> doc_of obj)" using P(3) by auto
    then show ?thesis using P rt Inr None by (auto simp: db_Put_def Let_def meta_of_def doc_of_def)
  next
    case (Some err)
    then show ?thesis using P rt Inr by (auto simp: db_Put_def Let_def)
  qed
qed

lemma Delete_spec:
  assumes inv: "db_inv i db" and env: "e_driver env = d" "e_mgr env = i" and rt: "route env key = None"
  shows "\<exists>db'. db_Delete env key opts db =
      (delete_precondition (del_ExpectedETag (delete_options opts)) (stored (d_store db) key), db') \<and> db_inv i db' \<and>
    stored (d_store db') = (if delete_precondition (del_ExpectedETag (delete_options opts)) (stored (d_store db) key) = None
      then (stored (d_store db))(key := None) else stored (d_store db))"
proof -
  let ?db = "reconcileOwnership env db"
  have R: "db_inv i ?db" "d_store ?db = d_store db" using reconcileOwnership_inv [of env db] inv env(2) by auto
  show ?thesis using delete_cached_inv [OF R(1) env, of key "del_ExpectedETag (delete_options opts)"] R(2) rt
    by (auto simp: db_Delete_def Let_def)
qed

lemma db_step_inv:
  assumes "db_inv i db" "e_driver env = d" "e_mgr env = i" "local_op env op" "db_step env op db = Some db'"
  shows "db_inv i db'"
proof (cases op)
  case (DoGet clk key dest)
  then show ?thesis using Get_spec [OF assms(1-3), of key clk dest] assms(4,5) by auto
next
  case (DoPut clk key doc opts)
  then show ?thesis using Put_spec [OF assms(1-3), of key clk doc opts] assms(4,5) by auto
next
  case (DoDelete key opts)
  then show ?thesis using Delete_spec [OF assms(1-3), of key opts] assms(4,5) by auto
next
  case (DoListPage clk p lim cur)
  then show ?thesis using ListPage_inv [OF assms(1,2), of p clk lim cur] assms(4,5) by auto
qed

lemma db_reach_inv:
  assumes "db_reach d codec i s0 cs0 db" and "drv_ok s0" "cs_ok 0 cs0" "i \<notin> set (b_evictors (cs_budget cs0))"
  shows "db_inv i db"
  using assms(1)
proof (induction rule: db_reach.induct)
  case (opened opts ns h node)
  show ?case by (rule Open_inv [OF assms(2-4)])
next
  case (step db env op db')
  show ?case by (rule db_step_inv [OF step.IH step.hyps(2,4,5,6)])
qed

end

section \<open>A small database\<close>

text \<open>A database without cluster over the in-memory driver, whose documents are their own encoding.\<close>

definition bytes_codec :: "bytes Codec" where
  "bytes_codec = \<lparr>cd_Marshal = Inr, cd_Unmarshal = Inr\<rparr>"

definition small_env :: "(MemDriver, bytes) dbenv" where
  "small_env = \<lparr>e_driver = mem_driver (\<lambda>bs. bs), e_mgr = 0, e_codec = bytes_codec, e_namespace = [],
     e_cluster = None, e_exec = (\<lambda>_ _ s. (Inl EOF, s)), e_ctxErr = None\<rparr>"

definition small_db :: "MemDriver database" where
  "small_db = fst (db_Open 0 \<lparr>do_CacheTTL = 0, do_CacheMaxObjectSize = 0, do_CacheBudget = True, do_ListCacheTTL = 0,
     do_ListCacheMaxPages = 0, do_ShardingDepth = 0\<rparr> [] (0 :: nat) (mem_NewDriver (\<lambda>_. 0)) (init_cache 10) None)"

lemma small_env_simps [simp]:
  "e_driver small_env = mem_driver (\<lambda>bs. bs)" "e_mgr small_env = 0" "e_codec small_env = bytes_codec"
  "route small_env key = None"
  by (simp_all add: small_env_def route_def)

lemma small_db_store [simp]: "d_store small_db = mem_NewDriver (\<lambda>_. 0)"
  by (simp add: small_db_def db_Open_def)

lemma small_reach:
  "db_reach (mem_driver (\<lambda>bs. bs)) bytes_codec 0 (mem_NewDriver (\<lambda>_. 0)) (init_cache 10) small_db"
  unfolding small_db_def by (rule db_reach.opened)

lemma small_start: "mem_ok (mem_NewDriver (\<lambda>_. 0))" "cs_ok 0 (init_cache 10)" "0 \<notin> set (b_evictors (cs_budget (init_cache 10)))"
  by (rule mem_ok_NewDriver, rule init_ok, simp add: init_cache_def NewBudget_def)

lemma small_inv: "mem.db_inv (\<lambda>bs. bs) 0 small_db"
  by (rule mem.db_reach_inv [OF small_reach small_start])

lemma put_cached_gen: "put_cached env clk key w e db = Some (r, db') \<Longrightarrow> d_reconciledGen db' = d_reconciledGen db"
  by (auto simp: put_cached_def invalidate_list_def split: option.splits prod.splits sum.splits)

text \<open>A write of one byte at key k, and the state it leaves.\<close>

lemma small_put:
  "\<exists>m db'. db_Put small_env (\<lambda>_. 5) ''k'' [7] [] small_db = Some (Inr m, db') \<and>
     mem_stored (d_store db') = [''k'' \<mapsto> ([7], mt_ETag m)] \<and> d_reconciledGen db' = 0 \<and>
     db_reach (mem_driver (\<lambda>bs. bs)) bytes_codec 0 (mem_NewDriver (\<lambda>_. 0)) (init_cache 10) db'"
proof -
  obtain m db' where P: "db_Put small_env (\<lambda>_. 5) ''k'' [7] [] small_db = Some (Inr m, db')"
    "mem_stored (d_store db') = [''k'' \<mapsto> ([7], mt_ETag m)]"
    using mem.Put_spec [OF small_inv, of small_env "''k''" "\<lambda>_. 5" "[7]" "[]"]
    by (auto simp: bytes_codec_def put_options_def)
  have "db_step small_env (DoPut (\<lambda>_. 5) ''k'' [7] []) small_db = Some db'" using P(1) by simp
  then have "db_reach (mem_driver (\<lambda>bs. bs)) bytes_codec 0 (mem_NewDriver (\<lambda>_. 0)) (init_cache 10) db'"
    by (rule db_reach.step [OF small_reach, rotated -1]) simp_all
  moreover have "d_reconciledGen db' = 0"
    using P(1) put_cached_gen [of small_env "\<lambda>_. 5" "''k''" "[7]" "[]" small_db]
    by (auto simp: db_Put_def bytes_codec_def put_options_def reconcileOwnership_def small_env_def small_db_def db_Open_def
        Let_def route_def split: option.splits prod.splits sum.splits)
  ultimately show ?thesis using P by blast
qed

text \<open>The errors that keep their identity on the wire.\<close>

definition sentinel :: "gerror \<Rightarrow> bool" where
  "sentinel err \<longleftrightarrow> err = ErrNotFound \<or> err = ErrAlreadyExists \<or> err = ErrVersionMismatch"

lemma mapErrorString_sentinel: "sentinel err \<Longrightarrow> mapErrorString (Error err) = err \<and> Error err \<noteq> []"
  using Error_sentinels_distinct by (auto simp: sentinel_def mapErrorString_def)

section \<open>Properties\<close>

text \<open>
  C3: one database refines a compare-and-swap map. Over any driver that keeps the storage
  contract, after any operations on local keys since \<open>Open\<close>, every \<open>Get\<close>, \<open>Put\<close> and \<open>Delete\<close> returns;
  \<open>Get\<close> answers with the stored document decoded by the codec or ErrNotFound; \<open>Put\<close> and \<open>Delete\<close> fail
  exactly when the precondition of their ETag option fails (or the document does not encode), then
  change nothing, and otherwise change the stored map at their key only. No cache, expiry,
  eviction, ring change or listing in between shows.
\<close>

theorem db_refines_cas_store:
  assumes "db_driver d stored listed drv_ok"
    and "drv_ok s0" "cs_ok 0 cs0" "i \<notin> set (b_evictors (cs_budget cs0))"
    and "db_reach d (e_codec env) i s0 cs0 db" "e_driver env = d" "e_mgr env = i" "route env key = None"
  shows "(\<exists>r db'. db_Get env clk key dest db = Some (r, db') \<and> stored (d_store db') = stored (d_store db) \<and>
      (case stored (d_store db) key of None \<Rightarrow> r = Inl ErrNotFound
       | Some dc \<Rightarrow> \<exists>obj. doc_of obj = dc \<and> r = decode_doc (e_codec env) dest obj)) \<and>
    (\<exists>r db'. db_Put env clk key doc opts db = Some (r, db') \<and>
      (case cd_Marshal (e_codec env) doc of
         Inl err \<Rightarrow> r = Inl (Wrapped ''db encode error: '' err) \<and> stored (d_store db') = stored (d_store db)
       | Inr w \<Rightarrow>
         (case put_precondition (po_ExpectedETag (put_options opts)) (stored (d_store db) key) of
            Some err \<Rightarrow> r = Inl err \<and> stored (d_store db') = stored (d_store db)
          | None \<Rightarrow> \<exists>m. r = Inr m \<and> mt_Key m = key \<and>
              stored (d_store db') = (stored (d_store db))(key \<mapsto> (w, mt_ETag m))))) \<and>
    (\<exists>db'. db_Delete env key dopts db =
        (delete_precondition (del_ExpectedETag (delete_options dopts)) (stored (d_store db) key), db') \<and>
      stored (d_store db') =
        (if delete_precondition (del_ExpectedETag (delete_options dopts)) (stored (d_store db) key) = None
         then (stored (d_store db))(key := None) else stored (d_store db)))"
proof -
  have inv: "db_driver.db_inv d stored drv_ok i db" by (rule db_driver.db_reach_inv [OF assms(1,5,2-4)])
  note S = db_driver.Get_spec [OF assms(1) inv assms(6-8), of clk dest]
    db_driver.Put_spec [OF assms(1) inv assms(6-8), of clk doc opts]
    db_driver.Delete_spec [OF assms(1) inv assms(6-8), of dopts]
  show ?thesis by (intro conjI; use S in blast)
qed

theorem db_refines_cas_store_witness:
  "\<exists>m db'. db_Put small_env (\<lambda>_. 5) ''k'' [7] [] small_db = Some (Inr m, db') \<and>
     fst (db_Delete small_env ''k'' [WithDeleteExpectedETag (mt_ETag m)] db') = None \<and>
     (\<exists>r db''. db_Get small_env (\<lambda>_. 6) ''k'' True db' = Some (r, db'') \<and>
        (\<exists>obj. doc_of obj = ([7], mt_ETag m) \<and> r = Inr (meta_of obj, Some [7])))"
proof -
  obtain m db' where P: "db_Put small_env (\<lambda>_. 5) ''k'' [7] [] small_db = Some (Inr m, db')"
    "mem_stored (d_store db') = [''k'' \<mapsto> ([7], mt_ETag m)]"
    "db_reach (mem_driver (\<lambda>bs. bs)) (e_codec small_env) 0 (mem_NewDriver (\<lambda>_. 0)) (init_cache 10) db'"
    using small_put by auto
  note R = db_refines_cas_store [OF mem.db_driver_axioms small_start P(3), of "''k''" "\<lambda>_. 6" True "[]" "[]"
      "[WithDeleteExpectedETag (mt_ETag m)]"]
  then show ?thesis
    using P(1,2) by (auto simp: decode_doc_def bytes_codec_def delete_options_def WithDeleteExpectedETag_def
        delete_precondition_def)
qed

text \<open>
  C12: \<open>List\<close> is complete. Over a driver whose pages are consistent, the loop of \<open>List\<close> ends and returns
  the entries under the prefix in the driver's order: all of them when the limit is not positive,
  and otherwise the first \<open>limit\<close> of them, no matter how the storage splits them into pages and
  which of the pages come from the list cache.
\<close>

theorem db_list_complete:
  assumes "db_lister d stored listed drv_ok rest pageable"
    and "drv_ok s0" "cs_ok 0 cs0" "i \<notin> set (b_evictors (cs_budget cs0))"
    and "db_reach d codec i s0 cs0 db" "e_driver env = d" "pageable (d_store db)" "CHR ''|'' \<notin> set p"
  shows "\<exists>db'. db_List env clk p limit db =
      Some (Inr (map item_of (if limit \<le> 0 then rest (d_store db) p [] else take (nat limit) (rest (d_store db) p []))), db') \<and>
    stored (d_store db') = stored (d_store db)"
proof -
  have drv: "db_driver d stored listed drv_ok" using assms(1) by (simp add: db_lister_def)
  have "db_driver.db_inv d stored drv_ok i db" by (rule db_driver.db_reach_inv [OF drv assms(5,2-4)])
  from db_lister.list_loop_all [OF assms(1) this assms(7,6,8), of limit "[]" clk "[]" 0]
  show ?thesis by (auto simp: db_List_def take_map)
qed

theorem db_list_complete_witness:
  "let s = snd (mem_Put (\<lambda>bs. bs) (snd (mem_Put (\<lambda>bs. bs) (mem_NewDriver (\<lambda>_. 0)) ''a/2'' [7] [])) ''a/1'' [] []);
       opts = \<lparr>do_CacheTTL = 0, do_CacheMaxObjectSize = 0, do_CacheBudget = True, do_ListCacheTTL = 0,
         do_ListCacheMaxPages = 0, do_ShardingDepth = 0\<rparr>;
       db = fst (db_Open 0 opts [] (0 :: nat) s (init_cache 10) None)
   in \<exists>db' m. db_List small_env (\<lambda>_ _. 6) ''a'' 1 db = Some (Inr [m], db') \<and> mt_Key m = ''a/1''"
proof -
  let ?s = "snd (mem_Put (\<lambda>bs. bs) (snd (mem_Put (\<lambda>bs. bs) (mem_NewDriver (\<lambda>_. 0)) ''a/2'' [7] [])) ''a/1'' [] [])"
    and ?opts = "\<lparr>do_CacheTTL = 0, do_CacheMaxObjectSize = 0, do_CacheBudget = True, do_ListCacheTTL = 0,
         do_ListCacheMaxPages = 0, do_ShardingDepth = 0\<rparr>"
  let ?db = "fst (db_Open 0 ?opts [] (0 :: nat) ?s (init_cache 10) None)"
  have st: "d_store ?db = ?s" by (simp add: db_Open_def)
  have ok: "mem_ok ?s" "mem_pageable (d_store ?db)" unfolding st
    by (simp_all add: mem_pageable_def mem_ok_def mem_Put_def mem_write_def mem_NewDriver_def Let_def)
  have "db_reach (mem_driver (\<lambda>bs. bs)) bytes_codec 0 ?s (init_cache 10) ?db" by (rule db_reach.opened)
  from db_list_complete [OF mem.db_lister_axioms ok(1) small_start(2,3) this _ ok(2), of small_env "''a''" "\<lambda>_ _. 6" 1]
  have "\<exists>db'. db_List small_env (\<lambda>_ _. 6) ''a'' 1 ?db = Some (Inr (map item_of (take 1 (mem_rest ?s ''a'' []))), db')"
    unfolding st by auto
  moreover have "\<exists>m. map item_of (take 1 (mem_rest ?s ''a'' [])) = [m] \<and> mt_Key m = ''a/1''"
    by (simp add: mem_rest_def mem_list_keys_def mem_Put_def mem_write_def mem_NewDriver_def Let_def item_of_def
        mem_listed_def mem_meta_def HasPrefix_def)
  ultimately show ?thesis by (auto simp: Let_def)
qed

text \<open>
  C13: what is written is what is read. If the codec decodes what it encodes, a document whose \<open>Put\<close>
  succeeded is what the next \<open>Get\<close> of its key returns, with the key and the ETag the \<open>Put\<close> reported.
\<close>

theorem db_put_get_roundtrip:
  assumes "db_driver d stored listed drv_ok"
    and "drv_ok s0" "cs_ok 0 cs0" "i \<notin> set (b_evictors (cs_budget cs0))"
    and "db_reach d (e_codec env) i s0 cs0 db" "e_driver env = d" "e_mgr env = i" "route env key = None"
    and "cd_Marshal (e_codec env) doc = Inr w" "cd_Unmarshal (e_codec env) w = Inr doc"
    and "db_Put env clk key doc opts db = Some (Inr m, db')"
  shows "\<exists>m' db''. db_Get env clk' key True db' = Some (Inr (m', Some doc), db'') \<and> mt_ETag m' = mt_ETag m"
proof -
  have inv: "db_driver.db_inv d stored drv_ok i db" by (rule db_driver.db_reach_inv [OF assms(1,5,2-4)])
  have P: "db_driver.db_inv d stored drv_ok i db'" "stored (d_store db') key = Some (w, mt_ETag m)"
    using db_driver.Put_spec [OF assms(1) inv assms(6-8), of clk doc opts] assms(9,11) by (auto split: option.splits)
  from db_driver.Get_spec [OF assms(1) P(1) assms(6-8), of clk' True] P(2) assms(10)
  show ?thesis by (auto simp: decode_doc_def meta_of_def)
qed

theorem db_put_get_roundtrip_witness:
  "\<exists>m db' m' db''. db_Put small_env (\<lambda>_. 5) ''k'' [7] [] small_db = Some (Inr m, db') \<and>
     db_Get small_env (\<lambda>_. 6) ''k'' True db' = Some (Inr (m', Some [7]), db'') \<and> mt_ETag m' = mt_ETag m"
proof -
  obtain m db' where P: "db_Put small_env (\<lambda>_. 5) ''k'' [7] [] small_db = Some (Inr m, db')" using small_put by blast
  have r: "db_reach (mem_driver (\<lambda>bs. bs)) (e_codec small_env) 0 (mem_NewDriver (\<lambda>_. 0)) (init_cache 10) small_db"
    using small_reach by simp
  from db_put_get_roundtrip [OF mem.db_driver_axioms small_start r _ _ _ _ _ P, of "[7]" "\<lambda>_. 6"] P
  show ?thesis by (auto simp: bytes_codec_def)
qed

text \<open>
  C14: after a membership change nothing foreign is served. Whenever the generation of the ring
  differs from the one last reconciled, reconciling empties the list cache and leaves in the
  document cache only keys whose owner, in the ring read for that key, is this node (or none); if
  more than one change was missed, or the ring moved during the purge, it leaves no key at all.
  Entries that stay are unchanged, and the same generation is not reconciled twice.
\<close>

theorem reconcile_leaves_owned:
  assumes "db_driver d stored listed drv_ok"
    and "drv_ok s0" "cs_ok 0 cs0" "i \<notin> set (b_evictors (cs_budget cs0))"
    and "db_reach d codec i s0 cs0 db" "Generation ring0 \<noteq> d_reconciledGen db"
  shows "let db' = reconcile i self ring0 ringAt ring2 db in
     (\<forall>k it. cached (cs_mgrs (d_cs db') i) k = Some it \<longrightarrow>
        \<not> foreign_key (ringAt k) self k \<and> cached (cs_mgrs (d_cs db) i) k = Some it \<and>
        \<not> Generation ring0 > d_reconciledGen db + 1 \<and> Generation ring2 = Generation ring0) \<and>
     (\<forall>c. d_list db' = Some c \<longrightarrow> ListCache_Size c = 0) \<and>
     d_reconciledGen db' = Generation ring0 \<and> d_store db' = d_store db \<and>
     reconcile i self ring0 ringAt ring2 db' = db'"
proof -
  have inv: "db_driver.db_inv d stored drv_ok i db" by (rule db_driver.db_reach_inv [OF assms(1,5,2-4)])
  let ?db = "reconcile i self ring0 ringAt ring2 db"
  have "cached (cs_mgrs (d_cs ?db) i) k =
    (if Generation ring0 > d_reconciledGen db + 1 \<or> Generation ring2 \<noteq> Generation ring0 \<or> foreign_key (ringAt k) self k
     then None else cached (cs_mgrs (d_cs db) i) k)" for k
    by (rule db_driver.reconcile_cached [OF assms(1) inv assms(6) [symmetric]])
  then have "cached (cs_mgrs (d_cs ?db) i) k = Some it \<Longrightarrow>
        \<not> foreign_key (ringAt k) self k \<and> cached (cs_mgrs (d_cs db) i) k = Some it \<and>
        \<not> Generation ring0 > d_reconciledGen db + 1 \<and> Generation ring2 = Generation ring0" for k it
    by (auto split: if_splits)
  moreover have "\<forall>c. d_list ?db = Some c \<longrightarrow> ListCache_Size c = 0"
    using assms(6) by (auto simp: reconcile_def purgeEverything_def Let_def ListCache_Purge_def ListCache_Size_def)
  moreover have "d_reconciledGen ?db = Generation ring0" by (simp add: reconcile_def Let_def)
  moreover from this have "reconcile i self ring0 ringAt ring2 ?db = ?db" by (simp add: reconcile_def [of i self ring0 ringAt ring2 ?db])
  moreover have "d_store ?db = d_store db" by (rule db_driver.reconcile_inv(2) [OF assms(1) inv])
  ultimately show ?thesis by (simp add: Let_def)
qed

theorem reconcile_leaves_owned_witness:
  "\<exists>m db'. db_Put small_env (\<lambda>_. 5) ''k'' [7] [] small_db = Some (Inr m, db') \<and>
     (let ring = AddNode ''b'' (NewRing 1 0) in
      cached (cs_mgrs (d_cs (reconcile 0 ''a'' ring (\<lambda>_. ring) ring db')) 0) ''k'' = None)"
proof -
  let ?ring = "AddNode ''b'' (NewRing 1 0)"
  obtain m db' where P: "db_Put small_env (\<lambda>_. 5) ''k'' [7] [] small_db = Some (Inr m, db')" "d_reconciledGen db' = 0"
    "db_reach (mem_driver (\<lambda>bs. bs)) bytes_codec 0 (mem_NewDriver (\<lambda>_. 0)) (init_cache 10) db'"
    using small_put by blast
  have g: "Generation ?ring \<noteq> d_reconciledGen db'" by (simp add: P(2) AddNode_def NewRing_def Generation_def)
  have f: "foreign_key ?ring ''a'' ''k''" by (simp add: foreign_key_def GetNode_def AddNode_def NewRing_def shard_index_def)
  from reconcile_leaves_owned [OF mem.db_driver_axioms small_start P(3) g, of "''a''" "\<lambda>_. ?ring" ?ring] f P(1)
  show ?thesis by (cases "cached (cs_mgrs (d_cs (reconcile 0 ''a'' ?ring (\<lambda>_. ?ring) ?ring db')) 0) ''k''") (auto simp: Let_def)
qed

text \<open>
  A node caches nothing it does not own. An operation on a key that the ring gives to another
  node leaves the document cache as the reconciliation left it, whether the forwarded call
  answered or not; and when it did not answer (and the caller still waits), a \<open>Get\<close> returns what the
  storage holds.
\<close>

theorem nonowner_caches_nothing:
  assumes "route env key = Some t"
  shows "(\<forall>r db'. db_Get env clk key dest db = Some (r, db') \<longrightarrow> d_cs db' = d_cs (reconcileOwnership env db)) \<and>
    (\<forall>r db'. db_Put env clk key doc opts db = Some (r, db') \<longrightarrow> d_cs db' = d_cs (reconcileOwnership env db)) \<and>
    d_cs (snd (db_Delete env key dopts db)) = d_cs (reconcileOwnership env db) \<and>
    (\<forall>err s1 s2 r. (\<forall>req. e_exec env t req (d_store (reconcileOwnership env db)) = (Inl err, s1)) \<longrightarrow> e_ctxErr env = None \<longrightarrow>
      dGet (e_driver env) s1 key = (r, s2) \<longrightarrow>
      map_option fst (db_Get env clk key dest db) =
        (case r of Inl e \<Rightarrow> Some (Inl e) | Inr None \<Rightarrow> None | Inr (Some obj) \<Rightarrow> Some (decode_doc (e_codec env) dest obj)))"
proof (intro conjI allI impI)
  fix r db' assume "db_Get env clk key dest db = Some (r, db')"
  then show "d_cs db' = d_cs (reconcileOwnership env db)"
    using assms by (auto simp: db_Get_def get_local_def readLocal_def Let_def split: prod.splits sum.splits option.splits if_splits)
next
  fix r db' assume "db_Put env clk key doc opts db = Some (r, db')"
  then show "d_cs db' = d_cs (reconcileOwnership env db)"
    using assms by (auto simp: db_Put_def Let_def invalidate_list_def split: prod.splits sum.splits option.splits if_splits)
next
  show "d_cs (snd (db_Delete env key dopts db)) = d_cs (reconcileOwnership env db)"
    using assms by (simp add: db_Delete_def Let_def invalidate_list_def split: prod.splits sum.splits)
next
  fix err s1 s2 r
  assume "\<forall>req. e_exec env t req (d_store (reconcileOwnership env db)) = (Inl err, s1)" "e_ctxErr env = None"
    "dGet (e_driver env) s1 key = (r, s2)"
  then show "map_option fst (db_Get env clk key dest db) =
      (case r of Inl e \<Rightarrow> Some (Inl e) | Inr None \<Rightarrow> None | Inr (Some obj) \<Rightarrow> Some (decode_doc (e_codec env) dest obj))"
    using assms by (auto simp: db_Get_def get_local_def readLocal_def Let_def split: sum.splits option.splits)
qed

theorem nonowner_caches_nothing_witness:
  "let env = small_env\<lparr>e_cluster := Some (AddNode ''b'' (NewRing 1 0), ''a'')\<rparr> in
   map_option fst (db_Get env (\<lambda>_. 6) ''k'' True small_db) = Some (Inl ErrNotFound)"
proof -
  let ?env = "small_env\<lparr>e_cluster := Some (AddNode ''b'' (NewRing 1 0), ''a'')\<rparr>"
  have r: "route ?env ''k'' = Some ''b''" by (simp add: route_def GetNode_def AddNode_def NewRing_def shard_index_def)
  have st: "d_store (reconcileOwnership ?env small_db) = mem_NewDriver (\<lambda>_. 0)"
    by (simp add: reconcileOwnership_def mem.reconcile_inv(2) [OF small_inv])
  have "\<forall>req. e_exec ?env ''b'' req (d_store (reconcileOwnership ?env small_db)) = (Inl EOF, mem_NewDriver (\<lambda>_. 0))"
    unfolding st by (simp add: small_env_def)
  moreover have "dGet (e_driver ?env) (mem_NewDriver (\<lambda>_. 0)) ''k'' = (Inl ErrNotFound, mem_NewDriver (\<lambda>_. 0))"
    by (simp add: small_env_def mem_Get_def mem_NewDriver_def)
  moreover have "e_ctxErr ?env = None" by (simp add: small_env_def)
  ultimately have "map_option fst (db_Get ?env (\<lambda>_. 6) ''k'' True small_db) = Some (Inl ErrNotFound)"
    using nonowner_caches_nothing [OF r, of "\<lambda>_. 6" True small_db "[]" "[]" "[]"] by fastforce
  then show ?thesis by (simp add: Let_def)
qed

text \<open>
  C15: a forwarded operation ends as it ended at the owner. If the owner's handler is dispatched
  the request, a \<open>Get\<close>, \<open>Put\<close> or \<open>Delete\<close> reports the object the handler returned, and its storage
  sentinels (not found, already exists, version mismatch) arrive as the same sentinels although
  only their text travels, so callers can still compare errors.
\<close>

theorem forwarded_like_owner:
  assumes "route env key = Some t" and "\<forall>req s. e_exec env t req s = (case dispatch h req s of (resp, s') \<Rightarrow> (Inr resp, s'))"
    and "db0 = reconcileOwnership env db" "cd_Marshal (e_codec env) doc = Inr w"
  shows "(\<forall>obj s'. hGetRaw h (d_store db0) key = (Inr (Some obj), s') \<longrightarrow>
      db_Get env clk key dest db = Some (decode_doc (e_codec env) dest obj, db0\<lparr>d_store := s'\<rparr>)) \<and>
    (\<forall>err s'. hGetRaw h (d_store db0) key = (Inl err, s') \<and> sentinel err \<longrightarrow>
      db_Get env clk key dest db = Some (Inl err, db0\<lparr>d_store := s'\<rparr>)) \<and>
    (\<forall>obj s'. hPutRaw h (d_store db0) key w (po_ExpectedETag (put_options opts)) = (Inr (Some obj), s') \<longrightarrow>
      db_Put env clk key doc opts db = Some (Inr (meta_of obj), invalidate_list key (db0\<lparr>d_store := s'\<rparr>))) \<and>
    (\<forall>err s'. hPutRaw h (d_store db0) key w (po_ExpectedETag (put_options opts)) = (Inl err, s') \<and> sentinel err \<longrightarrow>
      db_Put env clk key doc opts db = Some (Inl err, db0\<lparr>d_store := s'\<rparr>)) \<and>
    (\<forall>err s'. hDeleteRaw h (d_store db0) key (del_ExpectedETag (delete_options dopts)) = (err, s') \<and>
        (\<forall>e. err = Some e \<longrightarrow> sentinel e) \<longrightarrow>
      db_Delete env key dopts db =
        (err, if err = None then invalidate_list key (db0\<lparr>d_store := s'\<rparr>) else db0\<lparr>d_store := s'\<rparr>))"
proof -
  note S = assms(1,2) assms(3) [symmetric] assms(4) mapErrorString_sentinel
  have "db_Get env clk key dest db = Some (decode_doc (e_codec env) dest obj, db0\<lparr>d_store := s'\<rparr>)"
    if "hGetRaw h (d_store db0) key = (Inr (Some obj), s')" for obj s'
    using S that by (simp add: db_Get_def Let_def get_req_def dispatch_def)
  moreover have "db_Get env clk key dest db = Some (Inl err, db0\<lparr>d_store := s'\<rparr>)"
    if "hGetRaw h (d_store db0) key = (Inl err, s') \<and> sentinel err" for err s'
    using S that by (simp add: db_Get_def Let_def get_req_def dispatch_def resp_err_def)
  moreover have "db_Put env clk key doc opts db = Some (Inr (meta_of obj), invalidate_list key (db0\<lparr>d_store := s'\<rparr>))"
    if "hPutRaw h (d_store db0) key w (po_ExpectedETag (put_options opts)) = (Inr (Some obj), s')" for obj s'
    using S that by (simp add: db_Put_def Let_def put_req_def dispatch_def OpGet_def OpPut_def)
  moreover have "db_Put env clk key doc opts db = Some (Inl err, db0\<lparr>d_store := s'\<rparr>)"
    if "hPutRaw h (d_store db0) key w (po_ExpectedETag (put_options opts)) = (Inl err, s') \<and> sentinel err" for err s'
    using S that by (simp add: db_Put_def Let_def put_req_def dispatch_def resp_err_def OpGet_def OpPut_def)
  moreover have "db_Delete env key dopts db =
      (err, if err = None then invalidate_list key (db0\<lparr>d_store := s'\<rparr>) else db0\<lparr>d_store := s'\<rparr>)"
    if "hDeleteRaw h (d_store db0) key (del_ExpectedETag (delete_options dopts)) = (err, s') \<and>
      (\<forall>e. err = Some e \<longrightarrow> sentinel e)" for err s'
    using S that by (cases err) (simp_all add: db_Delete_def Let_def delete_req_def dispatch_def resp_err_def OpGet_def OpPut_def OpDelete_def)
  ultimately show ?thesis by blast
qed

theorem forwarded_like_owner_witness:
  "let h = \<lparr>hGetRaw = mem_Get, hPutRaw = mem_Put (\<lambda>bs. bs), hDeleteRaw = mem_Delete\<rparr>;
       env = small_env\<lparr>e_cluster := Some (AddNode ''b'' (NewRing 1 0), ''a''),
         e_exec := (\<lambda>t req s. case dispatch h req s of (resp, s') \<Rightarrow> (Inr resp, s'))\<rparr>
   in fst (db_Delete env ''k'' [] small_db) = Some ErrNotFound"
proof -
  let ?h = "\<lparr>hGetRaw = mem_Get, hPutRaw = mem_Put (\<lambda>bs. bs), hDeleteRaw = mem_Delete\<rparr>"
  let ?env = "small_env\<lparr>e_cluster := Some (AddNode ''b'' (NewRing 1 0), ''a''),
         e_exec := (\<lambda>t req s. case dispatch ?h req s of (resp, s') \<Rightarrow> (Inr resp, s'))\<rparr>"
  have r: "route ?env ''k'' = Some ''b''" by (simp add: route_def GetNode_def AddNode_def NewRing_def shard_index_def)
  have st: "d_store (reconcileOwnership ?env small_db) = mem_NewDriver (\<lambda>_. 0)"
    by (simp add: reconcileOwnership_def mem.reconcile_inv(2) [OF small_inv])
  have del: "hDeleteRaw ?h (mem_NewDriver (\<lambda>_. 0)) ''k'' (del_ExpectedETag (delete_options [])) =
      (Some ErrNotFound, mem_NewDriver (\<lambda>_. 0))"
    by (simp add: mem_Delete_def mem_NewDriver_def)
  have m: "cd_Marshal (e_codec ?env) [] = Inr []" by (simp add: bytes_codec_def small_env_def)
  have "fst (db_Delete ?env ''k'' [] small_db) = Some ErrNotFound"
    using forwarded_like_owner [where h = ?h and db = small_db and dopts = "[]", OF r _ refl m] del
    unfolding st by (simp add: sentinel_def)
  then show ?thesis by (simp add: Let_def)
qed

end
