(* ===== verification/Cluster.thy ===== *)
theory Cluster
  imports DatabaseProps
begin

text \<open>
  Several nodes of one namespace over shared cold storage: the composition of the databases
  (pkg/db), the forwarding of requests to the owner of a key (pkg/cluster) and the membership
  changes of the ring (pkg/sharding). A node is a number with a mesh address. The state holds the
  storage, the ring and one database per node. All nodes see the same ring, operations do not
  overlap, and the answers of the mesh may be lost before or after the owner acted on them.
\<close>

section \<open>Definitions\<close>

record 's world =
  w_store :: 's
  w_ring :: Ring
  w_db :: "nat \<Rightarrow> 's database"

record ('s, 'a) cluster =
  cl_driver :: "'s Driver"
  cl_codec :: "'a Codec"
  cl_addr :: "nat \<Rightarrow> string"
  cl_nodes :: "nat list"

text \<open>The owner-side methods of a database, as the mesh calls them. They return (see \<open>raw_returns\<close>).\<close>

definition raw_handler :: "('s, 'a) dbenv \<Rightarrow> (nat \<Rightarrow> gotime) \<Rightarrow> 's database Handler" where
  "raw_handler env clk =
     \<lparr>hGetRaw = (\<lambda>db key. the (db_GetRaw env clk key db)),
      hPutRaw = (\<lambda>db key w e. the (db_PutRaw env clk key w e db)),
      hDeleteRaw = (\<lambda>db key e. db_DeleteRaw env key e db)\<rparr>"

text \<open>
  What becomes of one attempt to forward: answered, executed by the owner without the answer
  arriving, or not arrived at all. An unanswered request is tried again.
\<close>

datatype delivery = Answered | LostAnswer | Unreachable

fun attempts ::
  "('s, 'a) dbenv \<Rightarrow> (nat \<Rightarrow> nat \<Rightarrow> gotime) \<Rightarrow> InterQueryReq \<Rightarrow> nat \<Rightarrow> delivery list \<Rightarrow> 's database \<Rightarrow>
   (gerror + InterQueryResp) \<times> 's database" where
  "attempts env clk req i [] db = (Inl EOF, db)"
| "attempts env clk req i (Answered # dls) db =
     (let (resp, db') = dispatch (raw_handler env (clk i)) req db in (Inr resp, db'))"
| "attempts env clk req i (LostAnswer # dls) db =
     attempts env clk req (Suc i) dls (snd (dispatch (raw_handler env (clk i)) req db))"
| "attempts env clk req i (Unreachable # dls) db = attempts env clk req (Suc i) dls db"

definition node_env ::
  "('s, 'a) cluster \<Rightarrow> (string \<Rightarrow> InterQueryReq \<Rightarrow> 's \<Rightarrow> (gerror + InterQueryResp) \<times> 's) \<Rightarrow> nat \<Rightarrow> 's world \<Rightarrow> ('s, 'a) dbenv" where
  "node_env cl exec n w =
     \<lparr>e_driver = cl_driver cl, e_mgr = 0, e_codec = cl_codec cl, e_namespace = [],
      e_cluster = Some (w_ring w, cl_addr cl n), e_exec = exec, e_ctxErr = None\<rparr>"

definition no_exec :: "string \<Rightarrow> InterQueryReq \<Rightarrow> 's \<Rightarrow> (gerror + InterQueryResp) \<times> 's" where
  "no_exec t req s = (Inl EOF, s)"

text \<open>
  Forwarding to an address: the node that listens there, with its database after the attempts;
  nobody may listen there any more.
\<close>

definition forward ::
  "('s, 'a) cluster \<Rightarrow> 's world \<Rightarrow> (nat \<Rightarrow> nat \<Rightarrow> gotime) \<Rightarrow> delivery list \<Rightarrow> string \<Rightarrow> InterQueryReq \<Rightarrow> 's \<Rightarrow>
   (gerror + InterQueryResp) \<times> 's \<times> (nat \<times> 's database) option" where
  "forward cl w clk dls t req s =
     (case find (\<lambda>m. cl_addr cl m = t) (cl_nodes cl) of
        None \<Rightarrow> (Inl EOF, s, None)
      | Some m \<Rightarrow>
          let (res, db') = attempts (node_env cl no_exec m w) clk req 0 dls ((w_db w m)\<lparr>d_store := s\<rparr>)
          in (res, d_store db', Some (m, db')))"

definition forward_env :: "('s, 'a) cluster \<Rightarrow> (nat \<Rightarrow> nat \<Rightarrow> gotime) \<Rightarrow> delivery list \<Rightarrow> nat \<Rightarrow> 's world \<Rightarrow> ('s, 'a) dbenv" where
  "forward_env cl clk dls n w =
     node_env cl (\<lambda>t req s. case forward cl w clk dls t req s of (res, s', x) \<Rightarrow> (res, s')) n w"

text \<open>The world after an operation at node \<open>n\<close> that forwarded \<open>req\<close>, if it did.\<close>

definition settle ::
  "('s, 'a) cluster \<Rightarrow> (nat \<Rightarrow> nat \<Rightarrow> gotime) \<Rightarrow> delivery list \<Rightarrow> nat \<Rightarrow> string option \<Rightarrow> InterQueryReq \<Rightarrow> 's database \<Rightarrow>
   's world \<Rightarrow> 's world" where
  "settle cl clk dls n target req db w =
     (let w1 = w\<lparr>w_store := d_store db, w_db := (w_db w)(n := db)\<rparr>
      in case target of
           None \<Rightarrow> w1
         | Some t \<Rightarrow>
             (case forward cl w clk dls t req (w_store w) of
                (res, s, None) \<Rightarrow> w1
              | (res, s, Some (m, dbm)) \<Rightarrow> w1\<lparr>w_db := (w_db w1)(m := dbm)\<rparr>))"

definition cluster_Get where
  "cluster_Get cl lclk clk dls n key dest w =
     (let env = forward_env cl clk dls n w
      in case db_Get env lclk key dest ((w_db w n)\<lparr>d_store := w_store w\<rparr>) of
           None \<Rightarrow> None
         | Some (r, db) \<Rightarrow> Some (r, settle cl clk dls n (route env key) (get_req env key) db w))"

definition cluster_Put where
  "cluster_Put cl lclk clk dls n key doc opts w =
     (let env = forward_env cl clk dls n w
      in case db_Put env lclk key doc opts ((w_db w n)\<lparr>d_store := w_store w\<rparr>) of
           None \<Rightarrow> None
         | Some (r, db) \<Rightarrow>
             Some (r, case cd_Marshal (cl_codec cl) doc of
                 Inl err \<Rightarrow> settle cl clk dls n None (get_req env key) db w
               | Inr data \<Rightarrow> settle cl clk dls n (route env key)
                   (put_req env key data (po_ExpectedETag (put_options opts))) db w))"

definition cluster_Delete where
  "cluster_Delete cl clk dls n key opts w =
     (let env = forward_env cl clk dls n w;
          (r, db) = db_Delete env key opts ((w_db w n)\<lparr>d_store := w_store w\<rparr>)
      in (r, settle cl clk dls n (route env key) (delete_req env key (del_ExpectedETag (delete_options opts))) db w))"

text \<open>What an answer says of the storage at the time it was given.\<close>

definition answers :: "InterQueryReq \<Rightarrow> (string \<Rightarrow> doc option) \<Rightarrow> InterQueryResp \<Rightarrow> bool" where
  "answers req st resp \<longleftrightarrow>
     (rqOp req = OpGet \<longrightarrow>
        (case st (rqKey req) of None \<Rightarrow> resp = resp_err (Error ErrNotFound)
         | Some dc \<Rightarrow> \<exists>obj. doc_of obj = dc \<and> resp = \<lparr>rpObject = Some obj, rpErr = []\<rparr>)) \<and>
     (rqOp req = OpPut \<longrightarrow> rpErr resp = [] \<longrightarrow>
        (\<forall>obj. rpObject resp = Some obj \<longrightarrow> oValue obj = rqValue req \<and> st (rqKey req) = Some (doc_of obj))) \<and>
     (rqOp req = OpDelete \<longrightarrow> rpErr resp = [] \<longrightarrow> st (rqKey req) = None)"

section \<open>Live rings\<close>

text \<open>Rings that route: they have members, none of them the empty address, and fewer than the hash has values.\<close>

definition ring_live :: "Ring \<Rightarrow> bool" where
  "ring_live r \<longleftrightarrow> ring_ok r \<and> nodes r \<noteq> [] \<and> [] \<notin> set (nodes r) \<and> length (nodes r) < 2 ^ 32"

lemma GetNode_live: "ring_live r \<Longrightarrow> GetNode r key \<noteq> []"
  using GetNode_member [of r key] by (auto simp: ring_live_def ring_ok_def)

lemma ring_step_generation: "ring_step rop r = r \<or> Generation (ring_step rop r) = Generation r + 1"
  by (cases rop) (auto simp: AddNode_def RemoveNode_def SetNodes_eq Generation_def)

section \<open>The invariant of a node\<close>

text \<open>
  A node whose caches were reconciled for the current ring holds owned and current entries only.
  One generation behind, what it still owns is current. Further behind, nothing is known: the
  reconciliation then drops everything.
\<close>

definition node_ok :: "Ring \<Rightarrow> string \<Rightarrow> (string \<Rightarrow> doc option) \<Rightarrow> 's database \<Rightarrow> bool" where
  "node_ok ring self st db \<longleftrightarrow>
     cs_ok 0 (d_cs db) \<and> live 0 (d_cs db) \<and> unat (d_reconciledGen db) \<le> unat (Generation ring) \<and>
     (unat (Generation ring) \<le> unat (d_reconciledGen db) + 1 \<longrightarrow>
        (\<forall>k obj. cached_obj (d_cs db) 0 k = Some obj \<longrightarrow> foreign_key ring self k \<or> st k = Some (doc_of obj))) \<and>
     (d_reconciledGen db = Generation ring \<longrightarrow>
        (\<forall>k. cached_obj (d_cs db) 0 k \<noteq> None \<longrightarrow> \<not> foreign_key ring self k))"

definition node_ready :: "Ring \<Rightarrow> string \<Rightarrow> (string \<Rightarrow> doc option) \<Rightarrow> 's database \<Rightarrow> bool" where
  "node_ready ring self st db \<longleftrightarrow>
     cs_ok 0 (d_cs db) \<and> live 0 (d_cs db) \<and> d_reconciledGen db = Generation ring \<and> coherent 0 st (d_cs db) \<and>
     (\<forall>k. cached_obj (d_cs db) 0 k \<noteq> None \<longrightarrow> \<not> foreign_key ring self k)"

lemma ready_ok: "node_ready ring self st db \<Longrightarrow> node_ok ring self st db"
  by (auto simp: node_ready_def node_ok_def coherent_def)

lemma node_ok_frame:
  "node_ok ring self st db \<Longrightarrow> (\<And>k. \<not> foreign_key ring self k \<Longrightarrow> st' k = st k) \<Longrightarrow> node_ok ring self st' db"
  unfolding node_ok_def by metis

lemma node_ok_store [simp]: "node_ok ring self st (db\<lparr>d_store := s\<rparr>) = node_ok ring self st db"
  by (simp add: node_ok_def)

lemma purge_cs:
  assumes "cs_ok 0 cs" and "live i cs"
  shows "cs_ok 0 (snd (PurgeIf i P cs))" "live i (snd (PurgeIf i P cs))"
    "cached_obj (snd (PurgeIf i P cs)) i k = (if P k then None else cached_obj cs i k)"
proof -
  obtain n cs' where p: "PurgeIf i P cs = (n, cs')" by fastforce
  note L = PurgeIf_laws [OF assms p]
  show "cs_ok 0 (snd (PurgeIf i P cs))" "live i (snd (PurgeIf i P cs))"
    "cached_obj (snd (PurgeIf i P cs)) i k = (if P k then None else cached_obj cs i k)"
    using L p assms(2) by (simp_all add: cached_obj_def)
qed

lemma reconcile_ready:
  assumes ok: "node_ok ring self st db"
  shows "node_ready ring self st (reconcile 0 self ring (\<lambda>_. ring) ring db)"
    "d_store (reconcile 0 self ring (\<lambda>_. ring) ring db) = d_store db"
proof -
  show "d_store (reconcile 0 self ring (\<lambda>_. ring) ring db) = d_store db"
    by (simp add: reconcile_def purgeEverything_def Let_def)
  have cs: "cs_ok 0 (d_cs db)" "live 0 (d_cs db)" using ok by (auto simp: node_ok_def)
  note P = purge_cs [OF cs]
  show "node_ready ring self st (reconcile 0 self ring (\<lambda>_. ring) ring db)"
  proof (cases "d_reconciledGen db = Generation ring")
    case True
    then show ?thesis using ok by (auto simp: reconcile_def node_ok_def node_ready_def coherent_def)
  next
    case False
    then have lt: "unat (d_reconciledGen db) < unat (Generation ring)"
      using ok by (auto simp: node_ok_def word_unat_eq_iff)
    show ?thesis
    proof (cases "Generation ring > d_reconciledGen db + 1")
      case True
      then show ?thesis using False P
        by (simp add: reconcile_def purgeEverything_def Let_def node_ready_def coherent_def)
    next
      case near: False
      have "unat (d_reconciledGen db + 1) = unat (d_reconciledGen db) + 1"
        using lt unsigned_less [of "Generation ring", where 'a = nat] by (simp add: unat_word_ariths)
      then have "unat (Generation ring) \<le> unat (d_reconciledGen db) + 1" using near by (simp add: word_less_nat_alt)
      then show ?thesis using False near P ok
        by (auto simp: reconcile_def Let_def node_ready_def coherent_def node_ok_def split: if_splits)
    qed
  qed
qed

section \<open>Operations at the owner\<close>

context cas_driver
begin

text \<open>
  What an operation on the owned key \<open>key\<close> leaves: a ready node over a storage in which only that
  key may differ.
\<close>

definition served :: "Ring \<Rightarrow> string \<Rightarrow> string \<Rightarrow> 'a \<Rightarrow> 'a database \<Rightarrow> bool" where
  "served ring self key s db \<longleftrightarrow> drv_ok (d_store db) \<and> node_ready ring self (stored (d_store db)) db \<and>
     (\<forall>k. k \<noteq> key \<longrightarrow> stored (d_store db) k = stored s k)"

lemma served_step:
  assumes rd: "node_ready ring self st db" and own: "\<not> foreign_key ring self key"
    and cs: "cs_ok 0 cs'" "live 0 cs'" "coherent 0 (stored s') cs'" "cache_step 0 key v (d_cs db) cs'"
    and s: "drv_ok s'" "\<And>k. k \<noteq> key \<Longrightarrow> stored s' k = stored s k"
    and db: "d_cs db' = cs'" "d_store db' = s'" "d_reconciledGen db' = d_reconciledGen db"
  shows "served ring self key s db'"
proof -
  have "\<not> foreign_key ring self k" if "cached_obj cs' 0 k = Some obj" for k obj
    using cs(4) that rd own by (cases "k = key") (auto simp: cache_step_def node_ready_def)
  then show ?thesis using assms by (auto simp: served_def node_ready_def)
qed

lemma owner_read:
  assumes rd: "node_ready ring self (stored (d_store db)) db" "drv_ok (d_store db)" and own: "\<not> foreign_key ring self key"
    and env: "e_driver env = d" "e_mgr env = 0"
  shows "\<exists>r db'. readLocal env clk key False db = Some (r, db') \<and> served ring self key (d_store db) db' \<and>
    stored (d_store db') = stored (d_store db) \<and>
    (case stored (d_store db) key of None \<Rightarrow> r = Inl ErrNotFound
     | Some dc \<Rightarrow> \<exists>obj. r = Inr (Some obj) \<and> doc_of obj = dc)"
proof -
  let ?s = "d_store db" and ?cs = "d_cs db"
  have I: "cs_ok 0 ?cs" "live 0 ?cs" "coherent 0 (stored ?s) ?cs" using rd(1) by (auto simp: node_ready_def)
  obtain r s' cs' v where G: "Manager_Get d 0 clk key ?s ?cs = Some (r, s', cs')" "drv_ok s'" "stored s' = stored ?s"
    "cs_ok 0 cs'" "live 0 cs'" "coherent 0 (stored s') cs'" "cache_step 0 key v ?cs cs'"
    "\<forall>obj. r = Inr (Some obj) \<longrightarrow> stored ?s key = Some (doc_of obj)"
    "if fresh_entry clk (cs_mgrs ?cs 0) key then r = Inr (cached_obj ?cs 0 key) \<and> s' = ?s \<and> cached_obj ?cs 0 key \<noteq> None
     else r = fst (dGet d ?s key)"
    using Manager_Get_coherent [OF rd(2) I, of clk key] by blast
  have ex: "case stored ?s key of None \<Rightarrow> fst (dGet d ?s key) = Inl ErrNotFound
     | Some dc \<Rightarrow> \<exists>obj. fst (dGet d ?s key) = Inr (Some obj) \<and> oKey obj = key \<and> doc_of obj = dc"
    using get_exact [OF rd(2), of key "fst (dGet d ?s key)" "snd (dGet d ?s key)"] by simp
  have "case stored ?s key of None \<Rightarrow> r = Inl ErrNotFound | Some dc \<Rightarrow> \<exists>obj. r = Inr (Some obj) \<and> doc_of obj = dc"
  proof (cases "fresh_entry clk (cs_mgrs ?cs 0) key")
    case True
    then obtain obj where "r = Inr (Some obj)" using G(9) by auto
    with G(8) show ?thesis by auto
  next
    case False
    with G(9) ex show ?thesis by (auto split: option.splits)
  qed
  moreover have "served ring self key ?s (db\<lparr>d_store := s', d_cs := cs'\<rparr>)"
    by (rule served_step [OF rd(1) own G(4-7)]) (use G(2,3) in simp_all)
  ultimately show ?thesis using G(1,3) env by (auto simp: readLocal_def)
qed

lemma owner_put:
  assumes rd: "node_ready ring self (stored (d_store db)) db" "drv_ok (d_store db)" and own: "\<not> foreign_key ring self key"
    and env: "e_driver env = d" "e_mgr env = 0"
  shows "\<exists>r db'. put_cached env clk key x e db = Some (r, db') \<and> served ring self key (d_store db) db' \<and>
    (\<forall>res. r = Inr res \<longrightarrow> (\<exists>obj. res = Some obj \<and> oValue obj = x \<and> stored (d_store db') key = Some (doc_of obj))) \<and>
    (put_precondition e (stored (d_store db) key) = None \<longrightarrow> (\<exists>res. r = Inr res))"
proof -
  let ?s = "d_store db" and ?cs = "d_cs db"
  have I: "cs_ok 0 ?cs" "live 0 ?cs" "coherent 0 (stored ?s) ?cs" using rd(1) by (auto simp: node_ready_def)
  obtain r s' where p: "dPut d ?s key x e = (r, s')" by fastforce
  obtain cs' v where G: "Manager_Put d 0 clk key x e ?s ?cs = Some (r, s', cs')" "drv_ok s'" "cs_ok 0 cs'" "live 0 cs'"
    "coherent 0 (stored s') cs'" "cache_step 0 key v ?cs cs'"
    using Manager_Put_coherent [OF rd(2) I, of clk key x e] p by auto
  let ?db = "db\<lparr>d_store := s', d_cs := cs'\<rparr>"
  have sv: "served ring self key ?s db'" if "db' = ?db \<or> db' = invalidate_list key ?db" for db'
    by (rule served_step [OF rd(1) own G(3-6,2)]) (use put_frame [OF rd(2) p] that in \<open>auto simp: invalidate_list_def\<close>)
  show ?thesis
  proof (cases r)
    case (Inl err)
    moreover from this have "put_precondition e (stored ?s key) \<noteq> None"
      using put_exact [OF rd(2) p] by (auto split: option.splits)
    ultimately show ?thesis using G(1) env sv [of ?db] by (auto simp: put_cached_def)
  next
    case (Inr res)
    moreover from this have "\<exists>obj. res = Some obj \<and> oValue obj = x \<and> stored s' key = Some (doc_of obj)"
      using put_exact [OF rd(2) p] by (auto split: option.splits)
    ultimately show ?thesis
      using G(1) env sv [of "invalidate_list key ?db"] by (auto simp: put_cached_def invalidate_list_def)
  qed
qed

lemma owner_delete:
  assumes rd: "node_ready ring self (stored (d_store db)) db" "drv_ok (d_store db)" and own: "\<not> foreign_key ring self key"
    and env: "e_driver env = d" "e_mgr env = 0" and res: "delete_cached env key e db = (err, db')"
  shows "served ring self key (d_store db) db'" "err = None \<longrightarrow> stored (d_store db') key = None"
    "err = Some x \<Longrightarrow> sentinel x"
proof -
  let ?s = "d_store db" and ?cs = "d_cs db"
  have I: "cs_ok 0 ?cs" "live 0 ?cs" "coherent 0 (stored ?s) ?cs" using rd(1) by (auto simp: node_ready_def)
  obtain er s' cs' where M: "Manager_Delete d 0 key e ?s ?cs = (er, s', cs')" by (metis prod_cases3)
  note G = Manager_Delete_coherent [OF rd(2) I M]
  have D: "dDelete d ?s key e = (er, s')" using G(1) by simp
  have db': "d_cs db' = cs'" "d_store db' = s'" "d_reconciledGen db' = d_reconciledGen db" "err = er"
    using res M env by (auto simp: delete_cached_def Let_def invalidate_list_def)
  show "served ring self key ?s db'"
    by (rule served_step [OF rd(1) own G(3-5,7,2) _ db'(1-3)]) (use delete_frame [OF rd(2) D] in auto)
  show "err = None \<longrightarrow> stored (d_store db') key = None" using delete_exact [OF rd(2) D] db' by auto
  show "err = Some x \<Longrightarrow> sentinel x"
    using delete_exact [OF rd(2) D] db' by (auto simp: delete_precondition_def sentinel_def split: option.splits if_splits)
qed

section \<open>Forwarded operations\<close>

lemma dispatch_owner:
  assumes ok: "node_ok ring self (stored (d_store db)) db" "drv_ok (d_store db)" and own: "\<not> foreign_key ring self (rqKey req)"
    and env: "e_driver env = d" "e_mgr env = 0" "e_cluster env = Some (ring, self)"
    and op: "rqOp req = OpGet \<or> rqOp req = OpPut \<or> rqOp req = OpDelete"
    and res: "dispatch (raw_handler env clk) req db = (resp, db')"
  shows "served ring self (rqKey req) (d_store db) db'" "answers req (stored (d_store db')) resp"
    "rqOp req = OpGet \<Longrightarrow> stored (d_store db') = stored (d_store db)"
proof -
  let ?db = "reconcileOwnership env db" and ?k = "rqKey req"
  have rec: "?db = reconcile 0 self ring (\<lambda>_. ring) ring db" using env by (simp add: reconcileOwnership_def)
  have rd: "node_ready ring self (stored (d_store ?db)) ?db" "drv_ok (d_store ?db)" "d_store ?db = d_store db"
    using reconcile_ready [OF ok(1)] ok(2) unfolding rec by simp_all
  have distinct_ops: "OpGet \<noteq> OpPut" "OpGet \<noteq> OpDelete" "OpPut \<noteq> OpDelete" by (simp_all add: OpGet_def OpPut_def OpDelete_def)
  have "served ring self ?k (d_store db) db' \<and> answers req (stored (d_store db')) resp \<and>
      (rqOp req = OpGet \<longrightarrow> stored (d_store db') = stored (d_store db))"
    using op
  proof (elim disjE)
    assume g: "rqOp req = OpGet"
    obtain r db1 where R: "readLocal env clk ?k False ?db = Some (r, db1)" "served ring self ?k (d_store db) db1"
      "stored (d_store db1) = stored (d_store db)"
      "case stored (d_store db) ?k of None \<Rightarrow> r = Inl ErrNotFound | Some dc \<Rightarrow> \<exists>obj. r = Inr (Some obj) \<and> doc_of obj = dc"
      using owner_read [OF rd(1,2) own env(1,2), of clk] unfolding rd(3) by blast
    have "hGetRaw (raw_handler env clk) db ?k = (r, db1)" using R(1) by (simp add: raw_handler_def db_GetRaw_def)
    with R res g distinct_ops show ?thesis
      by (cases "stored (d_store db) ?k") (auto simp: dispatch_def answers_def resp_err_def)
  next
    assume g: "rqOp req = OpPut"
    obtain r db1 where R: "put_cached env clk ?k (rqValue req) (rqExpectedETag req) ?db = Some (r, db1)"
      "served ring self ?k (d_store db) db1"
      "\<forall>res. r = Inr res \<longrightarrow> (\<exists>obj. res = Some obj \<and> oValue obj = rqValue req \<and> stored (d_store db1) ?k = Some (doc_of obj))"
      using owner_put [OF rd(1,2) own env(1,2), of clk "rqValue req" "rqExpectedETag req"] unfolding rd(3) by blast
    have "hPutRaw (raw_handler env clk) db ?k (rqValue req) (rqExpectedETag req) = (r, db1)"
      using R(1) by (simp add: raw_handler_def db_PutRaw_def)
    with R res g distinct_ops show ?thesis
      by (cases r) (auto simp: dispatch_def answers_def resp_err_def)
  next
    assume g: "rqOp req = OpDelete"
    obtain err db1 where R: "delete_cached env ?k (rqExpectedETag req) ?db = (err, db1)" by fastforce
    note O = owner_delete [OF rd(1,2) own env(1,2) R, unfolded rd(3)]
    have "hDeleteRaw (raw_handler env clk) db ?k (rqExpectedETag req) = (err, db1)"
      using R by (simp add: raw_handler_def db_DeleteRaw_def)
    with O res g distinct_ops mapErrorString_sentinel show ?thesis
      by (cases err) (auto simp: dispatch_def answers_def resp_err_def)
  qed
  then show "served ring self ?k (d_store db) db'" "answers req (stored (d_store db')) resp"
    "rqOp req = OpGet \<Longrightarrow> stored (d_store db') = stored (d_store db)" by auto
qed

lemma attempts_owner:
  assumes "node_ok ring self (stored (d_store db)) db" "drv_ok (d_store db)" and own: "\<not> foreign_key ring self (rqKey req)"
    and env: "e_driver env = d" "e_mgr env = 0" "e_cluster env = Some (ring, self)"
    and op: "rqOp req = OpGet \<or> rqOp req = OpPut \<or> rqOp req = OpDelete"
    and "attempts env clk req i dls db = (res, db')"
  shows "node_ok ring self (stored (d_store db')) db' \<and> drv_ok (d_store db') \<and>
    (\<forall>k. k \<noteq> rqKey req \<longrightarrow> stored (d_store db') k = stored (d_store db) k) \<and>
    (rqOp req = OpGet \<longrightarrow> stored (d_store db') = stored (d_store db)) \<and>
    (\<forall>resp. res = Inr resp \<longrightarrow> answers req (stored (d_store db')) resp)"
  using assms(1,2,8)
proof (induction dls arbitrary: i db)
  case Nil
  then show ?case by auto
next
  case (Cons dl dls)
  obtain resp db1 where D: "dispatch (raw_handler env (clk i)) req db = (resp, db1)" by fastforce
  note O = dispatch_owner [OF Cons.prems(1,2) own env op D]
  have ok1: "node_ok ring self (stored (d_store db1)) db1" "drv_ok (d_store db1)"
    "\<forall>k. k \<noteq> rqKey req \<longrightarrow> stored (d_store db1) k = stored (d_store db) k"
    using O(1) ready_ok by (auto simp: served_def)
  show ?case
  proof (cases dl)
    case Answered
    then show ?thesis using Cons.prems(3) D ok1 O(2,3) by auto
  next
    case LostAnswer
    then have "attempts env clk req (Suc i) dls db1 = (res, db')" using Cons.prems(3) D by simp
    from Cons.IH [OF ok1(1,2) this] ok1(3) O(3) show ?thesis by auto
  next
    case Unreachable
    then have "attempts env clk req (Suc i) dls db = (res, db')" using Cons.prems(3) by simp
    from Cons.IH [OF Cons.prems(1,2) this] show ?thesis .
  qed
qed

section \<open>The cluster\<close>

definition world_ok :: "('a, 'b) cluster \<Rightarrow> 'a world \<Rightarrow> bool" where
  "world_ok cl w \<longleftrightarrow> drv_ok (w_store w) \<and> ring_live (w_ring w) \<and> cl_driver cl = d \<and> inj_on (cl_addr cl) (set (cl_nodes cl)) \<and>
     (\<forall>n \<in> set (cl_nodes cl). node_ok (w_ring w) (cl_addr cl n) (stored (w_store w)) (w_db w n))"

lemma world_okD:
  assumes "world_ok cl w"
  shows "drv_ok (w_store w)" "ring_live (w_ring w)" "cl_driver cl = d"
    "n \<in> set (cl_nodes cl) \<Longrightarrow> node_ok (w_ring w) (cl_addr cl n) (stored (w_store w)) (w_db w n)"
    "m \<in> set (cl_nodes cl) \<Longrightarrow> n \<in> set (cl_nodes cl) \<Longrightarrow> cl_addr cl m = cl_addr cl n \<Longrightarrow> m = n"
  using assms by (auto simp: world_ok_def inj_on_def)

lemma world_okI:
  assumes "world_ok cl w" and "drv_ok (w_store w')" "w_ring w' = w_ring w"
    and "\<And>n. n \<in> set (cl_nodes cl) \<Longrightarrow> node_ok (w_ring w) (cl_addr cl n) (stored (w_store w')) (w_db w' n)"
  shows "world_ok cl w'"
  using assms by (simp add: world_ok_def)

lemma forward_ok:
  assumes ok: "world_ok cl w" and t: "GetNode (w_ring w) (rqKey req) = t"
    and op: "rqOp req = OpGet \<or> rqOp req = OpPut \<or> rqOp req = OpDelete"
    and res: "forward cl w clk dls t req (w_store w) = (res, s', x)"
  shows "drv_ok s'" "\<forall>k. k \<noteq> rqKey req \<longrightarrow> stored s' k = stored (w_store w) k"
    "rqOp req = OpGet \<Longrightarrow> stored s' = stored (w_store w)" "res = Inr resp \<Longrightarrow> answers req (stored s') resp"
    "x = Some (m, dbm) \<Longrightarrow> m \<in> set (cl_nodes cl) \<and> cl_addr cl m = t \<and> node_ok (w_ring w) t (stored s') dbm"
proof -
  have "drv_ok s' \<and> (\<forall>k. k \<noteq> rqKey req \<longrightarrow> stored s' k = stored (w_store w) k) \<and>
    (rqOp req = OpGet \<longrightarrow> stored s' = stored (w_store w)) \<and> (\<forall>resp. res = Inr resp \<longrightarrow> answers req (stored s') resp) \<and>
    (\<forall>m dbm. x = Some (m, dbm) \<longrightarrow> m \<in> set (cl_nodes cl) \<and> cl_addr cl m = t \<and> node_ok (w_ring w) t (stored s') dbm)"
  proof (cases "find (\<lambda>m. cl_addr cl m = t) (cl_nodes cl)")
    case None
    then show ?thesis using res world_okD(1) [OF ok] by (auto simp: forward_def)
  next
    case (Some m)
    then have m: "m \<in> set (cl_nodes cl)" "cl_addr cl m = t" by (auto simp: find_Some_iff)
    let ?env = "node_env cl no_exec m w" and ?db = "(w_db w m)\<lparr>d_store := w_store w\<rparr>"
    obtain r db' where A: "attempts ?env clk req 0 dls ?db = (r, db')" by fastforce
    have rs: "res = r" "s' = d_store db'" "x = Some (m, db')" using res Some A by (auto simp: forward_def)
    have env: "e_driver ?env = d" "e_mgr ?env = 0" "e_cluster ?env = Some (w_ring w, t)"
      using world_okD(3) [OF ok] m by (simp_all add: node_env_def)
    have db: "node_ok (w_ring w) t (stored (d_store ?db)) ?db" "drv_ok (d_store ?db)"
      using world_okD(1,4) [OF ok] m by auto
    have "\<not> foreign_key (w_ring w) t (rqKey req)" using t by (simp add: foreign_key_def)
    from attempts_owner [OF db this env op A] rs m show ?thesis by auto
  qed
  then show "drv_ok s'" "\<forall>k. k \<noteq> rqKey req \<longrightarrow> stored s' k = stored (w_store w) k"
    "rqOp req = OpGet \<Longrightarrow> stored s' = stored (w_store w)" "res = Inr resp \<Longrightarrow> answers req (stored s') resp"
    "x = Some (m, dbm) \<Longrightarrow> m \<in> set (cl_nodes cl) \<and> cl_addr cl m = t \<and> node_ok (w_ring w) t (stored s') dbm" by auto
qed

lemma frame_others:
  assumes ok: "world_ok cl w" and m: "m \<in> set (cl_nodes cl)" "cl_addr cl m \<noteq> GetNode (w_ring w) key"
    and st: "\<forall>k. k \<noteq> key \<longrightarrow> st' k = stored (w_store w) k"
  shows "node_ok (w_ring w) (cl_addr cl m) st' (w_db w m)"
proof -
  have "foreign_key (w_ring w) (cl_addr cl m) key"
    using m(2) GetNode_live [OF world_okD(2) [OF ok], of key] by (auto simp: foreign_key_def)
  then have "st' k = stored (w_store w) k" if "\<not> foreign_key (w_ring w) (cl_addr cl m) k" for k
    using st that by (cases "k = key") simp_all
  then show ?thesis by (rule node_ok_frame [OF world_okD(4) [OF ok m(1)]])
qed

lemma settle_local:
  assumes ok: "world_ok cl w" and n: "n \<in> set (cl_nodes cl)" and own: "GetNode (w_ring w) key = cl_addr cl n"
    and sv: "served (w_ring w) (cl_addr cl n) key (w_store w) db"
  shows "world_ok cl (settle cl clk dls n None req db w)"
proof -
  have "node_ok (w_ring w) (cl_addr cl m) (stored (d_store db)) (((w_db w)(n := db)) m)" if "m \<in> set (cl_nodes cl)" for m
  proof (cases "m = n")
    case True
    then show ?thesis using sv ready_ok by (auto simp: served_def)
  next
    case False
    then have "cl_addr cl m \<noteq> GetNode (w_ring w) key" using own n that world_okD(5) [OF ok] by metis
    then show ?thesis using False frame_others [OF ok that] sv by (simp add: served_def)
  qed
  moreover have "drv_ok (d_store db)" using sv by (simp add: served_def)
  ultimately show ?thesis by (intro world_okI [OF ok]) (simp_all add: settle_def)
qed

lemma settle_forward:
  assumes ok: "world_ok cl w" and n: "n \<in> set (cl_nodes cl)"
    and t: "GetNode (w_ring w) (rqKey req) = t" "t \<noteq> cl_addr cl n"
    and op: "rqOp req = OpGet \<or> rqOp req = OpPut \<or> rqOp req = OpDelete"
    and res: "forward cl w clk dls t req (w_store w) = (res, s', x)"
    and db: "stored (d_store db) = stored s'" "drv_ok (d_store db)" "node_ok (w_ring w) (cl_addr cl n) (stored (w_store w)) db"
  shows "world_ok cl (settle cl clk dls n (Some t) req db w)"
proof -
  note F = forward_ok [OF ok t(1) op res]
  let ?g = "case x of None \<Rightarrow> (w_db w)(n := db) | Some (m, dbm) \<Rightarrow> (w_db w)(n := db, m := dbm)"
  have old: "node_ok (w_ring w) (cl_addr cl m) (stored s') (w_db w m)" if "m \<in> set (cl_nodes cl)" "cl_addr cl m \<noteq> t" for m
    using frame_others [OF ok that(1)] that(2) t(1) F(2) by auto
  have self: "node_ok (w_ring w) (cl_addr cl n) (stored s') db"
  proof (rule node_ok_frame [OF db(3)])
    fix k assume "\<not> foreign_key (w_ring w) (cl_addr cl n) k"
    then have "k \<noteq> rqKey req" using t GetNode_live [OF world_okD(2) [OF ok]] by (auto simp: foreign_key_def)
    then show "stored s' k = stored (w_store w) k" using F(2) by blast
  qed
  have own: "node_ok (w_ring w) (cl_addr cl m) (stored s') (w_db w m)"
    if "x = None" "m \<in> set (cl_nodes cl)" "cl_addr cl m = t" for m
    using that res by (auto simp: forward_def find_None_iff split: option.splits prod.splits)
  have "node_ok (w_ring w) (cl_addr cl m) (stored s') (?g m)" if m: "m \<in> set (cl_nodes cl)" for m
  proof (cases x)
    case None
    then show ?thesis using self old [OF m] own [OF None m] by auto
  next
    case (Some y)
    obtain m' dbm where y: "y = (m', dbm)" by fastforce
    have m': "m' \<in> set (cl_nodes cl)" "cl_addr cl m' = t" "node_ok (w_ring w) t (stored s') dbm"
      using F(5) [of m' dbm] Some y by auto
    show ?thesis
    proof (cases "m = m'")
      case True
      then show ?thesis using m'(2,3) Some y by simp
    next
      case False
      then have "cl_addr cl m \<noteq> t" using world_okD(5) [OF ok m m'(1)] m'(2) by metis
      then show ?thesis using False self old [OF m] Some y by (cases "m = n") simp_all
    qed
  qed
  then show ?thesis
    using db(1,2) res by (intro world_okI [OF ok]; cases x) (auto simp: settle_def)
qed

text \<open>An operation at node \<open>n\<close> starts with its database reconciled, and then knows whom the key belongs to.\<close>

lemma forward_env_simps [simp]:
  "e_driver (forward_env cl clk dls n w) = cl_driver cl" "e_mgr (forward_env cl clk dls n w) = 0"
  "e_codec (forward_env cl clk dls n w) = cl_codec cl" "e_ctxErr (forward_env cl clk dls n w) = None"
  "e_cluster (forward_env cl clk dls n w) = Some (w_ring w, cl_addr cl n)"
  "e_exec (forward_env cl clk dls n w) t req s = (case forward cl w clk dls t req s of (res, s', x) \<Rightarrow> (res, s'))"
  by (simp_all add: forward_env_def node_env_def)

lemma start_op:
  assumes ok: "world_ok cl w" and n: "n \<in> set (cl_nodes cl)"
    and db_def: "db = reconcileOwnership (forward_env cl clk dls n w) ((w_db w n)\<lparr>d_store := w_store w\<rparr>)"
  shows "node_ready (w_ring w) (cl_addr cl n) (stored (w_store w)) db" "d_store db = w_store w"
    "route (forward_env cl clk dls n w) key =
       (if GetNode (w_ring w) key = cl_addr cl n then None else Some (GetNode (w_ring w) key))"
proof -
  have "node_ok (w_ring w) (cl_addr cl n) (stored (w_store w)) ((w_db w n)\<lparr>d_store := w_store w\<rparr>)"
    using world_okD(4) [OF ok n] by simp
  note R = reconcile_ready [OF this]
  show "node_ready (w_ring w) (cl_addr cl n) (stored (w_store w)) db" "d_store db = w_store w"
    using R by (simp_all add: db_def reconcileOwnership_def)
  show "route (forward_env cl clk dls n w) key =
       (if GetNode (w_ring w) key = cl_addr cl n then None else Some (GetNode (w_ring w) key))"
    using GetNode_live [OF world_okD(2) [OF ok], of key] by (simp add: route_def Let_def)
qed

lemma ready_node_ok: "node_ready ring self st db \<Longrightarrow> node_ok ring self st (db\<lparr>d_store := s, d_list := l\<rparr>)"
  "node_ready ring self st db \<Longrightarrow> node_ok ring self st (db\<lparr>d_store := s\<rparr>)"
  using ready_ok by (fastforce simp: node_ok_def)+

lemma req_simps [simp]:
  "rqKey (get_req env key) = key" "rqOp (get_req env key) = Mesh.OpGet"
  "rqKey (put_req env key v e) = key" "rqOp (put_req env key v e) = Mesh.OpPut" "rqValue (put_req env key v e) = v"
  "rqKey (delete_req env key e) = key" "rqOp (delete_req env key e) = Mesh.OpDelete"
  by (simp_all add: get_req_def put_req_def delete_req_def)

lemma cluster_Get_ok:
  assumes ok: "world_ok cl w" and n: "n \<in> set (cl_nodes cl)"
  shows "\<exists>r w'. cluster_Get cl lclk clk dls n key dest w = Some (r, w') \<and> world_ok cl w' \<and>
    stored (w_store w') = stored (w_store w) \<and>
    (case stored (w_store w) key of None \<Rightarrow> r = Inl ErrNotFound
     | Some dc \<Rightarrow> \<exists>obj. doc_of obj = dc \<and> r = decode_doc (cl_codec cl) dest obj)"
proof -
  let ?env = "forward_env cl clk dls n w" and ?s = "w_store w"
  define db where "db = reconcileOwnership ?env ((w_db w n)\<lparr>d_store := ?s\<rparr>)"
  note S = start_op [OF ok n db_def] and drv = world_okD(1) [OF ok] and dd = world_okD(3) [OF ok]
  show ?thesis
  proof (cases "GetNode (w_ring w) key = cl_addr cl n")
    case True
    have own: "\<not> foreign_key (w_ring w) (cl_addr cl n) key" using True by (simp add: foreign_key_def)
    obtain r db' where R: "readLocal ?env lclk key False db = Some (r, db')" "served (w_ring w) (cl_addr cl n) key ?s db'"
      "stored (d_store db') = stored ?s"
      "case stored ?s key of None \<Rightarrow> r = Inl ErrNotFound | Some dc \<Rightarrow> \<exists>obj. r = Inr (Some obj) \<and> doc_of obj = dc"
      using owner_read [OF _ _ own, of db ?env lclk] S(1,2) drv dd by auto
    have "\<exists>r. db_Get ?env lclk key dest ((w_db w n)\<lparr>d_store := ?s\<rparr>) = Some (r, db') \<and>
        (case stored ?s key of None \<Rightarrow> r = Inl ErrNotFound
         | Some dc \<Rightarrow> \<exists>obj. doc_of obj = dc \<and> r = decode_doc (cl_codec cl) dest obj)"
      using R(1,4) S(3) [of key] True by (auto simp: db_Get_def db_def [symmetric] get_local_def split: option.splits)
    then show ?thesis using settle_local [OF ok n True R(2)] S(3) [of key] True R(3)
      by (auto simp: cluster_Get_def settle_def)
  next
    case False
    let ?t = "GetNode (w_ring w) key" and ?req = "get_req ?env key"
    obtain res s' x where F: "forward cl w clk dls ?t ?req ?s = (res, s', x)" by (metis prod_cases3)
    note A = forward_ok [where req = ?req, OF ok _ _ F]
    have st: "drv_ok s'" "stored s' = stored ?s" using A(1,3) by simp_all
    have nok: "node_ok (w_ring w) (cl_addr cl n) (stored ?s) (db\<lparr>d_store := u\<rparr>)" for u by (rule ready_node_ok(2) [OF S(1)])
    have settled: "world_ok cl (settle cl clk dls n (Some ?t) ?req (db\<lparr>d_store := u\<rparr>) w)"
      if "stored u = stored ?s" "drv_ok u" for u
      by (rule settle_forward [where req = ?req, OF ok n _ _ _ F]) (use False that st nok in auto)
    have fin: "stored (w_store (settle cl clk dls n (Some ?t) ?req (db\<lparr>d_store := u\<rparr>) w)) = stored u" for u
      by (simp add: settle_def Let_def split: prod.splits option.splits)
    have rt: "route ?env key = Some ?t" using S(3) [of key] False by simp
    have exec: "e_exec ?env ?t ?req (d_store db) = (res, s')" using F S(2) by simp
    have unf: "db_Get ?env lclk key dest ((w_db w n)\<lparr>d_store := ?s\<rparr>) =
        (case res of
           Inr resp \<Rightarrow>
             if rpErr resp \<noteq> [] then Some (Inl (mapErrorString (rpErr resp)), db\<lparr>d_store := s'\<rparr>)
             else (case rpObject resp of
                 Some obj \<Rightarrow> Some (decode_doc (cl_codec cl) dest obj, db\<lparr>d_store := s'\<rparr>)
               | None \<Rightarrow> get_local ?env lclk key dest True (db\<lparr>d_store := s'\<rparr>))
         | Inl err \<Rightarrow> get_local ?env lclk key dest True (db\<lparr>d_store := s'\<rparr>))"
      by (cases res) (simp_all add: db_Get_def db_def [symmetric] rt exec Let_def del: forward_env_simps(6) split: option.splits)
    have "\<exists>r u. db_Get ?env lclk key dest ((w_db w n)\<lparr>d_store := ?s\<rparr>) = Some (r, db\<lparr>d_store := u\<rparr>) \<and>
        stored u = stored ?s \<and> drv_ok u \<and>
        (case stored ?s key of None \<Rightarrow> r = Inl ErrNotFound
         | Some dc \<Rightarrow> \<exists>obj. doc_of obj = dc \<and> r = decode_doc (cl_codec cl) dest obj)"
    proof (cases res)
      case (Inr resp)
      have ans: "answers ?req (stored ?s) resp" using A(4) [of resp] Inr st(2) by simp
      have nf: "mapErrorString (Error ErrNotFound) = ErrNotFound" "Error ErrNotFound \<noteq> []"
        using mapErrorString_sentinel [of ErrNotFound] by (simp_all add: sentinel_def)
      show ?thesis
      proof (cases "stored ?s key")
        case None
        then have "resp = resp_err (Error ErrNotFound)" using ans by (simp add: answers_def)
        then show ?thesis using Inr nf st None unfolding unf by (auto simp: resp_err_def)
      next
        case (Some dc)
        then obtain obj where "doc_of obj = dc" "resp = \<lparr>rpObject = Some obj, rpErr = []\<rparr>" using ans by (auto simp: answers_def)
        then show ?thesis using Inr st Some unfolding unf by auto
      qed
    next
      case (Inl err)
      obtain r2 s2 where G: "dGet d s' key = (r2, s2)" by fastforce
      have u: "stored s2 = stored ?s" "drv_ok s2" using get_frame [OF st(1) G] st(2) by auto
      have rl: "readLocal ?env lclk key True (db\<lparr>d_store := s'\<rparr>) = Some (r2, db\<lparr>d_store := s2\<rparr>)"
        using G dd by (simp add: readLocal_def)
      have ex: "case stored ?s key of None \<Rightarrow> r2 = Inl ErrNotFound
          | Some dc \<Rightarrow> \<exists>obj. r2 = Inr (Some obj) \<and> oKey obj = key \<and> doc_of obj = dc"
        using get_exact [OF st(1) G] st(2) by simp
      show ?thesis
        using ex u Inl rl unfolding unf by (cases "stored ?s key") (auto simp: get_local_def intro!: exI [of _ s2])
    qed
    then show ?thesis using settled fin S(3) [of key] False by (auto simp: cluster_Get_def)
  qed
qed

lemma settle_store: "w_store (settle cl clk dls n target req db w) = d_store db"
  by (simp add: settle_def Let_def split: prod.splits option.splits)

lemma cluster_Put_ok:
  assumes ok: "world_ok cl w" and n: "n \<in> set (cl_nodes cl)"
  shows "\<exists>r w'. cluster_Put cl lclk clk dls n key doc opts w = Some (r, w') \<and> world_ok cl w' \<and>
    (\<forall>k. k \<noteq> key \<longrightarrow> stored (w_store w') k = stored (w_store w) k) \<and>
    (\<forall>m. r = Inr m \<longrightarrow> (\<exists>data. cd_Marshal (cl_codec cl) doc = Inr data \<and> stored (w_store w') key = Some (data, mt_ETag m))) \<and>
    (GetNode (w_ring w) key = cl_addr cl n \<longrightarrow> (\<forall>m. m \<noteq> n \<longrightarrow> w_db w' m = w_db w m) \<and>
       ((\<exists>data. cd_Marshal (cl_codec cl) doc = Inr data) \<and>
        put_precondition (po_ExpectedETag (put_options opts)) (stored (w_store w) key) = None \<longrightarrow> (\<exists>m. r = Inr m)))"
proof -
  let ?env = "forward_env cl clk dls n w" and ?s = "w_store w" and ?e = "po_ExpectedETag (put_options opts)"
  define db where "db = reconcileOwnership ?env ((w_db w n)\<lparr>d_store := ?s\<rparr>)"
  note S = start_op [OF ok n db_def] and drv = world_okD(1) [OF ok] and dd = world_okD(3) [OF ok]
  have Sdrv: "drv_ok (d_store db)" using S(2) drv by simp
  show ?thesis
  proof (cases "cd_Marshal (cl_codec cl) doc")
    case (Inl err)
    have "world_ok cl (settle cl clk dls n None (get_req ?env key) db w)"
      using S(2) drv ready_ok [OF S(1)] world_okD(4) [OF ok] by (intro world_okI [OF ok]) (simp_all add: settle_def)
    then show ?thesis using Inl S(2) by (auto simp: cluster_Put_def db_Put_def db_def [symmetric] Let_def settle_store settle_def)
  next
    case (Inr data)
    let ?t = "GetNode (w_ring w) key" and ?req = "put_req ?env key data ?e"
    show ?thesis
    proof (cases "?t = cl_addr cl n")
      case True
      have own: "\<not> foreign_key (w_ring w) (cl_addr cl n) key" using True by (simp add: foreign_key_def)
      obtain r db' where R: "put_cached ?env lclk key data ?e db = Some (r, db')" "served (w_ring w) (cl_addr cl n) key ?s db'"
        "\<forall>res. r = Inr res \<longrightarrow> (\<exists>obj. res = Some obj \<and> oValue obj = data \<and> stored (d_store db') key = Some (doc_of obj))"
        "put_precondition ?e (stored ?s key) = None \<longrightarrow> (\<exists>res. r = Inr res)"
        using owner_put [OF _ Sdrv own, of ?env lclk data ?e] S(1,2) dd by auto
      have "\<exists>r. db_Put ?env lclk key doc opts ((w_db w n)\<lparr>d_store := ?s\<rparr>) = Some (r, db') \<and>
          (\<forall>m. r = Inr m \<longrightarrow> stored (d_store db') key = Some (data, mt_ETag m)) \<and>
          (put_precondition ?e (stored ?s key) = None \<longrightarrow> (\<exists>m. r = Inr m))"
        using R(1,3,4) Inr S(3) [of key] True
        by (cases r) (auto simp: db_Put_def db_def [symmetric] Let_def meta_of_def doc_of_def)
      then show ?thesis using settle_local [OF ok n True R(2)] S(3) [of key] True R(2) Inr
        by (auto simp: cluster_Put_def settle_store served_def) (auto simp: settle_def)
    next
      case False
      obtain res s' x where F: "forward cl w clk dls ?t ?req ?s = (res, s', x)" by (metis prod_cases3)
      note A = forward_ok [where req = ?req, OF ok _ _ F]
      have rt: "route ?env key = Some ?t" using S(3) [of key] False by simp
      have exec: "e_exec ?env ?t ?req (d_store db) = (res, s')" using F S(2) by simp
      have settled: "world_ok cl (settle cl clk dls n (Some ?t) ?req (db\<lparr>d_store := s', d_list := l\<rparr>) w)" for l
        by (rule settle_forward [where req = ?req, OF ok n _ _ _ F])
          (use False A(1) ready_node_ok(1) [OF S(1)] in \<open>simp_all\<close>)
      have "\<exists>r l. db_Put ?env lclk key doc opts ((w_db w n)\<lparr>d_store := ?s\<rparr>) = Some (r, db\<lparr>d_store := s', d_list := l\<rparr>) \<and>
          (\<forall>m. r = Inr m \<longrightarrow> stored s' key = Some (data, mt_ETag m))"
      proof (cases res)
        case (Inl err)
        have "db\<lparr>d_store := s', d_list := d_list db\<rparr> = db\<lparr>d_store := s'\<rparr>" by simp
        then show ?thesis using Inl Inr
          by (intro exI [of _ "Inl (Wrapped ''inter-query error: '' err)"] exI [of _ "d_list db"])
            (simp add: db_Put_def db_def [symmetric] rt exec Let_def del: forward_env_simps(6))
      next
        case ans: (Inr resp)
        have an: "answers ?req (stored s') resp" using A(4) [of resp] ans by simp
        have same: "db\<lparr>d_store := s', d_list := d_list db\<rparr> = db\<lparr>d_store := s'\<rparr>" by simp
        have put: "db_Put ?env lclk key doc opts ((w_db w n)\<lparr>d_store := ?s\<rparr>) =
            (if rpErr resp \<noteq> [] then Some (Inl (mapErrorString (rpErr resp)), db\<lparr>d_store := s'\<rparr>)
             else (case rpObject resp of
                 None \<Rightarrow> Some (Inl (Wrapped (''inter-query to '' @ ?t @ '': '') ErrIncompleteResponse), db\<lparr>d_store := s'\<rparr>)
               | Some obj \<Rightarrow> Some (Inr (meta_of obj), invalidate_list key (db\<lparr>d_store := s'\<rparr>))))"
          using ans Inr
          by (simp add: db_Put_def db_def [symmetric] rt exec Let_def del: forward_env_simps(6) split: option.splits)
        consider (err) "rpErr resp \<noteq> []" | (nil) "rpErr resp = []" "rpObject resp = None"
          | (obj) obj where "rpErr resp = []" "rpObject resp = Some obj" by blast
        then show ?thesis
        proof cases
          case obj
          then have "oValue obj = data \<and> stored s' key = Some (doc_of obj)" using an by (simp add: answers_def)
          then show ?thesis using obj put by (auto simp: invalidate_list_def meta_of_def doc_of_def)
        qed (use put same in \<open>auto intro: exI [of _ "d_list db"]\<close>)
      qed
      then obtain r l where "cluster_Put cl lclk clk dls n key doc opts w =
          Some (r, settle cl clk dls n (Some ?t) ?req (db\<lparr>d_store := s', d_list := l\<rparr>) w)"
        "\<forall>m. r = Inr m \<longrightarrow> stored s' key = Some (data, mt_ETag m)" using rt Inr by (auto simp: cluster_Put_def)
      then show ?thesis using settled [of l] A(2) False Inr by (simp add: settle_store)
    qed
  qed
qed

lemma cluster_Delete_ok:
  assumes ok: "world_ok cl w" and n: "n \<in> set (cl_nodes cl)"
    and res: "cluster_Delete cl clk dls n key opts w = (r, w')"
  shows "world_ok cl w'" "\<forall>k. k \<noteq> key \<longrightarrow> stored (w_store w') k = stored (w_store w) k"
    "r = None \<Longrightarrow> stored (w_store w') key = None"
proof -
  let ?env = "forward_env cl clk dls n w" and ?s = "w_store w" and ?e = "del_ExpectedETag (delete_options opts)"
  define db where "db = reconcileOwnership ?env ((w_db w n)\<lparr>d_store := ?s\<rparr>)"
  note S = start_op [OF ok n db_def] and drv = world_okD(1) [OF ok] and dd = world_okD(3) [OF ok]
  have Sdrv: "drv_ok (d_store db)" using S(2) drv by simp
  let ?t = "GetNode (w_ring w) key" and ?req = "delete_req ?env key ?e"
  have "world_ok cl w' \<and> (\<forall>k. k \<noteq> key \<longrightarrow> stored (w_store w') k = stored (w_store w) k) \<and>
    (r = None \<longrightarrow> stored (w_store w') key = None)"
  proof (cases "?t = cl_addr cl n")
    case True
    have own: "\<not> foreign_key (w_ring w) (cl_addr cl n) key" using True by (simp add: foreign_key_def)
    obtain err db' where R: "delete_cached ?env key ?e db = (err, db')" by fastforce
    have O: "served (w_ring w) (cl_addr cl n) key ?s db'" "err = None \<longrightarrow> stored (d_store db') key = None"
      using owner_delete [OF _ Sdrv own _ _ R] S(1,2) dd by auto
    have "r = err" "w' = settle cl clk dls n None ?req db' w"
      using res R S(3) [of key] True by (auto simp: cluster_Delete_def db_Delete_def db_def [symmetric] Let_def)
    then show ?thesis using settle_local [OF ok n True O(1)] O by (auto simp: settle_store served_def)
  next
    case False
    obtain rs s' x where F: "forward cl w clk dls ?t ?req ?s = (rs, s', x)" by (metis prod_cases3)
    note A = forward_ok [where req = ?req, OF ok _ _ F]
    have rt: "route ?env key = Some ?t" using S(3) [of key] False by simp
    have exec: "e_exec ?env ?t ?req (d_store db) = (rs, s')" using F S(2) by simp
    have settled: "world_ok cl (settle cl clk dls n (Some ?t) ?req (db\<lparr>d_store := s', d_list := l\<rparr>) w)" for l
      by (rule settle_forward [where req = ?req, OF ok n _ _ _ F])
        (use False A(1) ready_node_ok(1) [OF S(1)] in \<open>simp_all\<close>)
    have del: "db_Delete ?env key opts ((w_db w n)\<lparr>d_store := ?s\<rparr>) =
        (case rs of
           Inl err \<Rightarrow> (Some (Wrapped ''inter-query error: '' err), db\<lparr>d_store := s', d_list := d_list db\<rparr>)
         | Inr resp \<Rightarrow>
             if rpErr resp \<noteq> [] then (Some (mapErrorString (rpErr resp)), db\<lparr>d_store := s', d_list := d_list db\<rparr>)
             else (None, db\<lparr>d_store := s', d_list := map_option (InvalidateKey key) (d_list db)\<rparr>))"
      by (cases rs) (simp_all add: db_Delete_def db_def [symmetric] rt exec Let_def invalidate_list_def del: forward_env_simps(6))
    have w': "w' = settle cl clk dls n (Some ?t) ?req
        (db\<lparr>d_store := s', d_list := if r = None then map_option (InvalidateKey key) (d_list db) else d_list db\<rparr>) w"
      using res unfolding cluster_Delete_def Let_def del rt by (auto split: sum.splits if_splits)
    have "stored s' key = None" if "r = None"
    proof -
      from that res obtain resp where "rs = Inr resp" "rpErr resp = []"
        unfolding cluster_Delete_def Let_def del by (auto split: sum.splits if_splits)
      with A(4) [of resp] show ?thesis by (simp add: answers_def)
    qed
    then show ?thesis using settled A(2) w' by (simp add: settle_store)
  qed
  then show "world_ok cl w'" "\<forall>k. k \<noteq> key \<longrightarrow> stored (w_store w') k = stored (w_store w) k"
    "r = None \<Longrightarrow> stored (w_store w') key = None" by auto
qed

lemma opened_ok:
  assumes "drv_ok s"
  shows "node_ok ring self st (fst (db_Open 0 opts ns h s (init_cache lim) node))"
proof -
  let ?cfg = "\<lparr>cfg_TTL = do_CacheTTL opts, cfg_MaxObjectSize = do_CacheMaxObjectSize opts, cfg_Budget = do_CacheBudget opts\<rparr>"
  have "live 0 (NewManagerWithConfig 0 ?cfg (init_cache lim))"
    by (simp add: live_def NewManagerWithConfig_def Let_def Register_def)
  moreover have "0 \<notin> set (b_evictors (cs_budget (init_cache lim)))" by (simp add: init_cache_def NewBudget_def)
  ultimately show ?thesis
    using New_ok(1,2) [OF init_ok] by (simp add: node_ok_def db_Open_def)
qed

lemma ring_change_ok:
  assumes ok: "world_ok cl w" and lv: "ring_live (ring_step rop (w_ring w))" and g: "unat (Generation (w_ring w)) + 1 < 2 ^ 64"
  shows "world_ok cl (w\<lparr>w_ring := ring_step rop (w_ring w)\<rparr>)"
proof (cases "ring_step rop (w_ring w) = w_ring w")
  case True
  then show ?thesis using ok by simp
next
  case False
  let ?r = "ring_step rop (w_ring w)"
  have "Generation ?r = Generation (w_ring w) + 1" using ring_step_generation [of rop "w_ring w"] False by simp
  then have G: "unat (Generation ?r) = unat (Generation (w_ring w)) + 1" using g by (simp add: unat_word_ariths)
  have "node_ok ?r (cl_addr cl n) (stored (w_store w)) (w_db w n)" if n: "n \<in> set (cl_nodes cl)" for n
  proof -
    note N = world_okD(4) [OF ok n, unfolded node_ok_def]
    have "d_reconciledGen (w_db w n) \<noteq> Generation ?r" using N G by auto
    moreover have "d_reconciledGen (w_db w n) = Generation (w_ring w)"
      if "unat (Generation ?r) \<le> unat (d_reconciledGen (w_db w n)) + 1"
      using that N G by (simp add: word_unat_eq_iff)
    ultimately show ?thesis using N G by (auto simp: node_ok_def)
  qed
  then show ?thesis using ok lv by (simp add: world_ok_def)
qed

end

section \<open>Runs of the cluster\<close>

text \<open>
  The states reachable from freshly opened databases: operations at any node with any fate of the
  forwarded requests, membership changes of the ring (which stays live and whose 64-bit generation
  does not wrap around), and restarts of nodes.
\<close>

inductive cluster_reach :: "('s, 'a) cluster \<Rightarrow> 's \<Rightarrow> 's world \<Rightarrow> bool" for cl :: "('s, 'a) cluster" and s0 :: 's where
  start: "ring_live r \<Longrightarrow> cluster_reach cl s0
    \<lparr>w_store = s0, w_ring = r, w_db = (\<lambda>n. fst (db_Open 0 (opts n) [] n s0 (init_cache (lim n)) None))\<rparr>"
| get: "cluster_reach cl s0 w \<Longrightarrow> n \<in> set (cl_nodes cl) \<Longrightarrow> cluster_Get cl lclk clk dls n key dest w = Some (r, w') \<Longrightarrow>
    cluster_reach cl s0 w'"
| put: "cluster_reach cl s0 w \<Longrightarrow> n \<in> set (cl_nodes cl) \<Longrightarrow> cluster_Put cl lclk clk dls n key doc opt w = Some (rp, w') \<Longrightarrow>
    cluster_reach cl s0 w'"
| delete: "cluster_reach cl s0 w \<Longrightarrow> n \<in> set (cl_nodes cl) \<Longrightarrow> cluster_Delete cl clk dls n key dopt w = (rd, w') \<Longrightarrow>
    cluster_reach cl s0 w'"
| member: "cluster_reach cl s0 w \<Longrightarrow> ring_live (ring_step rop (w_ring w)) \<Longrightarrow> unat (Generation (w_ring w)) + 1 < 2 ^ 64 \<Longrightarrow>
    cluster_reach cl s0 (w\<lparr>w_ring := ring_step rop (w_ring w)\<rparr>)"
| restart: "cluster_reach cl s0 w \<Longrightarrow>
    cluster_reach cl s0 (w\<lparr>w_db := (w_db w)(n := fst (db_Open 0 o1 [] n (w_store w) (init_cache l1) None))\<rparr>)"

context cas_driver
begin

lemma cluster_reach_ok:
  assumes "cluster_reach cl s0 w" and "drv_ok s0" "cl_driver cl = d" "inj_on (cl_addr cl) (set (cl_nodes cl))"
  shows "world_ok cl w"
  using assms(1)
proof (induction rule: cluster_reach.induct)
  case (start r opts lim)
  then show ?case using assms(2-4) by (simp add: world_ok_def opened_ok)
next
  case (get w n lclk clk dls key dest r w')
  then show ?case using cluster_Get_ok [OF get.IH get.hyps(2), of lclk clk dls key dest] by auto
next
  case (put w n lclk clk dls key doc opt rp w')
  then show ?case using cluster_Put_ok [OF put.IH put.hyps(2), of lclk clk dls key doc opt] by auto
next
  case (delete w n clk dls key dopt rd w')
  show ?case by (rule cluster_Delete_ok(1) [OF delete.IH delete.hyps(2,3)])
next
  case (member w rop)
  show ?case by (rule ring_change_ok [OF member.IH member.hyps(2,3)])
next
  case (restart w n o1 l1)
  have "drv_ok (w_store w)" by (rule world_okD(1) [OF restart.IH])
  then show ?case using world_okD(4) [OF restart.IH] by (intro world_okI [OF restart.IH]) (simp_all add: opened_ok)
qed

end

section \<open>A small cluster\<close>

text \<open>Two nodes a and b over the in-memory driver; the ring has only b, so b owns every key.\<close>

definition pair_cluster :: "(MemDriver, bytes) cluster" where
  "pair_cluster = \<lparr>cl_driver = mem_driver (\<lambda>bs. bs), cl_codec = bytes_codec,
     cl_addr = (\<lambda>n. if n = 0 then ''a'' else ''b''), cl_nodes = [0, 1]\<rparr>"

definition pair_opts :: DbOptions where
  "pair_opts = \<lparr>do_CacheTTL = 0, do_CacheMaxObjectSize = 0, do_CacheBudget = True, do_ListCacheTTL = 0,
     do_ListCacheMaxPages = 0, do_ShardingDepth = 0\<rparr>"

definition pair_world :: "MemDriver world" where
  "pair_world = \<lparr>w_store = mem_NewDriver (\<lambda>_. 0), w_ring = AddNode ''b'' (NewRing 1 0),
     w_db = (\<lambda>n. fst (db_Open 0 pair_opts [] n (mem_NewDriver (\<lambda>_. 0)) (init_cache 10) None))\<rparr>"

lemma pair_ring: "ring_live (AddNode ''b'' (NewRing 1 0))" "GetNode (AddNode ''b'' (NewRing 1 0)) key = ''b''"
  using ring_ok_AddNode [OF ring_ok_NewRing, of "''b''" 1 0]
  by (auto simp: ring_live_def AddNode_def NewRing_def GetNode_def shard_index_def)

lemma pair_reach: "cluster_reach pair_cluster (mem_NewDriver (\<lambda>_. 0)) pair_world"
  unfolding pair_world_def by (rule cluster_reach.start [OF pair_ring(1)])

lemma pair_cluster_ok: "cl_driver pair_cluster = mem_driver (\<lambda>bs. bs)" "inj_on (cl_addr pair_cluster) (set (cl_nodes pair_cluster))"
  by (simp_all add: pair_cluster_def inj_on_def)

lemma pair_world_ok: "mem.world_ok (\<lambda>bs. bs) pair_cluster pair_world"
  by (rule mem.cluster_reach_ok [OF pair_reach mem_ok_NewDriver pair_cluster_ok])

lemma pair_put:
  assumes "mem.world_ok (\<lambda>bs. bs) pair_cluster w" and "w_ring w = AddNode ''b'' (NewRing 1 0)"
  shows "\<exists>m w'. cluster_Put pair_cluster (\<lambda>_. 5) (\<lambda>_ _. 5) [] 1 key v [] w = Some (Inr m, w') \<and>
    mem_stored (w_store w') key = Some (v, mt_ETag m) \<and> w_db w' 0 = w_db w 0"
  using mem.cluster_Put_ok [OF assms(1), of 1 "\<lambda>_. 5" "\<lambda>_ _. 5" "[]" key v "[]"] assms(2) pair_ring(2) [of key]
  by (fastforce simp: pair_cluster_def bytes_codec_def put_options_def)

section \<open>Properties\<close>





text \<open>
  C16: listings have no such guarantee. Only the node that forwards or executes a write drops its
  list pages, and listing does not reconcile with the ring. Node a lists an empty prefix, a document
  is then written through node b, which reports success, and a later listing at node a, within the
  TTL, still returns the empty page although the document is stored.
\<close>

theorem cluster_listing_stale:
  "let env = node_env pair_cluster no_exec 0 pair_world;
       (first, db) = db_ListPage env (\<lambda>_. 4) ''k'' 0 [] ((w_db pair_world 0)\<lparr>d_store := w_store pair_world\<rparr>);
       w = pair_world\<lparr>w_db := (w_db pair_world)(0 := db)\<rparr>
   in first = Inr ([], []) \<and>
     (\<exists>m w'. cluster_Put pair_cluster (\<lambda>_. 5) (\<lambda>_ _. 5) [] 1 ''k'' [7] [] w = Some (Inr m, w') \<and>
        mem_stored (w_store w') ''k'' = Some ([7], mt_ETag m) \<and>
        fst (db_ListPage env (\<lambda>_. 6) ''k'' 0 [] ((w_db w' 0)\<lparr>d_store := w_store w'\<rparr>)) = Inr ([], []))"
proof -
  let ?env = "node_env pair_cluster no_exec 0 pair_world" and ?db0 = "(w_db pair_world 0)\<lparr>d_store := w_store pair_world\<rparr>"
  obtain c where c: "d_list ?db0 = Some c" "c = NewListCache \<lparr>lcfg_TTL = 0, lcfg_MaxPages = 0\<rparr>"
    by (simp add: pair_world_def pair_opts_def db_Open_def)
  let ?opts = "\<lparr>loLimit = listPageSize, loCursor = [], loDelimiter = []\<rparr>"
  have l1: "\<exists>c1. ListCache_ListPage (mem_driver (\<lambda>bs. bs)) (\<lambda>_. 4) ''k'' ?opts (mem_NewDriver (\<lambda>_. 0)) c =
      (Inr ([], []), mem_NewDriver (\<lambda>_. 0), c1) \<and>
    (\<forall>s. fst (ListCache_ListPage (mem_driver (\<lambda>bs. bs)) (\<lambda>_. 6) ''k'' ?opts s c1) = Inr ([], []))"
    unfolding c(2)
    by (simp add: ListCache_ListPage_def list_lookup_def lc_find_def NewListCache_def list_recheck_def list_admit_def
        evict_pages.simps mem_List_def mem_list_keys_def mem_NewDriver_def gl_New_def gl_PushFront_def gl_Len_def
        gl_Value_def Let_def DefaultListMaxPages_def DefaultListTTL_def listPageSize_def)
  then obtain c1 where L: "db_ListPage ?env (\<lambda>_. 4) ''k'' 0 [] ?db0 = (Inr ([], []), ?db0\<lparr>d_list := Some c1\<rparr>)"
    "\<forall>s. fst (ListCache_ListPage (mem_driver (\<lambda>bs. bs)) (\<lambda>_. 6) ''k'' ?opts s c1) = Inr ([], [])"
    using c(1) by (auto simp: db_ListPage_def node_env_def pair_cluster_def pair_world_def Let_def)
  let ?w = "pair_world\<lparr>w_db := (w_db pair_world)(0 := ?db0\<lparr>d_list := Some c1\<rparr>)\<rparr>"
  have "mem.world_ok (\<lambda>bs. bs) pair_cluster ?w"
    using mem.world_okD(1,4) [OF pair_world_ok] by (intro mem.world_okI [OF pair_world_ok]) (auto simp: node_ok_def)
  from pair_put [OF this, of "''k''" "[7]"] obtain m w' where
    P: "cluster_Put pair_cluster (\<lambda>_. 5) (\<lambda>_ _. 5) [] 1 ''k'' [7] [] ?w = Some (Inr m, w')"
    "mem_stored (w_store w') ''k'' = Some ([7], mt_ETag m)" "w_db w' 0 = ?db0\<lparr>d_list := Some c1\<rparr>"
    by (auto simp: pair_world_def)
  have "fst (db_ListPage ?env (\<lambda>_. 6) ''k'' 0 [] ((w_db w' 0)\<lparr>d_store := w_store w'\<rparr>)) = Inr ([], [])"
    using L(2) [rule_format, of "w_store w'"] unfolding P(3)
    by (auto simp: db_ListPage_def node_env_def pair_cluster_def Let_def split: prod.splits)
  with L(1) P show ?thesis by (auto simp: Let_def)
qed

end
