(* ===== verification/Pool.thy ===== *)
theory Pool
  imports JayPrelude Storage "HOL-Library.Multiset"
begin

text \<open>
  pkg/cluster/pool.go: the pools of idle connections to the peers of a node. The channel of a pool
  is the list of its idle connections. A connection is a number, and the network records which
  connections are open and what becomes of the next dial; dialling, deadlines and socket options
  are otherwise outside. The operations of the first part are atomic; the race between
  \<open>PutConn\<close> and \<open>Close\<close> is the subject of the last part, where their steps interleave.
\<close>

section \<open>Definitions\<close>

definition DefaultPoolSize :: int where
  "DefaultPoolSize = 8"

definition DefaultDialTimeout :: duration where
  "DefaultDialTimeout = 3 * 1000000000"

text \<open>The network: the outcome of each dial, how many were made, and the open connections.\<close>

record Net =
  nt_fate :: "nat \<Rightarrow> gerror option"
  nt_dials :: nat
  nt_open :: "nat list"

definition net_Dial :: "Net \<Rightarrow> (gerror + nat) \<times> Net" where
  "net_Dial n =
     (case nt_fate n (nt_dials n) of
        Some err \<Rightarrow> (Inl err, n\<lparr>nt_dials := nt_dials n + 1\<rparr>)
      | None \<Rightarrow> (Inr (nt_dials n), n\<lparr>nt_dials := nt_dials n + 1, nt_open := nt_dials n # nt_open n\<rparr>))"

definition net_Close :: "nat \<Rightarrow> Net \<Rightarrow> Net" where
  "net_Close conn n = n\<lparr>nt_open := removeAll conn (nt_open n)\<rparr>"

record PeerPoolConfig =
  pc_TargetAddr :: string
  pc_PoolSize :: int
  pc_DialTimeout :: duration

record PeerPool =
  pp_cfg :: PeerPoolConfig
  pp_conns :: "nat list"
  pp_closed :: bool

definition NewPeerPool :: "PeerPoolConfig \<Rightarrow> PeerPool" where
  "NewPeerPool cfg =
     \<lparr>pp_cfg = cfg\<lparr>pc_PoolSize := (if pc_PoolSize cfg \<le> 0 then DefaultPoolSize else pc_PoolSize cfg),
        pc_DialTimeout := (if pc_DialTimeout cfg \<le> 0 then DefaultDialTimeout else pc_DialTimeout cfg)\<rparr>,
      pp_conns = [], pp_closed = False\<rparr>"

text \<open>The non-blocking send on the channel of a pool.\<close>

definition try_send :: "nat \<Rightarrow> PeerPool \<Rightarrow> PeerPool option" where
  "try_send conn p =
     (if int (length (pp_conns p)) < pc_PoolSize (pp_cfg p) then Some (p\<lparr>pp_conns := pp_conns p @ [conn]\<rparr>) else None)"

text \<open>The loop of \<open>EnsureConnected\<close>; \<open>ctx i\<close> is the error of the context before the i-th turn.\<close>

fun warm_loop :: "(nat \<Rightarrow> gerror option) \<Rightarrow> nat \<Rightarrow> nat \<Rightarrow> PeerPool \<Rightarrow> Net \<Rightarrow> gerror option \<times> PeerPool \<times> Net" where
  "warm_loop ctx i 0 p n = (None, p, n)"
| "warm_loop ctx i (Suc k) p n =
     (case ctx i of
        Some err \<Rightarrow> (Some err, p, n)
      | None \<Rightarrow>
          if pp_closed p then (Some ErrPeerPoolClosed, p, n)
          else if int (length (pp_conns p)) \<ge> pc_PoolSize (pp_cfg p) then (None, p, n)
          else (case net_Dial n of
              (Inl err, n1) \<Rightarrow> (Some err, p, n1)
            | (Inr conn, n1) \<Rightarrow>
                if pp_closed p then (Some ErrPeerPoolClosed, p, net_Close conn n1)
                else (case try_send conn p of
                    None \<Rightarrow> (None, p, net_Close conn n1)
                  | Some p1 \<Rightarrow> warm_loop ctx (Suc i) k p1 n1)))"

definition EnsureConnected :: "(nat \<Rightarrow> gerror option) \<Rightarrow> PeerPool \<Rightarrow> Net \<Rightarrow> gerror option \<times> PeerPool \<times> Net" where
  "EnsureConnected ctx p n =
     (if pp_closed p then (Some ErrPeerPoolClosed, p, n)
      else warm_loop ctx 0 (nat (pc_PoolSize (pp_cfg p))) p n)"

definition GetConn :: "PeerPool \<Rightarrow> Net \<Rightarrow> (gerror + nat) \<times> PeerPool \<times> Net" where
  "GetConn p n =
     (if pp_closed p then (Inl ErrPeerPoolClosed, p, n)
      else (case pp_conns p of
          conn # rest \<Rightarrow> (Inr conn, p\<lparr>pp_conns := rest\<rparr>, n)
        | [] \<Rightarrow>
            (case net_Dial n of
               (Inl err, n1) \<Rightarrow> (Inl (Wrapped (''dial peer '' @ pc_TargetAddr (pp_cfg p) @ '': '') err), p, n1)
             | (Inr conn, n1) \<Rightarrow> (Inr conn, p, n1))))"

definition PutConn :: "nat \<Rightarrow> PeerPool \<Rightarrow> Net \<Rightarrow> PeerPool \<times> Net" where
  "PutConn conn p n =
     (if pp_closed p then (p, net_Close conn n)
      else (case try_send conn p of
          Some p1 \<Rightarrow> (p1, n)
        | None \<Rightarrow> (p, net_Close conn n)))"

definition DropConn :: "nat \<Rightarrow> Net \<Rightarrow> Net" where
  "DropConn conn n = net_Close conn n"

text \<open>The loop that drains the channel ends when nothing is left to receive.\<close>

fun drain_conns :: "nat list \<Rightarrow> Net \<Rightarrow> Net" where
  "drain_conns [] n = n"
| "drain_conns (conn # rest) n = drain_conns rest (net_Close conn n)"

definition PeerPool_Close :: "PeerPool \<Rightarrow> Net \<Rightarrow> PeerPool \<times> Net" where
  "PeerPool_Close p n =
     (if pp_closed p then (p, n)
      else (p\<lparr>pp_closed := True, pp_conns := []\<rparr>, drain_conns (pp_conns p) n))"

record MeshPool =
  mp_peers :: "(string, PeerPool) gomap"
  mp_poolSize :: int
  mp_dialTo :: duration
  mp_done :: bool

definition NewMeshPool :: "int \<Rightarrow> duration \<Rightarrow> MeshPool" where
  "NewMeshPool poolSize dialTo =
     \<lparr>mp_peers = [], mp_poolSize = (if poolSize \<le> 0 then DefaultPoolSize else poolSize),
      mp_dialTo = (if dialTo \<le> 0 then DefaultDialTimeout else dialTo), mp_done = False\<rparr>"

definition AddPeer :: "string \<Rightarrow> MeshPool \<Rightarrow> MeshPool" where
  "AddPeer targetAddr m =
     (if targetAddr = [] then m
      else if mp_done m then m
      else if map_of (mp_peers m) targetAddr \<noteq> None then m
      else m\<lparr>mp_peers := AList.update targetAddr
        (NewPeerPool \<lparr>pc_TargetAddr = targetAddr, pc_PoolSize = mp_poolSize m, pc_DialTimeout = mp_dialTo m\<rparr>) (mp_peers m)\<rparr>)"

definition RemovePeer :: "string \<Rightarrow> MeshPool \<Rightarrow> Net \<Rightarrow> MeshPool \<times> Net" where
  "RemovePeer targetAddr m n =
     (case map_of (mp_peers m) targetAddr of
        None \<Rightarrow> (m, n)
      | Some pool \<Rightarrow>
          (m\<lparr>mp_peers := AList.delete targetAddr (mp_peers m)\<rparr>, snd (PeerPool_Close pool n)))"

definition mesh_GetConn :: "string \<Rightarrow> MeshPool \<Rightarrow> Net \<Rightarrow> (gerror + nat) \<times> MeshPool \<times> Net" where
  "mesh_GetConn targetAddr m n =
     (if mp_done m then (Inl ErrPeerPoolClosed, m, n)
      else
        let m1 = (if map_of (mp_peers m) targetAddr = None then AddPeer targetAddr m else m) in
        case map_of (mp_peers m1) targetAddr of
          None \<Rightarrow>
            if mp_done m1 then (Inl ErrPeerPoolClosed, m1, n)
            else (Inl (ErrorMsg (''peer pool for '' @ targetAddr @ '' not found'')), m1, n)
        | Some pool \<Rightarrow>
            let (r, pool1, n1) = GetConn pool n
            in (r, m1\<lparr>mp_peers := AList.update targetAddr pool1 (mp_peers m1)\<rparr>, n1))"

definition PeerCount :: "MeshPool \<Rightarrow> nat" where
  "PeerCount m = length (mp_peers m)"

definition mesh_PutConn :: "string \<Rightarrow> nat \<Rightarrow> MeshPool \<Rightarrow> Net \<Rightarrow> MeshPool \<times> Net" where
  "mesh_PutConn targetAddr conn m n =
     (case map_of (mp_peers m) targetAddr of
        Some pool \<Rightarrow>
          let (pool1, n1) = PutConn conn pool n
          in (m\<lparr>mp_peers := AList.update targetAddr pool1 (mp_peers m)\<rparr>, n1)
      | None \<Rightarrow> (m, net_Close conn n))"

definition mesh_DropConn :: "string \<Rightarrow> nat \<Rightarrow> MeshPool \<Rightarrow> Net \<Rightarrow> Net" where
  "mesh_DropConn targetAddr conn m n =
     (case map_of (mp_peers m) targetAddr of
        Some pool \<Rightarrow> DropConn conn n
      | None \<Rightarrow> net_Close conn n)"

text \<open>\<open>GetStream\<close>: a connection with the function that drops it.\<close>

definition GetStream ::
  "string \<Rightarrow> MeshPool \<Rightarrow> Net \<Rightarrow> (gerror + nat \<times> (MeshPool \<Rightarrow> Net \<Rightarrow> Net)) \<times> MeshPool \<times> Net" where
  "GetStream targetAddr m n =
     (case mesh_GetConn targetAddr m n of
        (Inl err, m1, n1) \<Rightarrow> (Inl err, m1, n1)
      | (Inr conn, m1, n1) \<Rightarrow> (Inr (conn, mesh_DropConn targetAddr conn), m1, n1))"

definition ReconcilePeers :: "string list \<Rightarrow> string \<Rightarrow> MeshPool \<Rightarrow> Net \<Rightarrow> MeshPool \<times> Net" where
  "ReconcilePeers activeAddrs selfAddr m n =
     (let activeSet = filter (\<lambda>addr. addr \<noteq> [] \<and> addr \<noteq> selfAddr) activeAddrs;
          m1 = fold AddPeer activeSet m;
          toRemove = filter (\<lambda>addr. addr \<notin> set activeSet) (map fst (mp_peers m1))
      in fold (\<lambda>addr (m, n). RemovePeer addr m n) toRemove (m1, n))"

definition TotalLiveConnections :: "MeshPool \<Rightarrow> nat" where
  "TotalLiveConnections m = sum_list (map (\<lambda>(addr, pool). length (pp_conns pool)) (mp_peers m))"

definition MeshPool_Close :: "MeshPool \<Rightarrow> Net \<Rightarrow> MeshPool \<times> Net" where
  "MeshPool_Close m n =
     (m\<lparr>mp_peers := [], mp_done := True\<rparr>,
      fold (\<lambda>(addr, pool) n. snd (PeerPool_Close pool n)) (mp_peers m) n)"

text \<open>The warm-up that \<open>NewPeerPool\<close> starts in the background, when it runs.\<close>

definition mesh_warm :: "string \<Rightarrow> (nat \<Rightarrow> gerror option) \<Rightarrow> MeshPool \<Rightarrow> Net \<Rightarrow> MeshPool \<times> Net" where
  "mesh_warm targetAddr ctx m n =
     (case map_of (mp_peers m) targetAddr of
        None \<Rightarrow> (m, n)
      | Some pool \<Rightarrow>
          let (err, pool1, n1) = EnsureConnected ctx pool n
          in (m\<lparr>mp_peers := AList.update targetAddr pool1 (mp_peers m)\<rparr>, n1))"

section \<open>Accounting of connections\<close>

text \<open>The idle connections of the pools, and the state of a run: the pools, the network and what clients hold.\<close>

definition idle_of :: "(string, PeerPool) gomap \<Rightarrow> nat multiset" where
  "idle_of peers = (\<Sum>(addr, p) \<in># mset peers. mset (pp_conns p))"

definition pool_ok :: "int \<Rightarrow> PeerPool \<Rightarrow> bool" where
  "pool_ok sz p \<longleftrightarrow> \<not> pp_closed p \<and> pc_PoolSize (pp_cfg p) = sz \<and> int (length (pp_conns p)) \<le> sz"

definition net_ok :: "nat multiset \<Rightarrow> Net \<Rightarrow> bool" where
  "net_ok M n \<longleftrightarrow> distinct (nt_open n) \<and> mset (nt_open n) = M \<and> (\<forall>c \<in> set (nt_open n). c < nt_dials n)"

text \<open>
  The pools are well formed and the open connections are exactly the idle ones and those, \<open>H\<close>, that
  clients hold, none of them twice.
\<close>

definition mesh_ok :: "nat multiset \<Rightarrow> MeshPool \<Rightarrow> Net \<Rightarrow> bool" where
  "mesh_ok H m n \<longleftrightarrow> wf_map (mp_peers m) \<and> 0 < mp_poolSize m \<and> (\<forall>(addr, p) \<in> set (mp_peers m). pool_ok (mp_poolSize m) p) \<and>
     (mp_done m \<longrightarrow> mp_peers m = []) \<and> net_ok (idle_of (mp_peers m) + H) n"

lemma idle_of_simps [simp]: "idle_of [] = {#}" "idle_of ((addr, p) # ps) = mset (pp_conns p) + idle_of ps"
  by (simp_all add: idle_of_def)

lemma idle_of_update:
  "wf_map ps \<Longrightarrow> map_of ps addr = Some p \<Longrightarrow> idle_of (AList.update addr p' ps) + mset (pp_conns p) = idle_of ps + mset (pp_conns p')"
  "map_of ps addr = None \<Longrightarrow> idle_of (AList.update addr p' ps) = idle_of ps + mset (pp_conns p')"
  by (induction ps) (auto split: if_splits)

lemma idle_of_delete:
  "wf_map ps \<Longrightarrow> map_of ps addr = Some p \<Longrightarrow> idle_of (AList.delete addr ps) + mset (pp_conns p) = idle_of ps"
proof (induction ps)
  case (Cons x ps)
  obtain a q where x: "x = (a, q)" by fastforce
  show ?case
  proof (cases "a = addr")
    case True
    then have "AList.delete addr ps = ps" using Cons.prems x by (force simp: AList.delete_eq filter_id_conv)
    then show ?thesis using True Cons.prems x by simp
  qed (use Cons x in auto)
qed simp

lemma set_update_wf: "wf_map ps \<Longrightarrow> set (AList.update a p ps) \<subseteq> insert (a, p) (set ps)"
  by (induction ps) auto

lemma net_Dial_ok:
  assumes "net_ok M n" and "net_Dial n = (r, n')"
  shows "case r of Inl err \<Rightarrow> net_ok M n' | Inr c \<Rightarrow> net_ok (add_mset c M) n'"
  using assms by (auto simp: net_ok_def net_Dial_def less_Suc_eq split: option.splits)

lemma net_Close_ok: "net_ok (add_mset c M) n \<Longrightarrow> net_ok M (net_Close c n)"
proof -
  assume a: "net_ok (add_mset c M) n"
  then have c: "c \<in> set (nt_open n)" "distinct (nt_open n)" by (auto simp: net_ok_def) (metis set_mset_mset union_single_eq_member)
  then have "removeAll c (nt_open n) = remove1 c (nt_open n)" by (simp add: distinct_remove1_removeAll)
  then show ?thesis using a c by (auto simp: net_ok_def net_Close_def dest: notin_set_remove1)
qed

lemma drain_ok: "net_ok (mset cs + M) n \<Longrightarrow> net_ok M (drain_conns cs n)"
proof (induction cs arbitrary: n)
  case (Cons c cs)
  then have "net_ok (mset cs + M) (net_Close c n)" using net_Close_ok [of c "mset cs + M"] by simp
  then show ?case using Cons.IH by simp
qed simp

lemma pool_Close_ok: "\<not> pp_closed p \<Longrightarrow> net_ok (mset (pp_conns p) + M) n \<Longrightarrow> net_ok M (snd (PeerPool_Close p n))"
  by (simp add: PeerPool_Close_def drain_ok)

lemma warm_loop_ok:
  assumes "pool_ok sz p" and "net_ok (mset (pp_conns p) + M) n" and "warm_loop ctx i k p n = (err, p', n')"
  shows "pool_ok sz p' \<and> net_ok (mset (pp_conns p') + M) n'"
  using assms
proof (induction k arbitrary: i p n)
  case (Suc k)
  obtain r n1 where d: "net_Dial n = (r, n1)" by fastforce
  note D = net_Dial_ok [OF Suc.prems(2) d]
  show ?case
  proof (cases "ctx i = None \<and> int (length (pp_conns p)) < pc_PoolSize (pp_cfg p) \<and> (\<exists>c. r = Inr c)")
    case False
    then show ?thesis using Suc.prems d D by (auto simp: pool_ok_def split: option.splits sum.splits if_splits)
  next
    case True
    then obtain c where c: "r = Inr c" by blast
    let ?p = "p\<lparr>pp_conns := pp_conns p @ [c]\<rparr>"
    have "warm_loop ctx (Suc i) k ?p n1 = (err, p', n')"
      using Suc.prems True c d by (simp add: pool_ok_def try_send_def)
    moreover have "pool_ok sz ?p" "net_ok (mset (pp_conns ?p) + M) n1" using Suc.prems(1) True D c by (auto simp: pool_ok_def)
    ultimately show ?thesis using Suc.IH by blast
  qed
qed simp

lemma mesh_okD:
  assumes "mesh_ok H m n"
  shows "wf_map (mp_peers m)" "0 < mp_poolSize m" "map_of (mp_peers m) a = Some p \<Longrightarrow> pool_ok (mp_poolSize m) p"
    "mp_done m \<Longrightarrow> mp_peers m = []" "net_ok (idle_of (mp_peers m) + H) n"
  using assms by (auto simp: mesh_ok_def dest: map_of_SomeD)

lemma mesh_ok_update:
  assumes ok: "mesh_ok H m n" and p: "map_of (mp_peers m) a = Some p" and p': "pool_ok (mp_poolSize m) p'"
    and n': "\<And>M. net_ok (mset (pp_conns p) + H + M) n \<Longrightarrow> net_ok (mset (pp_conns p') + H' + M) n'"
  shows "mesh_ok H' (m\<lparr>mp_peers := AList.update a p' (mp_peers m)\<rparr>) n'"
proof -
  note D = mesh_okD [OF ok]
  obtain M where M: "idle_of (mp_peers m) = mset (pp_conns p) + M"
    using idle_of_delete [OF D(1) p] by (metis add.commute)
  have upd: "idle_of (AList.update a p' (mp_peers m)) = mset (pp_conns p') + M"
    using idle_of_update(1) [OF D(1) p, of p'] M by (simp add: add.commute add.left_commute)
  have "net_ok (mset (pp_conns p) + H + M) n" using D(5) M by (simp add: add_ac)
  then have "net_ok (mset (pp_conns p') + H' + M) n'" by (rule n')
  moreover have "mp_done m \<Longrightarrow> False" using D(4) p by auto
  moreover have "pool_ok (mp_poolSize m) q" if "(b, q) \<in> set (AList.update a p' (mp_peers m))" for b q
    using set_update_wf [OF D(1), of a p'] that p' ok by (auto simp: mesh_ok_def)
  ultimately show ?thesis using D(1,2) upd by (auto simp: mesh_ok_def add_ac)
qed

lemma AddPeer_ok:
  assumes ok: "mesh_ok H m n"
  shows "mesh_ok H (AddPeer a m) n" "\<not> mp_done m \<Longrightarrow> a \<noteq> [] \<Longrightarrow> map_of (mp_peers (AddPeer a m)) a \<noteq> None"
    "mp_done (AddPeer a m) = mp_done m" "mp_poolSize (AddPeer a m) = mp_poolSize m"
    "map_of (mp_peers m) b = Some p \<Longrightarrow> map_of (mp_peers (AddPeer a m)) b = Some p"
    "b \<noteq> a \<Longrightarrow> map_of (mp_peers (AddPeer a m)) b = map_of (mp_peers m) b"
proof -
  note D = mesh_okD [OF ok]
  let ?p = "NewPeerPool \<lparr>pc_TargetAddr = a, pc_PoolSize = mp_poolSize m, pc_DialTimeout = mp_dialTo m\<rparr>"
  have p: "pool_ok (mp_poolSize m) ?p" "pp_conns ?p = []" using D(2) by (simp_all add: pool_ok_def NewPeerPool_def)
  show "mesh_ok H (AddPeer a m) n"
    using ok p idle_of_update(2) [of "mp_peers m" a ?p] set_update_wf [OF D(1), of a ?p]
    by (auto simp: AddPeer_def mesh_ok_def)
qed (auto simp: AddPeer_def)

lemma RemovePeer_ok:
  assumes ok: "mesh_ok H m n" and r: "RemovePeer a m n = (m', n')"
  shows "mesh_ok H m' n' \<and> map_of (mp_peers m') = (map_of (mp_peers m))(a := None)"
proof (cases "map_of (mp_peers m) a")
  case None
  then show ?thesis using r ok by (auto simp: RemovePeer_def fun_eq_iff)
next
  case (Some p)
  note D = mesh_okD [OF ok]
  have p: "\<not> pp_closed p" using D(3) [OF Some] by (simp add: pool_ok_def)
  have "net_ok (mset (pp_conns p) + (idle_of (AList.delete a (mp_peers m)) + H)) n"
    using D(5) idle_of_delete [OF D(1) Some] by (simp add: add_ac)
  then have "net_ok (idle_of (AList.delete a (mp_peers m)) + H) (snd (PeerPool_Close p n))" by (rule pool_Close_ok [OF p])
  moreover
  have "set (AList.delete a (mp_peers m)) \<subseteq> set (mp_peers m)" by (simp add: AList.delete_eq)
  then have "\<forall>(b, q) \<in> set (AList.delete a (mp_peers m)). pool_ok (mp_poolSize m) q" using ok by (fastforce simp: mesh_ok_def)
  ultimately show ?thesis using r ok Some by (auto simp: RemovePeer_def mesh_ok_def fun_eq_iff)
qed

lemma mesh_GetConn_ok:
  assumes ok: "mesh_ok H m n" and g: "mesh_GetConn a m n = (r, m', n')"
  shows "mesh_ok (case r of Inr c \<Rightarrow> add_mset c H | Inl err \<Rightarrow> H) m' n'"
proof (cases "mp_done m")
  case True
  then show ?thesis using g ok by (auto simp: mesh_GetConn_def)
next
  case False
  let ?m = "if map_of (mp_peers m) a = None then AddPeer a m else m"
  have ok1: "mesh_ok H ?m n" using AddPeer_ok(1) [OF ok] ok by simp
  show ?thesis
  proof (cases "map_of (mp_peers ?m) a")
    case None
    then obtain err where "r = Inl err" "m' = ?m" "n' = n" using g False by (auto simp: mesh_GetConn_def Let_def split: if_splits)
    then show ?thesis using ok1 by simp
  next
    case (Some p)
    obtain r1 p1 n1 where G: "GetConn p n = (r1, p1, n1)" by (metis prod_cases3)
    have res: "r = r1" "m' = ?m\<lparr>mp_peers := AList.update a p1 (mp_peers ?m)\<rparr>" "n' = n1"
      using g Some G False by (auto simp: mesh_GetConn_def Let_def)
    have p: "pool_ok (mp_poolSize ?m) p" by (rule mesh_okD(3) [OF ok1 Some])
    have p1: "pool_ok (mp_poolSize ?m) p1"
      using G p by (auto simp: GetConn_def pool_ok_def split: if_splits list.splits prod.splits sum.splits)
    have "net_ok (mset (pp_conns p1) + (case r1 of Inr c \<Rightarrow> add_mset c H | Inl err \<Rightarrow> H) + M) n1"
      if "net_ok (mset (pp_conns p) + H + M) n" for M
      using G p that net_Dial_ok [OF that]
      by (auto simp: GetConn_def pool_ok_def split: list.splits prod.splits sum.splits)
    from mesh_ok_update [OF ok1 Some p1 this] show ?thesis using res by simp
  qed
qed

lemma mesh_PutConn_ok:
  assumes ok: "mesh_ok (add_mset c H) m n" and g: "mesh_PutConn a c m n = (m', n')"
  shows "mesh_ok H m' n'"
proof (cases "map_of (mp_peers m) a")
  case None
  then show ?thesis using g ok net_Close_ok [of c] by (auto simp: mesh_PutConn_def mesh_ok_def)
next
  case (Some p)
  obtain p1 n1 where G: "PutConn c p n = (p1, n1)" by fastforce
  have res: "m' = m\<lparr>mp_peers := AList.update a p1 (mp_peers m)\<rparr>" "n' = n1"
    using g Some G by (auto simp: mesh_PutConn_def)
  have p: "pool_ok (mp_poolSize m) p" by (rule mesh_okD(3) [OF ok Some])
  have p1: "pool_ok (mp_poolSize m) p1"
    using G p by (auto simp: PutConn_def try_send_def pool_ok_def split: if_splits)
  have "net_ok (mset (pp_conns p1) + H + M) n1" if "net_ok (mset (pp_conns p) + add_mset c H + M) n" for M
    using G p that net_Close_ok [of c "mset (pp_conns p) + H + M"]
    by (auto simp: PutConn_def try_send_def pool_ok_def split: if_splits)
  from mesh_ok_update [OF ok Some p1 this] show ?thesis using res by simp
qed

lemma mesh_warm_ok:
  assumes ok: "mesh_ok H m n" and g: "mesh_warm a ctx m n = (m', n')"
  shows "mesh_ok H m' n'"
proof (cases "map_of (mp_peers m) a")
  case None
  then show ?thesis using g ok by (simp add: mesh_warm_def)
next
  case (Some p)
  obtain err p1 n1 where G: "EnsureConnected ctx p n = (err, p1, n1)" by (metis prod_cases3)
  have res: "m' = m\<lparr>mp_peers := AList.update a p1 (mp_peers m)\<rparr>" "n' = n1"
    using g Some G by (auto simp: mesh_warm_def)
  have p: "pool_ok (mp_poolSize m) p" by (rule mesh_okD(3) [OF ok Some])
  then have w: "warm_loop ctx 0 (nat (pc_PoolSize (pp_cfg p))) p n = (err, p1, n1)"
    using G by (simp add: EnsureConnected_def pool_ok_def)
  have W: "pool_ok (mp_poolSize m) p1 \<and> net_ok (mset (pp_conns p1) + H + M) n1" if "net_ok (mset (pp_conns p) + H + M) n" for M
    using warm_loop_ok [OF p, of "H + M", OF _ w] that by (simp add: add_ac)
  have "pool_ok (mp_poolSize m) p1"
    using W [of "idle_of (AList.delete a (mp_peers m))"] idle_of_delete [OF mesh_okD(1) [OF ok] Some] mesh_okD(5) [OF ok]
    by (simp add: add_ac)
  from mesh_ok_update [OF ok Some this] W show ?thesis using res by blast
qed

lemma Close_loop_ok:
  "\<forall>(addr, p) \<in> set ps. \<not> pp_closed p \<Longrightarrow> net_ok (idle_of ps + H) n \<Longrightarrow>
   net_ok H (fold (\<lambda>(addr, pool) n. snd (PeerPool_Close pool n)) ps n)"
proof (induction ps arbitrary: n)
  case (Cons x ps)
  obtain a p where x: "x = (a, p)" by fastforce
  have "net_ok (idle_of ps + H) (snd (PeerPool_Close p n))"
    using Cons.prems x by (intro pool_Close_ok) (auto simp: add_ac)
  then show ?case using Cons x by simp
qed simp

lemma MeshPool_Close_ok:
  assumes "mesh_ok H m n" and "MeshPool_Close m n = (m', n')"
  shows "mesh_ok H m' n' \<and> mp_peers m' = [] \<and> mp_done m'"
proof -
  have "\<forall>(addr, p) \<in> set (mp_peers m). \<not> pp_closed p" using assms(1) by (fastforce simp: mesh_ok_def pool_ok_def)
  from Close_loop_ok [OF this mesh_okD(5) [OF assms(1)]] assms show ?thesis by (auto simp: MeshPool_Close_def mesh_ok_def)
qed

lemma fold_AddPeer_ok:
  "mesh_ok H m n \<Longrightarrow> mesh_ok H (fold AddPeer as m) n \<and> mp_done (fold AddPeer as m) = mp_done m \<and>
   (\<forall>b p. map_of (mp_peers m) b = Some p \<longrightarrow> map_of (mp_peers (fold AddPeer as m)) b = Some p) \<and>
   (\<not> mp_done m \<longrightarrow> [] \<notin> set as \<longrightarrow> dom (map_of (mp_peers (fold AddPeer as m))) = dom (map_of (mp_peers m)) \<union> set as)"
proof (induction as arbitrary: m)
  case (Cons a as)
  note A = AddPeer_ok [where a = a, OF Cons.prems]
  have d: "dom (map_of (mp_peers (AddPeer a m))) = insert a (dom (map_of (mp_peers m)))" if "\<not> mp_done m" "a \<noteq> []"
    using that by (auto simp: AddPeer_def)
  show ?case using Cons.IH [OF A(1)] A(3,5) d by auto
qed simp

lemma fold_RemovePeer_ok:
  "mesh_ok H m n \<Longrightarrow> fold (\<lambda>addr (m, n). RemovePeer addr m n) as (m, n) = (m', n') \<Longrightarrow>
   mesh_ok H m' n' \<and> map_of (mp_peers m') = (map_of (mp_peers m)) |` (- set as)"
proof (induction as arbitrary: m n)
  case Nil
  then show ?case by simp
next
  case (Cons a as)
  obtain m1 n1 where r: "RemovePeer a m n = (m1, n1)" by fastforce
  note R = RemovePeer_ok [OF Cons.prems(1) r]
  have "fold (\<lambda>addr (m, n). RemovePeer addr m n) as (m1, n1) = (m', n')" using Cons.prems(2) r by simp
  from Cons.IH [OF _ this] R show ?case by (auto simp: fun_eq_iff restrict_map_def)
qed

lemma ReconcilePeers_ok:
  assumes ok: "mesh_ok H m n" and r: "ReconcilePeers as self m n = (m', n')"
  shows "mesh_ok H m' n'"
    "\<not> mp_done m \<Longrightarrow> set (map fst (mp_peers m')) = set as - {[], self}"
    "b \<in> set as - {[], self} \<Longrightarrow> map_of (mp_peers m) b = Some p \<Longrightarrow> map_of (mp_peers m') b = Some p"
proof -
  let ?act = "filter (\<lambda>addr. addr \<noteq> [] \<and> addr \<noteq> self) as"
  let ?m = "fold AddPeer ?act m"
  let ?rem = "filter (\<lambda>addr. addr \<notin> set ?act) (map fst (mp_peers ?m))"
  note A = fold_AddPeer_ok [OF ok, of ?act]
  have "fold (\<lambda>addr (m, n). RemovePeer addr m n) ?rem (?m, n) = (m', n')"
    using r by (simp add: ReconcilePeers_def Let_def)
  note R = fold_RemovePeer_ok [OF _ this]
  show "mesh_ok H m' n'" using R A by blast
  have res: "map_of (mp_peers m') = (map_of (mp_peers ?m)) |` (- set ?rem)" using R A by blast
  show "\<not> mp_done m \<Longrightarrow> set (map fst (mp_peers m')) = set as - {[], self}"
  proof -
    assume "\<not> mp_done m"
    then have "dom (map_of (mp_peers ?m)) = dom (map_of (mp_peers m)) \<union> set ?act" using A by auto
    moreover have "set (map fst (mp_peers m')) = dom (map_of (mp_peers m'))" by (simp add: dom_map_of_conv_image_fst)
    moreover have "set (map fst (mp_peers ?m)) = dom (map_of (mp_peers ?m))" by (simp add: dom_map_of_conv_image_fst)
    ultimately show ?thesis using res by auto
  qed
  show "b \<in> set as - {[], self} \<Longrightarrow> map_of (mp_peers m) b = Some p \<Longrightarrow> map_of (mp_peers m') b = Some p"
    using A res by (auto simp: restrict_map_def)
qed

section \<open>Runs\<close>

datatype pool_op =
    PAdd string
  | PRemove string
  | PWarm string "nat \<Rightarrow> gerror option"
  | PGet string
  | PPut string nat
  | PDrop string nat
  | PReconcile "string list" string
  | PClose

record pool_run =
  pr_mesh :: MeshPool
  pr_net :: Net
  pr_held :: "nat list"

text \<open>A client returns or drops only what it holds.\<close>

fun pool_step :: "pool_op \<Rightarrow> pool_run \<Rightarrow> pool_run" where
  "pool_step (PAdd a) s = s\<lparr>pr_mesh := AddPeer a (pr_mesh s)\<rparr>"
| "pool_step (PRemove a) s =
     (let (m, n) = RemovePeer a (pr_mesh s) (pr_net s) in s\<lparr>pr_mesh := m, pr_net := n\<rparr>)"
| "pool_step (PWarm a ctx) s =
     (let (m, n) = mesh_warm a ctx (pr_mesh s) (pr_net s) in s\<lparr>pr_mesh := m, pr_net := n\<rparr>)"
| "pool_step (PGet a) s =
     (let (r, m, n) = mesh_GetConn a (pr_mesh s) (pr_net s)
      in s\<lparr>pr_mesh := m, pr_net := n, pr_held := (case r of Inr c \<Rightarrow> c # pr_held s | Inl err \<Rightarrow> pr_held s)\<rparr>)"
| "pool_step (PPut a c) s =
     (if c \<in> set (pr_held s) then
        let (m, n) = mesh_PutConn a c (pr_mesh s) (pr_net s)
        in s\<lparr>pr_mesh := m, pr_net := n, pr_held := remove1 c (pr_held s)\<rparr>
      else s)"
| "pool_step (PDrop a c) s =
     (if c \<in> set (pr_held s) then
        s\<lparr>pr_net := mesh_DropConn a c (pr_mesh s) (pr_net s), pr_held := remove1 c (pr_held s)\<rparr>
      else s)"
| "pool_step (PReconcile as self) s =
     (let (m, n) = ReconcilePeers as self (pr_mesh s) (pr_net s) in s\<lparr>pr_mesh := m, pr_net := n\<rparr>)"
| "pool_step PClose s =
     (let (m, n) = MeshPool_Close (pr_mesh s) (pr_net s) in s\<lparr>pr_mesh := m, pr_net := n\<rparr>)"

definition pool_start :: "int \<Rightarrow> duration \<Rightarrow> (nat \<Rightarrow> gerror option) \<Rightarrow> pool_run" where
  "pool_start poolSize dialTo fate =
     \<lparr>pr_mesh = NewMeshPool poolSize dialTo, pr_net = \<lparr>nt_fate = fate, nt_dials = 0, nt_open = []\<rparr>, pr_held = []\<rparr>"

definition run_ok :: "pool_run \<Rightarrow> bool" where
  "run_ok s \<longleftrightarrow> mesh_ok (mset (pr_held s)) (pr_mesh s) (pr_net s)"

lemma run_ok_start: "run_ok (pool_start poolSize dialTo fate)"
  by (simp add: run_ok_def mesh_ok_def net_ok_def pool_start_def NewMeshPool_def DefaultPoolSize_def)

lemma run_ok_step:
  assumes "run_ok s"
  shows "run_ok (pool_step op s)"
proof -
  have ok: "mesh_ok (mset (pr_held s)) (pr_mesh s) (pr_net s)" using assms by (simp add: run_ok_def)
  have held: "mset (pr_held s) = add_mset c (mset (remove1 c (pr_held s)))" if "c \<in> set (pr_held s)" for c
    using that by simp
  show ?thesis
  proof (cases op)
    case (PGet a)
    obtain r m n where g: "mesh_GetConn a (pr_mesh s) (pr_net s) = (r, m, n)" by (metis prod_cases3)
    show ?thesis using mesh_GetConn_ok [OF ok g] g PGet by (cases r) (simp_all add: run_ok_def)
  next
    case (PPut a c)
    then show ?thesis using mesh_PutConn_ok [of c "mset (remove1 c (pr_held s))"] ok held [of c]
      by (auto simp: run_ok_def split: prod.splits)
  next
    case (PDrop a c)
    then show ?thesis using ok held [of c] net_Close_ok [of c "idle_of (mp_peers (pr_mesh s)) + mset (remove1 c (pr_held s))"]
      by (auto simp: run_ok_def mesh_ok_def mesh_DropConn_def DropConn_def split: option.splits)
  next
    case (PAdd a)
    then show ?thesis using AddPeer_ok(1) [OF ok] by (simp add: run_ok_def)
  next
    case (PRemove a)
    obtain m n where g: "RemovePeer a (pr_mesh s) (pr_net s) = (m, n)" by fastforce
    then show ?thesis using RemovePeer_ok [OF ok g] PRemove by (simp add: run_ok_def)
  next
    case (PWarm a ctx)
    obtain m n where g: "mesh_warm a ctx (pr_mesh s) (pr_net s) = (m, n)" by fastforce
    then show ?thesis using mesh_warm_ok [OF ok g] PWarm by (simp add: run_ok_def)
  next
    case (PReconcile as self)
    obtain m n where g: "ReconcilePeers as self (pr_mesh s) (pr_net s) = (m, n)" by fastforce
    then show ?thesis using ReconcilePeers_ok(1) [OF ok g] PReconcile by (simp add: run_ok_def)
  next
    case PClose
    obtain m n where g: "MeshPool_Close (pr_mesh s) (pr_net s) = (m, n)" by fastforce
    then show ?thesis using MeshPool_Close_ok [OF ok g] PClose by (simp add: run_ok_def)
  qed
qed

lemma run_ok_run: "run_ok s \<Longrightarrow> run_ok (fold pool_step ops s)"
  by (induction ops arbitrary: s) (auto intro: run_ok_step)

lemma TotalLive_idle: "TotalLiveConnections m = size (idle_of (mp_peers m))"
proof -
  have "sum_list (map (\<lambda>(addr, pool). length (pp_conns pool)) ps) = size (idle_of ps)" for ps
    by (induction ps) auto
  then show ?thesis by (simp add: TotalLiveConnections_def)
qed

section \<open>Interleaved steps of one pool\<close>

text \<open>
  \<open>PutConn\<close> reads the closed flag under the lock and sends afterwards; \<open>Close\<close> sets the flag under
  the lock and drains afterwards, one connection at a time. Their steps on a pool and the network:
\<close>

datatype put_phase = PutStart nat | PutChecked nat | PutDone
datatype close_phase = CloseStart | CloseDraining | CloseDone

inductive put_step :: "put_phase \<times> PeerPool \<times> Net \<Rightarrow> put_phase \<times> PeerPool \<times> Net \<Rightarrow> bool" where
  put_check: "\<not> pp_closed p \<Longrightarrow> put_step (PutStart c, p, n) (PutChecked c, p, n)"
| put_closed: "pp_closed p \<Longrightarrow> put_step (PutStart c, p, n) (PutDone, p, net_Close c n)"
| put_send: "try_send c p = Some p' \<Longrightarrow> put_step (PutChecked c, p, n) (PutDone, p', n)"
| put_full: "try_send c p = None \<Longrightarrow> put_step (PutChecked c, p, n) (PutDone, p, net_Close c n)"

inductive close_step :: "close_phase \<times> PeerPool \<times> Net \<Rightarrow> close_phase \<times> PeerPool \<times> Net \<Rightarrow> bool" where
  close_again: "pp_closed p \<Longrightarrow> close_step (CloseStart, p, n) (CloseDone, p, n)"
| close_mark: "\<not> pp_closed p \<Longrightarrow> close_step (CloseStart, p, n) (CloseDraining, p\<lparr>pp_closed := True\<rparr>, n)"
| close_drain: "pp_conns p = c # cs \<Longrightarrow> close_step (CloseDraining, p, n) (CloseDraining, p\<lparr>pp_conns := cs\<rparr>, net_Close c n)"
| close_end: "pp_conns p = [] \<Longrightarrow> close_step (CloseDraining, p, n) (CloseDone, p, n)"

inductive race_step :: "put_phase \<times> close_phase \<times> PeerPool \<times> Net \<Rightarrow> put_phase \<times> close_phase \<times> PeerPool \<times> Net \<Rightarrow> bool" where
  race_put: "put_step (a, p, n) (a', p', n') \<Longrightarrow> race_step (a, b, p, n) (a', b, p', n')"
| race_close: "close_step (b, p, n) (b', p', n') \<Longrightarrow> race_step (a, b, p, n) (a, b', p', n')"

inductive_cases put_stepE: "put_step (a, p, n) y"
inductive_cases close_stepE: "close_step (b, p, n) y"
inductive_cases race_stepE: "race_step (a, b, p, n) y"

text \<open>Run alone, the steps are the atomic operations.\<close>

lemma put_finished: "put_step\<^sup>*\<^sup>* (PutDone, q, l) y \<Longrightarrow> y = (PutDone, q, l)"
  by (erule converse_rtranclpE) (auto elim: put_stepE)

lemma put_sends:
  assumes "put_step\<^sup>*\<^sup>* (PutChecked c, p, n) (PutDone, p', n')"
  shows "(p', n') = (case try_send c p of Some p1 \<Rightarrow> (p1, n) | None \<Rightarrow> (p, net_Close c n))"
  using assms
proof (cases rule: converse_rtranclpE)
  case (step z)
  from step(1) show ?thesis by (cases rule: put_step.cases) (use step(2) put_finished in fastforce)+
qed simp

lemma put_alone:
  assumes "put_step\<^sup>*\<^sup>* (PutStart c, p, n) (PutDone, p', n')"
  shows "(p', n') = PutConn c p n"
  using assms
proof (cases rule: converse_rtranclpE)
  case (step z)
  from step(1) show ?thesis
  proof (cases rule: put_step.cases)
    case put_check
    then show ?thesis using step(2) put_sends by (simp add: PutConn_def)
  next
    case put_closed
    then show ?thesis using step(2) put_finished by (fastforce simp: PutConn_def)
  qed
qed simp

text \<open>The function that \<open>GetStream\<close> returns gives the connection up and keeps the accounts.\<close>

lemma GetStream_drop_ok:
  assumes "mesh_ok H m n" and "GetStream a m n = (Inr (c, dropFunc), m', n')"
  shows "mesh_ok (add_mset c H) m' n'" "mesh_ok H m' (dropFunc m' n')"
proof -
  have g: "mesh_GetConn a m n = (Inr c, m', n')" and d: "dropFunc = mesh_DropConn a c"
    using assms(2) by (auto simp: GetStream_def split: prod.splits sum.splits)
  show ok: "mesh_ok (add_mset c H) m' n'" using mesh_GetConn_ok [OF assms(1) g] by simp
  then show "mesh_ok H m' (dropFunc m' n')"
    using net_Close_ok [of c] unfolding d by (auto simp: mesh_ok_def mesh_DropConn_def DropConn_def split: option.split)
qed

section \<open>Properties\<close>

text \<open>
  C25: no connection leaks and no pool grows beyond its size. After any sequence of pool operations
  (warm-ups, dials that fail or succeed, returns, drops, removed and reconciled peers, \<open>Close\<close>), the
  open connections are exactly the idle ones of the pools and those that clients hold, each
  once; every peer has at most the configured number of idle ones; and after \<open>Close\<close> nothing is
  idle, so that the only open connections are with clients, whose return closes them.
\<close>

theorem pool_no_leak:
  "let s = fold pool_step ops (pool_start poolSize dialTo fate) in
     length (nt_open (pr_net s)) = TotalLiveConnections (pr_mesh s) + length (pr_held s) \<and>
     distinct (nt_open (pr_net s)) \<and> set (pr_held s) \<subseteq> set (nt_open (pr_net s)) \<and>
     (\<forall>addr p. map_of (mp_peers (pr_mesh s)) addr = Some p \<longrightarrow>
        int (length (pp_conns p)) \<le> mp_poolSize (pr_mesh s) \<and> set (pp_conns p) \<subseteq> set (nt_open (pr_net s)) - set (pr_held s)) \<and>
     (mp_done (pr_mesh s) \<longrightarrow> set (nt_open (pr_net s)) = set (pr_held s))"
proof -
  define s where "s = fold pool_step ops (pool_start poolSize dialTo fate)"
  have ok: "mesh_ok (mset (pr_held s)) (pr_mesh s) (pr_net s)"
    using run_ok_run [OF run_ok_start, of ops poolSize dialTo fate] by (simp add: run_ok_def s_def)
  note D = mesh_okD [OF ok]
  have n: "distinct (nt_open (pr_net s))" "mset (nt_open (pr_net s)) = idle_of (mp_peers (pr_mesh s)) + mset (pr_held s)"
    using D(5) by (auto simp: net_ok_def)
  obtain idle where i: "mset idle = idle_of (mp_peers (pr_mesh s))" using ex_mset by blast
  have eq: "mset (nt_open (pr_net s)) = mset (idle @ pr_held s)" using n(2) i by simp
  have dis: "distinct (idle @ pr_held s)" and set: "set (nt_open (pr_net s)) = set (idle @ pr_held s)"
    using mset_eq_imp_distinct_iff [OF eq] mset_eq_setD [OF eq] n(1) by auto
  have len: "length (nt_open (pr_net s)) = TotalLiveConnections (pr_mesh s) + length (pr_held s)"
    using arg_cong [OF n(2), of size] by (simp add: TotalLive_idle)
  have pools: "int (length (pp_conns p)) \<le> mp_poolSize (pr_mesh s) \<and> set (pp_conns p) \<subseteq> set (nt_open (pr_net s)) - set (pr_held s)"
    if p: "map_of (mp_peers (pr_mesh s)) addr = Some p" for addr p
  proof -
    have "set_mset (mset (pp_conns p)) \<subseteq> set_mset (mset idle)"
      using idle_of_delete [OF D(1) p] i by (metis mset_subset_eq_add_right set_mset_mono)
    then show ?thesis using D(3) [OF p] dis set by (auto simp: pool_ok_def)
  qed
  have "mp_done (pr_mesh s) \<Longrightarrow> idle = []" using D(4) i by simp
  with len n(1) pools set show ?thesis unfolding s_def [symmetric] by (auto simp: Let_def)
qed

text \<open>Two dials to peer a, one connection returned, the other held, then \<open>Close\<close>.\<close>

theorem pool_no_leak_witness:
  "let s = fold pool_step [PGet ''a'', PGet ''a'', PPut ''a'' 0, PClose] (pool_start 4 0 (\<lambda>_. None)) in
     mp_done (pr_mesh s) \<and> set (nt_open (pr_net s)) = {1}"
proof -
  have "mp_done (pr_mesh (fold pool_step [PGet ''a'', PGet ''a'', PPut ''a'' 0, PClose] (pool_start 4 0 (\<lambda>_. None)))) \<and>
      pr_held (fold pool_step [PGet ''a'', PGet ''a'', PPut ''a'' 0, PClose] (pool_start 4 0 (\<lambda>_. None))) = [1]"
    by code_simp
  then show ?thesis
    using pool_no_leak [of "[PGet ''a'', PGet ''a'', PPut ''a'' 0, PClose]" 4 0 "\<lambda>_. None"] by (simp add: Let_def)
qed

text \<open>
  Reconciling the pools with the membership. \<open>ReconcilePeers\<close> on open pools leaves a pool for
  exactly the listed addresses other than the own and the empty one; the pools of peers that stay
  keep their connections.
\<close>

theorem pool_reconcile_exact:
  "let s = fold pool_step ops (pool_start poolSize dialTo fate);
       s' = pool_step (PReconcile addrs self) s
   in mp_done (pr_mesh s) \<or>
      set (map fst (mp_peers (pr_mesh s'))) = set addrs - {[], self} \<and> PeerCount (pr_mesh s') = card (set addrs - {[], self}) \<and>
      (\<forall>b p. b \<in> set addrs - {[], self} \<and> map_of (mp_peers (pr_mesh s)) b = Some p \<longrightarrow> map_of (mp_peers (pr_mesh s')) b = Some p)"
proof -
  define s where "s = fold pool_step ops (pool_start poolSize dialTo fate)"
  have ok: "mesh_ok (mset (pr_held s)) (pr_mesh s) (pr_net s)"
    using run_ok_run [OF run_ok_start, of ops poolSize dialTo fate] by (simp add: run_ok_def s_def)
  obtain m n where r: "ReconcilePeers addrs self (pr_mesh s) (pr_net s) = (m, n)" by fastforce
  note R = ReconcilePeers_ok [OF ok r]
  have "PeerCount m = card (set (map fst (mp_peers m)))"
    using mesh_okD(1) [OF R(1)] by (metis PeerCount_def distinct_card length_map)
  then show ?thesis unfolding s_def [symmetric] using R(2,3) r
    by (cases "mp_done (pr_mesh s)") (simp_all add: Let_def)
qed

theorem pool_reconcile_exact_witness:
  "let s' = fold pool_step [PGet ''a'', PReconcile [''a'', ''b'', ''c'', []] ''c''] (pool_start 4 0 (\<lambda>_. None)) in
   set (map fst (mp_peers (pr_mesh s'))) = {''a'', ''b''}"
proof -
  have "\<not> mp_done (pr_mesh (fold pool_step [PGet ''a''] (pool_start 4 0 (\<lambda>_. None))))" by code_simp
  then show ?thesis
    using pool_reconcile_exact [of "[PGet ''a'']" 4 0 "\<lambda>_. None" "[''a'', ''b'', ''c'', []]" "''c''"]
    by (auto simp: Let_def)
qed

text \<open>
  C26: the race between \<open>PutConn\<close> and \<open>Close\<close> leaks a connection. If a client's \<open>PutConn\<close> has read the
  closed flag before \<open>Close\<close> sets it, and sends after \<open>Close\<close> has drained the pool, both calls end with
  the connection open inside a closed pool that nobody drains again, while the same calls one
  after the other, in either order, close it.
\<close>

theorem pool_close_race_leaks:
  "let p = NewPeerPool \<lparr>pc_TargetAddr = ''a'', pc_PoolSize = 4, pc_DialTimeout = 0\<rparr>;
       n = \<lparr>nt_fate = (\<lambda>_. None), nt_dials = 1, nt_open = [0]\<rparr>
   in (\<exists>p'. race_step\<^sup>*\<^sup>* (PutStart 0, CloseStart, p, n) (PutDone, CloseDone, p', n) \<and> pp_closed p' \<and> pp_conns p' = [0]) \<and>
      nt_open (snd (case PutConn 0 p n of (p1, n1) \<Rightarrow> PeerPool_Close p1 n1)) = [] \<and>
      nt_open (snd (case PeerPool_Close p n of (p1, n1) \<Rightarrow> PutConn 0 p1 n1)) = []"
proof -
  let ?p = "NewPeerPool \<lparr>pc_TargetAddr = ''a'', pc_PoolSize = 4, pc_DialTimeout = 0\<rparr>"
    and ?n = "\<lparr>nt_fate = (\<lambda>_. None), nt_dials = 1, nt_open = [0]\<rparr>"
  let ?c = "?p\<lparr>pp_closed := True\<rparr>"
  have p: "\<not> pp_closed ?p" "pp_conns ?p = []" "try_send 0 ?c = Some (?c\<lparr>pp_conns := [0]\<rparr>)"
    by (simp_all add: NewPeerPool_def try_send_def)
  have "race_step (PutStart 0, CloseStart, ?p, ?n) (PutChecked 0, CloseStart, ?p, ?n)"
    by (rule race_put, rule put_check) (rule p)
  moreover have "race_step (PutChecked 0, CloseStart, ?p, ?n) (PutChecked 0, CloseDraining, ?c, ?n)"
    by (rule race_close, rule close_mark) (rule p)
  moreover have "race_step (PutChecked 0, CloseDraining, ?c, ?n) (PutChecked 0, CloseDone, ?c, ?n)"
    by (rule race_close, rule close_end) (simp add: p)
  moreover have "race_step (PutChecked 0, CloseDone, ?c, ?n) (PutDone, CloseDone, ?c\<lparr>pp_conns := [0]\<rparr>, ?n)"
    by (rule race_put, rule put_send) (rule p)
  ultimately have "race_step\<^sup>*\<^sup>* (PutStart 0, CloseStart, ?p, ?n) (PutDone, CloseDone, ?c\<lparr>pp_conns := [0]\<rparr>, ?n)"
    by (meson converse_rtranclp_into_rtranclp rtranclp.rtrancl_refl)
  moreover have "nt_open (snd (case PutConn 0 ?p ?n of (p1, n1) \<Rightarrow> PeerPool_Close p1 n1)) = []"
    "nt_open (snd (case PeerPool_Close ?p ?n of (p1, n1) \<Rightarrow> PutConn 0 p1 n1)) = []"
    by (simp_all add: PutConn_def PeerPool_Close_def NewPeerPool_def try_send_def net_Close_def)
  ultimately show ?thesis unfolding Let_def by (intro conjI exI [of _ "?c\<lparr>pp_conns := [0]\<rparr>"]) simp_all
qed

end
