(* ===== verification/Encoding.thy ===== *)
theory Encoding
  imports Database
begin

text \<open>
  pkg/encoding/codec.go: the JSON and the raw codec. A document or destination of Go's type \<open>any\<close> is
  one of the three byte-like types that both codecs pass through, or anything else, for which the
  JSON codec calls encoding/json; what that does to arbitrary Go values is a parameter (\<open>json\<close>), and
  so is the printed name of their type.
\<close>

section \<open>Definitions\<close>

datatype 'a goval = VBytes bytes | VRawMessage bytes | VString string | VOther 'a

datatype 'd godest = DestBytes | DestRawMessage | DestString | DestOther 'd

record ('a, 'd) json =
  js_Marshal :: "'a \<Rightarrow> gerror + bytes"
  js_Unmarshal :: "'d \<Rightarrow> bytes \<Rightarrow> gerror + 'a"

definition JSONCodec_Name :: string where
  "JSONCodec_Name = ''json''"

fun JSONCodec_Marshal :: "('a, 'd) json \<Rightarrow> 'a goval \<Rightarrow> gerror + bytes" where
  "JSONCodec_Marshal js (VBytes b) = Inr b"
| "JSONCodec_Marshal js (VRawMessage rm) = Inr rm"
| "JSONCodec_Marshal js (VString s) = Inr (bytes_of_string s)"
| "JSONCodec_Marshal js (VOther v) = js_Marshal js v"

fun JSONCodec_Unmarshal :: "('a, 'd) json \<Rightarrow> bytes \<Rightarrow> 'd godest \<Rightarrow> gerror + 'a goval" where
  "JSONCodec_Unmarshal js data DestBytes = Inr (VBytes data)"
| "JSONCodec_Unmarshal js data DestRawMessage = Inr (VRawMessage data)"
| "JSONCodec_Unmarshal js data DestString = Inr (VString (string_of_bytes data))"
| "JSONCodec_Unmarshal js data (DestOther t) =
     (case js_Unmarshal js t data of Inl err \<Rightarrow> Inl err | Inr v \<Rightarrow> Inr (VOther v))"

definition RawCodec_Name :: string where
  "RawCodec_Name = ''raw''"

fun RawCodec_Marshal :: "('a \<Rightarrow> string) \<Rightarrow> 'a goval \<Rightarrow> gerror + bytes" where
  "RawCodec_Marshal tn (VBytes b) = Inr b"
| "RawCodec_Marshal tn (VRawMessage rm) = Inr rm"
| "RawCodec_Marshal tn (VString s) = Inr (bytes_of_string s)"
| "RawCodec_Marshal tn (VOther v) = Inl (ErrorMsg (''raw codec requires []byte, json.RawMessage, or string, got '' @ tn v))"

fun RawCodec_Unmarshal :: "('d \<Rightarrow> string) \<Rightarrow> bytes \<Rightarrow> 'd godest \<Rightarrow> gerror + 'a goval" where
  "RawCodec_Unmarshal tn data DestBytes = Inr (VBytes data)"
| "RawCodec_Unmarshal tn data DestRawMessage = Inr (VRawMessage data)"
| "RawCodec_Unmarshal tn data DestString = Inr (VString (string_of_bytes data))"
| "RawCodec_Unmarshal tn data (DestOther t) =
     Inl (ErrorMsg (''raw codec requires *[]byte, *json.RawMessage, or *string, got '' @ tn t))"

text \<open>The codecs as the database sees them, for calls with destinations of one type.\<close>

definition NewJSONCodec :: "('a, 'd) json \<Rightarrow> 'd godest \<Rightarrow> 'a goval Codec" where
  "NewJSONCodec js dest = \<lparr>cd_Marshal = JSONCodec_Marshal js, cd_Unmarshal = (\<lambda>data. JSONCodec_Unmarshal js data dest)\<rparr>"

definition NewRawCodec :: "('a \<Rightarrow> string) \<Rightarrow> ('d \<Rightarrow> string) \<Rightarrow> 'd godest \<Rightarrow> 'a goval Codec" where
  "NewRawCodec tn tn' dest = \<lparr>cd_Marshal = RawCodec_Marshal tn, cd_Unmarshal = (\<lambda>data. RawCodec_Unmarshal tn' data dest)\<rparr>"

section \<open>Round trip\<close>

text \<open>The destination type that takes a value back, if it is byte-like.\<close>

fun same_kind :: "'a goval \<Rightarrow> 'd godest \<Rightarrow> bool" where
  "same_kind (VBytes b) DestBytes = True"
| "same_kind (VRawMessage b) DestRawMessage = True"
| "same_kind (VString s) DestString = True"
| "same_kind v d = False"

text \<open>
  Byte-like documents pass through both codecs unchanged, without a look at encoding/json, and are
  decoded into a destination of their type as the same document.
\<close>

lemma codec_bytes_roundtrip:
  assumes "same_kind v dest"
  shows "\<exists>w. cd_Marshal (NewJSONCodec js dest) v = Inr w \<and> cd_Unmarshal (NewJSONCodec js dest) w = Inr v \<and>
    cd_Marshal (NewRawCodec tn tn' dest) v = Inr w \<and> cd_Unmarshal (NewRawCodec tn tn' dest) w = Inr v"
  using assms by (cases v; cases dest) (simp_all add: NewJSONCodec_def NewRawCodec_def)

lemma raw_codec_refuses:
  "\<exists>err. cd_Marshal (NewRawCodec tn tn' dest) (VOther v) = Inl err"
  "\<exists>err. cd_Unmarshal (NewRawCodec tn tn' (DestOther t)) w = Inl err"
  by (simp_all add: NewRawCodec_def)

end
