(* ===== verification/Server.thy ===== *)
theory Server
  imports Encoding Cluster
begin

text \<open>
  pkg/server/server.go: the HTTP front end. A request is its method, path, body, the two conditional
  headers and the number in the \<open>limit\<close> query argument (0 when it is absent or malformed); a
  response is its status, content type, ETag header and body. Documents are byte slices, so the
  codec of the database passes them through. The JSON texts of metadata and listings, the metrics
  page, the clock and the forwarding call are parameters; request metrics are left out. The
  state is that of the database; None means that the database call does not return.
\<close>

section \<open>Definitions\<close>

record HttpReq =
  hq_method :: string
  hq_path :: string
  hq_body :: bytes
  hq_ifMatch :: string
  hq_ifNoneMatch :: string
  hq_limit :: int

record HttpResp =
  hs_status :: int
  hs_ctype :: string
  hs_etag :: "string option"
  hs_body :: bytes

record ('s, 'a) Server =
  sv_db :: "('s, 'a goval) dbenv"
  sv_cluster :: "(Ring \<times> string) option"
  sv_exec :: "string \<Rightarrow> InterQueryReq \<Rightarrow> 's \<Rightarrow> (gerror + InterQueryResp) \<times> 's"
  sv_metaJSON :: "Meta \<Rightarrow> bytes"
  sv_itemsJSON :: "Meta list \<Rightarrow> bytes"
  sv_metricsPage :: HttpResp

text \<open>\<open>NewServer\<close>: the ring and the node it forwards with, from the options or from the database.\<close>

record 'h ServerOptions =
  so_DB :: bool
  so_Ring :: "Ring option"
  so_NodeAddr :: string
  so_ClusterNode :: "'h Node option"

definition NewServer :: "'h ServerOptions \<Rightarrow> 'h Node option \<Rightarrow> gerror + (Ring option \<times> string \<times> 'h Node option)" where
  "NewServer opts dbNode =
     (if \<not> so_DB opts then Inl (ErrorMsg ''server: embedded DB instance is required'')
      else
        let clusterNode = (case so_ClusterNode opts of None \<Rightarrow> dbNode | Some n \<Rightarrow> Some n);
            ring = (case so_Ring opts of None \<Rightarrow> map_option nd_ring clusterNode | Some r \<Rightarrow> Some r);
            nodeAddr = (case clusterNode of
                Some n \<Rightarrow> if so_NodeAddr opts = [] then SelfMeshAddr n else so_NodeAddr opts
              | None \<Rightarrow> so_NodeAddr opts)
        in Inr (ring, nodeAddr, clusterNode))"

definition ctx_Error :: "string \<Rightarrow> int \<Rightarrow> HttpResp" where
  "ctx_Error msg code =
     \<lparr>hs_status = code, hs_ctype = ''text/plain; charset=utf-8'', hs_etag = None, hs_body = bytes_of_string msg\<rparr>"

definition json_ok :: "string \<Rightarrow> bytes \<Rightarrow> HttpResp" where
  "json_ok etag body = \<lparr>hs_status = 200, hs_ctype = ''application/json'', hs_etag = Some etag, hs_body = body\<rparr>"

definition no_content :: HttpResp where
  "no_content = \<lparr>hs_status = 204, hs_ctype = ''text/plain; charset=utf-8'', hs_etag = None, hs_body = []\<rparr>"

definition maxBodySize :: int where
  "maxBodySize = 10 * 1024 * 1024"

definition body_error :: "bytes \<Rightarrow> HttpResp option" where
  "body_error body =
     (if length body = 0 then Some (ctx_Error ''request body is required'' 400)
      else if int (length body) > maxBodySize then Some (ctx_Error ''request body too large (max 10MB)'' 413)
      else None)"

text \<open>The destination is a byte slice, so what comes back is one.\<close>

fun raw_bytes :: "'a goval option \<Rightarrow> bytes" where
  "raw_bytes (Some (VBytes b)) = b"
| "raw_bytes v = []"

definition handleGet ::
  "('s, 'a) Server \<Rightarrow> (nat \<Rightarrow> gotime) \<Rightarrow> string \<Rightarrow> 's database \<Rightarrow> (HttpResp \<times> 's database) option" where
  "handleGet sv clk key d =
     (case db_Get (sv_db sv) clk key True d of
        None \<Rightarrow> None
      | Some (Inl err, d1) \<Rightarrow>
          Some (if err = ErrNotFound then ctx_Error ''document not found'' 404 else ctx_Error (Error err) 500, d1)
      | Some (Inr (meta, rawData), d1) \<Rightarrow> Some (json_ok (mt_ETag meta) (raw_bytes rawData), d1))"

definition handlePut ::
  "('s, 'a) Server \<Rightarrow> (nat \<Rightarrow> gotime) \<Rightarrow> HttpReq \<Rightarrow> string \<Rightarrow> 's database \<Rightarrow> (HttpResp \<times> 's database) option" where
  "handlePut sv clk req key d =
     (case body_error (hq_body req) of
        Some e \<Rightarrow> Some (e, d)
      | None \<Rightarrow>
          let putOpts = (if hq_ifNoneMatch req = ''*'' then [CreateOnly]
                         else if hq_ifMatch req \<noteq> [] then [WithExpectedETag (hq_ifMatch req)] else [])
          in case db_Put (sv_db sv) clk key (VBytes (hq_body req)) putOpts d of
               None \<Rightarrow> None
             | Some (Inl err, d1) \<Rightarrow>
                 Some (if err = ErrVersionMismatch \<or> err = ErrAlreadyExists
                       then ctx_Error (''CAS precondition failed: '' @ Error err) 412
                       else ctx_Error (Error err) 500, d1)
             | Some (Inr meta, d1) \<Rightarrow> Some (json_ok (mt_ETag meta) (sv_metaJSON sv meta), d1))"

definition handleDelete :: "('s, 'a) Server \<Rightarrow> HttpReq \<Rightarrow> string \<Rightarrow> 's database \<Rightarrow> HttpResp \<times> 's database" where
  "handleDelete sv req key d =
     (let delOpts = (if hq_ifMatch req \<noteq> [] then [WithDeleteExpectedETag (hq_ifMatch req)] else [])
      in case db_Delete (sv_db sv) key delOpts d of
           (Some err, d1) \<Rightarrow>
             (if err = ErrNotFound then ctx_Error ''document not found'' 404
              else if err = ErrVersionMismatch then ctx_Error ''CAS precondition failed'' 412
              else ctx_Error (Error err) 500, d1)
         | (None, d1) \<Rightarrow> (no_content, d1))"

definition maxListLimit :: int where
  "maxListLimit = 10000"

definition handleList ::
  "('s, 'a) Server \<Rightarrow> (nat \<Rightarrow> nat \<Rightarrow> gotime) \<Rightarrow> HttpReq \<Rightarrow> string \<Rightarrow> 's database \<Rightarrow> (HttpResp \<times> 's database) option" where
  "handleList sv clk req prefx d =
     (let limit = (if hq_limit req = 0 then 100 else hq_limit req);
          limit = (if limit > maxListLimit then maxListLimit else limit)
      in case db_List (sv_db sv) clk prefx limit d of
           None \<Rightarrow> None
         | Some (Inl err, d1) \<Rightarrow> Some (ctx_Error (Error err) 500, d1)
         | Some (Inr items, d1) \<Rightarrow>
             Some (\<lparr>hs_status = 200, hs_ctype = ''application/json'', hs_etag = None, hs_body = sv_itemsJSON sv items\<rparr>, d1))"

definition mesh_error :: "gerror \<Rightarrow> HttpResp" where
  "mesh_error err = ctx_Error (''mesh forward error: '' @ Error err) 502"

definition forwardGetViaMesh :: "('s, 'a) Server \<Rightarrow> string \<Rightarrow> string \<Rightarrow> 's \<Rightarrow> HttpResp \<times> 's" where
  "forwardGetViaMesh sv targetNode key s =
     (case sv_exec sv targetNode
        \<lparr>rqNamespace = [], rqOp = Mesh.OpGet, rqKey = key, rqValue = [], rqExpectedETag = [], rqTS = 0, rqAuth = []\<rparr> s of
        (Inl err, s1) \<Rightarrow> (mesh_error err, s1)
      | (Inr resp, s1) \<Rightarrow>
          (if rpErr resp \<noteq> [] then
             (if rpErr resp = Error ErrNotFound then ctx_Error ''document not found'' 404 else ctx_Error (rpErr resp) 500)
           else (case rpObject resp of
               None \<Rightarrow> ctx_Error ''document not found'' 404
             | Some obj \<Rightarrow> json_ok (oETag obj) (oValue obj)), s1))"

definition put_expected :: "HttpReq \<Rightarrow> string" where
  "put_expected req = (if hq_ifNoneMatch req = ''*'' then MatchAnyETag else hq_ifMatch req)"

definition forwardPutViaMesh :: "('s, 'a) Server \<Rightarrow> HttpReq \<Rightarrow> string \<Rightarrow> string \<Rightarrow> 's \<Rightarrow> HttpResp \<times> 's" where
  "forwardPutViaMesh sv req targetNode key s =
     (case body_error (hq_body req) of
        Some e \<Rightarrow> (e, s)
      | None \<Rightarrow>
          (case sv_exec sv targetNode
             \<lparr>rqNamespace = [], rqOp = Mesh.OpPut, rqKey = key, rqValue = hq_body req, rqExpectedETag = put_expected req,
              rqTS = 0, rqAuth = []\<rparr> s of
             (Inl err, s1) \<Rightarrow> (mesh_error err, s1)
           | (Inr resp, s1) \<Rightarrow>
               (if rpErr resp \<noteq> [] then
                  (if rpErr resp = Error ErrVersionMismatch \<or> rpErr resp = Error ErrAlreadyExists
                   then ctx_Error (''CAS precondition failed: '' @ rpErr resp) 412 else ctx_Error (rpErr resp) 500)
                else (case rpObject resp of
                    None \<Rightarrow> ctx_Error ''put returned no object'' 500
                  | Some obj \<Rightarrow> json_ok (oETag obj) (sv_metaJSON sv (meta_of obj))), s1)))"

definition forwardDeleteViaMesh :: "('s, 'a) Server \<Rightarrow> HttpReq \<Rightarrow> string \<Rightarrow> string \<Rightarrow> 's \<Rightarrow> HttpResp \<times> 's" where
  "forwardDeleteViaMesh sv req targetNode key s =
     (case sv_exec sv targetNode
        \<lparr>rqNamespace = [], rqOp = Mesh.OpDelete, rqKey = key, rqValue = [], rqExpectedETag = hq_ifMatch req,
         rqTS = 0, rqAuth = []\<rparr> s of
        (Inl err, s1) \<Rightarrow> (mesh_error err, s1)
      | (Inr resp, s1) \<Rightarrow>
          (if rpErr resp \<noteq> [] then
             (if rpErr resp = Error ErrNotFound then ctx_Error ''document not found'' 404
              else if rpErr resp = Error ErrVersionMismatch then ctx_Error ''CAS precondition failed'' 412
              else ctx_Error (rpErr resp) 500)
           else no_content, s1))"

definition forwardViaMesh :: "('s, 'a) Server \<Rightarrow> HttpReq \<Rightarrow> string \<Rightarrow> string \<Rightarrow> 's \<Rightarrow> HttpResp \<times> 's" where
  "forwardViaMesh sv req targetNode key s =
     (if hq_method req = ''GET'' then forwardGetViaMesh sv targetNode key s
      else if hq_method req = ''PUT'' then forwardPutViaMesh sv req targetNode key s
      else if hq_method req = ''DELETE'' then forwardDeleteViaMesh sv req targetNode key s
      else (ctx_Error ''method not allowed'' 405, s))"

text \<open>
  The key checks. The source looks at the runes of the key; a rune below 32 or equal to 127 is
  a byte of the key, as bytes from 128 on are never part of such a rune.
\<close>

definition key_error :: "string \<Rightarrow> HttpResp option" where
  "key_error key =
     (if key = [] then Some (ctx_Error ''key path is required'' 400)
      else if length key > 1024 then Some (ctx_Error ''key path too long (max 1024 bytes)'' 400)
      else if list_ex (\<lambda>ch. (of_char ch :: nat) < 32 \<or> (of_char ch :: nat) = 127) key
        then Some (ctx_Error ''key contains invalid characters'' 400)
      else None)"

definition serve_key ::
  "('s, 'a) Server \<Rightarrow> (nat \<Rightarrow> gotime) \<Rightarrow> HttpReq \<Rightarrow> string \<Rightarrow> 's database \<Rightarrow> (HttpResp \<times> 's database) option" where
  "serve_key sv clk req key d =
     (if hq_method req = ''GET'' then handleGet sv clk key d
      else if hq_method req = ''PUT'' then handlePut sv clk req key d
      else if hq_method req = ''DELETE'' then Some (handleDelete sv req key d)
      else Some (ctx_Error ''method not allowed'' 405, d))"

definition HandleRequest ::
  "('s, 'a) Server \<Rightarrow> (nat \<Rightarrow> nat \<Rightarrow> gotime) \<Rightarrow> HttpReq \<Rightarrow> 's database \<Rightarrow> (HttpResp \<times> 's database) option" where
  "HandleRequest sv clk req d =
     (let path = hq_path req in
      if path = ''/metrics'' then Some (sv_metricsPage sv, d)
      else if path = ''/v1/health'' then
        Some (\<lparr>hs_status = 200, hs_ctype = ''application/json'', hs_etag = None,
               hs_body = bytes_of_string ([CHR ''{'', CHR 0x22] @ ''status'' @ [CHR 0x22, CHR '':'', CHR 0x22] @ ''ok'' @ [CHR 0x22, CHR ''}''])\<rparr>, d)
      else if HasPrefix path ''/v1/kv/'' then
        let key = TrimPrefix path ''/v1/kv/'' in
        case key_error key of
          Some e \<Rightarrow> Some (e, d)
        | None \<Rightarrow>
            (case sv_cluster sv of
               None \<Rightarrow> serve_key sv (clk 0) req key d
             | Some (ring, selfAddr) \<Rightarrow>
                 let targetNode = GetNode ring key in
                 if targetNode \<noteq> [] \<and> targetNode \<noteq> selfAddr then
                   let (resp, s) = forwardViaMesh sv req targetNode key (d_store d) in Some (resp, d\<lparr>d_store := s\<rparr>)
                 else serve_key sv (clk 0) req key d)
      else if HasPrefix path ''/v1/list/'' then handleList sv clk req (TrimPrefix path ''/v1/list/'') d
      else Some (ctx_Error ''not found'' 404, d))"

definition getPathPrefix :: "string \<Rightarrow> string" where
  "getPathPrefix path =
     (if path = ''/metrics'' then ''/metrics''
      else if path = ''/v1/health'' then ''/v1/health''
      else if HasPrefix path ''/v1/kv/'' then ''/v1/kv''
      else if HasPrefix path ''/v1/list/'' then ''/v1/list''
      else ''unknown'')"

text \<open>
  The listener of a server, if it has one: \<open>listen\<close> is \<open>net.Listen\<close>, \<open>serve_on\<close> the error of \<open>fasthttp.Serve\<close>
  when it returns, \<open>close\<close> that of closing the listener.
\<close>

definition ListenAndServe ::
  "(string \<Rightarrow> gerror + 'l) \<Rightarrow> ('l \<Rightarrow> gerror option) \<Rightarrow> string \<Rightarrow> 'l option \<Rightarrow> gerror option \<times> 'l option" where
  "ListenAndServe listen serve_on addr listener =
     (case listen addr of
        Inl err \<Rightarrow> (Some err, listener)
      | Inr ln \<Rightarrow> (serve_on ln, Some ln))"

definition server_Close :: "('l \<Rightarrow> gerror option) \<Rightarrow> 'l option \<Rightarrow> gerror option" where
  "server_Close close listener = (case listener of Some ln \<Rightarrow> close ln | None \<Rightarrow> None)"

section \<open>Requests for keys of this node\<close>

text \<open>Codecs that hand byte slices through, as both codecs of the repository do.\<close>

definition bytes_through :: "'a goval Codec \<Rightarrow> bool" where
  "bytes_through codec \<longleftrightarrow> (\<forall>b. cd_Marshal codec (VBytes b) = Inr b \<and> cd_Unmarshal codec b = Inr (VBytes b))"

lemma bytes_through_codecs: "bytes_through (NewJSONCodec js DestBytes)" "bytes_through (NewRawCodec tn tn' DestBytes)"
  by (simp_all add: bytes_through_def NewJSONCodec_def NewRawCodec_def)

definition served_here :: "('s, 'a) Server \<Rightarrow> string \<Rightarrow> bool" where
  "served_here sv key \<longleftrightarrow> route (sv_db sv) key = None \<and>
     (case sv_cluster sv of None \<Rightarrow> True | Some (ring, self) \<Rightarrow> GetNode ring key = [] \<or> GetNode ring key = self)"

definition kv_path :: "string \<Rightarrow> string" where
  "kv_path key = ''/v1/kv/'' @ key"

lemma HandleRequest_here:
  "served_here sv key \<Longrightarrow> hq_path req = kv_path key \<Longrightarrow> key_error key = None \<Longrightarrow>
   HandleRequest sv clk req d = serve_key sv (clk 0) req key d"
  using TrimPrefix_append [of "''/v1/kv/''" key] HasPrefix_append [of "''/v1/kv/''" key]
  by (auto simp: HandleRequest_def Let_def kv_path_def served_here_def split: option.splits)

lemma put_expected_options:
  "po_ExpectedETag (put_options (if hq_ifNoneMatch req = ''*'' then [CreateOnly]
     else if hq_ifMatch req \<noteq> [] then [WithExpectedETag (hq_ifMatch req)] else [])) = put_expected req"
  by (simp add: put_options_def put_expected_def CreateOnly_def WithExpectedETag_def)

lemma delete_expected_options:
  "del_ExpectedETag (delete_options (if hq_ifMatch req \<noteq> [] then [WithDeleteExpectedETag (hq_ifMatch req)] else [])) = hq_ifMatch req"
  by (simp add: delete_options_def WithDeleteExpectedETag_def)

text \<open>The responses to a failed write and to a failed delete.\<close>

definition put_failure :: "gerror \<Rightarrow> HttpResp" where
  "put_failure err = (if err = ErrVersionMismatch \<or> err = ErrAlreadyExists
     then ctx_Error (''CAS precondition failed: '' @ Error err) 412 else ctx_Error (Error err) 500)"

definition delete_failure :: "gerror \<Rightarrow> HttpResp" where
  "delete_failure err = (if err = ErrNotFound then ctx_Error ''document not found'' 404
     else if err = ErrVersionMismatch then ctx_Error ''CAS precondition failed'' 412 else ctx_Error (Error err) 500)"

text \<open>The forwarding call as the owner's handler answers it.\<close>

definition owner_exec ::
  "('s, 'a) Server \<Rightarrow> (nat \<Rightarrow> gotime) \<Rightarrow> 's database \<Rightarrow> InterQueryReq \<Rightarrow> (gerror + InterQueryResp) \<times> 's" where
  "owner_exec so clk db req =
     (let (resp, db') = dispatch (raw_handler (sv_db so) clk) req db in (Inr resp, d_store db'))"

context db_driver
begin

lemma handleGet_spec:
  assumes inv: "db_inv i db" and env: "e_driver (sv_db sv) = d" "e_mgr (sv_db sv) = i" and rt: "route (sv_db sv) key = None"
    and c: "bytes_through (e_codec (sv_db sv))"
  shows "\<exists>db'. handleGet sv clk key db =
      Some (case stored (d_store db) key of None \<Rightarrow> ctx_Error ''document not found'' 404 | Some (v, e) \<Rightarrow> json_ok e v, db') \<and>
    db_inv i db' \<and> stored (d_store db') = stored (d_store db)"
proof -
  obtain r db' where G: "db_Get (sv_db sv) clk key True db = Some (r, db')" "db_inv i db'"
    "stored (d_store db') = stored (d_store db)"
    "case stored (d_store db) key of None \<Rightarrow> r = Inl ErrNotFound
     | Some dc \<Rightarrow> \<exists>obj. doc_of obj = dc \<and> r = decode_doc (e_codec (sv_db sv)) True obj"
    using Get_spec [OF inv env rt, of clk True] by blast
  show ?thesis
  proof (cases "stored (d_store db) key")
    case None
    then show ?thesis using G by (simp add: handleGet_def)
  next
    case (Some dc)
    then obtain obj where "doc_of obj = dc" "r = decode_doc (e_codec (sv_db sv)) True obj" using G(4) by auto
    then show ?thesis using G(1-3) c Some
      by (auto simp: handleGet_def decode_doc_def bytes_through_def meta_of_def doc_of_def)
  qed
qed

lemma handlePut_spec:
  assumes inv: "db_inv i db" and env: "e_driver (sv_db sv) = d" "e_mgr (sv_db sv) = i" and rt: "route (sv_db sv) key = None"
    and c: "bytes_through (e_codec (sv_db sv))" and b: "body_error (hq_body req) = None"
  shows "\<exists>resp db'. handlePut sv clk req key db = Some (resp, db') \<and> db_inv i db' \<and>
    (case put_precondition (put_expected req) (stored (d_store db) key) of
       Some err \<Rightarrow> resp = put_failure err \<and> stored (d_store db') = stored (d_store db)
     | None \<Rightarrow> \<exists>m. mt_Key m = key \<and> resp = json_ok (mt_ETag m) (sv_metaJSON sv m) \<and>
         stored (d_store db') = (stored (d_store db))(key \<mapsto> (hq_body req, mt_ETag m)))"
proof -
  let ?opts = "if hq_ifNoneMatch req = ''*'' then [CreateOnly]
     else if hq_ifMatch req \<noteq> [] then [WithExpectedETag (hq_ifMatch req)] else []"
  have m: "cd_Marshal (e_codec (sv_db sv)) (VBytes (hq_body req)) = Inr (hq_body req)" using c by (simp add: bytes_through_def)
  obtain r db' where P: "db_Put (sv_db sv) clk key (VBytes (hq_body req)) ?opts db = Some (r, db')" "db_inv i db'"
    "case put_precondition (put_expected req) (stored (d_store db) key) of
       Some err \<Rightarrow> r = Inl err \<and> stored (d_store db') = stored (d_store db)
     | None \<Rightarrow> \<exists>m. r = Inr m \<and> mt_Key m = key \<and>
         stored (d_store db') = (stored (d_store db))(key \<mapsto> (hq_body req, mt_ETag m))"
    using Put_spec [OF inv env rt, of clk "VBytes (hq_body req)" ?opts] unfolding put_expected_options m by auto
  show ?thesis
  proof (cases "put_precondition (put_expected req) (stored (d_store db) key)")
    case None
    then obtain m where "r = Inr m" "mt_Key m = key"
      "stored (d_store db') = (stored (d_store db))(key \<mapsto> (hq_body req, mt_ETag m))" using P(3) by auto
    then show ?thesis using P(1,2) b None by (auto simp: handlePut_def Let_def simp del: if_split_asm)
  next
    case (Some err)
    then have "r = Inl err" "stored (d_store db') = stored (d_store db)" using P(3) by auto
    then show ?thesis using P(1,2) b Some by (simp add: handlePut_def Let_def put_failure_def)
  qed
qed

lemma handleDelete_spec:
  assumes inv: "db_inv i db" and env: "e_driver (sv_db sv) = d" "e_mgr (sv_db sv) = i" and rt: "route (sv_db sv) key = None"
  shows "\<exists>db'. handleDelete sv req key db =
      (case delete_precondition (hq_ifMatch req) (stored (d_store db) key) of
         None \<Rightarrow> no_content | Some err \<Rightarrow> delete_failure err, db') \<and> db_inv i db' \<and>
    stored (d_store db') = (if delete_precondition (hq_ifMatch req) (stored (d_store db) key) = None
      then (stored (d_store db))(key := None) else stored (d_store db))"
proof -
  let ?opts = "if hq_ifMatch req \<noteq> [] then [WithDeleteExpectedETag (hq_ifMatch req)] else []"
  obtain db' where "db_Delete (sv_db sv) key ?opts db = (delete_precondition (hq_ifMatch req) (stored (d_store db) key), db')"
    "db_inv i db'" "stored (d_store db') = (if delete_precondition (hq_ifMatch req) (stored (d_store db) key) = None
      then (stored (d_store db))(key := None) else stored (d_store db))"
    using Delete_spec [OF inv env rt, of ?opts] unfolding delete_expected_options by blast
  then show ?thesis
    by (cases "delete_precondition (hq_ifMatch req) (stored (d_store db) key)")
      (auto simp: handleDelete_def Let_def delete_failure_def)
qed

text \<open>A forwarded request, answered by the handler of the owner, and the same request at the owner.\<close>

lemma forwardGet_owner:
  assumes inv: "db_inv i db" and env: "e_driver (sv_db so) = d" "e_mgr (sv_db so) = i" and rt: "route (sv_db so) key = None"
    and c: "bytes_through (e_codec (sv_db so))" and x: "\<forall>req. sv_exec sv t req s = owner_exec so clk db req" and st: "d_store db = s"
  shows "\<exists>resp db'. handleGet so clk key db = Some (resp, db') \<and> forwardGetViaMesh sv t key s = (resp, d_store db')"
proof -
  let ?db = "reconcileOwnership (sv_db so) db"
  have R: "db_inv i ?db" "d_store ?db = d_store db" using reconcileOwnership_inv [of "sv_db so" db] inv env(2) by auto
  obtain r db' where L: "readLocal (sv_db so) clk key False ?db = Some (r, db')"
    "case stored (d_store db) key of None \<Rightarrow> r = Inl ErrNotFound | Some dc \<Rightarrow> \<exists>obj. r = Inr (Some obj) \<and> doc_of obj = dc"
    using readLocal_inv [OF R(1) env, of clk key] R(2) by auto
  have h: "hGetRaw (raw_handler (sv_db so) clk) db key = (r, db')" using L(1) by (simp add: raw_handler_def db_GetRaw_def)
  have nf: "Error ErrNotFound \<noteq> []" using mapErrorString_sentinel [of ErrNotFound] by (simp add: sentinel_def)
  show ?thesis
  proof (cases "stored (d_store db) key")
    case None
    then show ?thesis using L rt h x nf
      by (simp add: handleGet_def db_Get_def get_local_def Let_def forwardGetViaMesh_def owner_exec_def dispatch_def resp_err_def)
  next
    case (Some dc)
    then obtain obj where "r = Inr (Some obj)" using L(2) by auto
    then show ?thesis using L(1) rt h x c
      by (simp add: handleGet_def db_Get_def get_local_def Let_def forwardGetViaMesh_def owner_exec_def dispatch_def
          decode_doc_def bytes_through_def meta_of_def)
  qed
qed

lemma forwardPut_owner:
  assumes inv: "db_inv i db" and env: "e_driver (sv_db so) = d" "e_mgr (sv_db so) = i" and rt: "route (sv_db so) key = None"
    and c: "bytes_through (e_codec (sv_db so))" and x: "\<forall>req. sv_exec sv t req s = owner_exec so clk db req" and st: "d_store db = s"
    and j: "sv_metaJSON sv = sv_metaJSON so"
  shows "\<exists>resp db'. handlePut so clk req key db = Some (resp, db') \<and> forwardPutViaMesh sv req t key s = (resp, d_store db')"
proof (cases "body_error (hq_body req)")
  case (Some e)
  then show ?thesis using st by (simp add: handlePut_def forwardPutViaMesh_def)
next
  case None
  let ?db = "reconcileOwnership (sv_db so) db" and ?e = "put_expected req" and ?b = "hq_body req"
  have R: "db_inv i ?db" "d_store ?db = d_store db" using reconcileOwnership_inv [of "sv_db so" db] inv env(2) by auto
  have m: "cd_Marshal (e_codec (sv_db so)) (VBytes ?b) = Inr ?b" using c by (simp add: bytes_through_def)
  obtain r db' where P: "put_cached (sv_db so) clk key ?b ?e ?db = Some (r, db')"
    "case put_precondition ?e (stored (d_store db) key) of Some err \<Rightarrow> r = Inl err
     | None \<Rightarrow> \<exists>obj. r = Inr (Some obj)"
    using put_cached_inv [OF R(1) env, of clk key ?b ?e] R(2) by (auto split: option.splits)
  have h: "hPutRaw (raw_handler (sv_db so) clk) db key ?b ?e = (r, db')" using P(1) by (simp add: raw_handler_def db_PutRaw_def)
  have ops: "Mesh.OpPut \<noteq> Mesh.OpGet" by (simp add: OpGet_def OpPut_def)
  have dbput: "db_Put (sv_db so) clk key (VBytes ?b) (if hq_ifNoneMatch req = ''*'' then [CreateOnly]
     else if hq_ifMatch req \<noteq> [] then [WithExpectedETag (hq_ifMatch req)] else []) db =
     (case r of Inl err \<Rightarrow> Some (Inl err, db') | Inr None \<Rightarrow> None | Inr (Some obj) \<Rightarrow> Some (Inr (meta_of obj), db'))"
    unfolding db_Put_def Let_def put_expected_options using P(1) m rt by (simp split: sum.splits option.splits)
  show ?thesis
  proof (cases "put_precondition ?e (stored (d_store db) key)")
    case ok: None
    then obtain obj where "r = Inr (Some obj)" using P(2) by auto
    then show ?thesis using dbput h x None ops j
      by (simp add: handlePut_def Let_def forwardPutViaMesh_def owner_exec_def dispatch_def meta_of_def)
  next
    case (Some err)
    then have r: "r = Inl err" using P(2) by auto
    have "sentinel err"
      using Some by (auto simp: put_precondition_def sentinel_def split: if_splits option.splits prod.splits)
    then have "Error err \<noteq> []" "Error err = Error ErrVersionMismatch \<longleftrightarrow> err = ErrVersionMismatch"
      "Error err = Error ErrAlreadyExists \<longleftrightarrow> err = ErrAlreadyExists"
      using mapErrorString_sentinel [of err] Error_sentinels_distinct by (auto simp: sentinel_def)
    then show ?thesis using r dbput h x None ops
      by (simp add: handlePut_def Let_def forwardPutViaMesh_def owner_exec_def dispatch_def resp_err_def)
  qed
qed

lemma forwardDelete_owner:
  assumes inv: "db_inv i db" and env: "e_driver (sv_db so) = d" "e_mgr (sv_db so) = i" and rt: "route (sv_db so) key = None"
    and x: "\<forall>req. sv_exec sv t req s = owner_exec so clk db req" and st: "d_store db = s"
  shows "\<exists>resp db'. handleDelete so req key db = (resp, db') \<and> forwardDeleteViaMesh sv req t key s = (resp, d_store db')"
proof -
  let ?db = "reconcileOwnership (sv_db so) db" and ?e = "hq_ifMatch req"
  have R: "db_inv i ?db" "d_store ?db = d_store db" using reconcileOwnership_inv [of "sv_db so" db] inv env(2) by auto
  obtain db' where D: "delete_cached (sv_db so) key ?e ?db = (delete_precondition ?e (stored (d_store db) key), db')"
    using delete_cached_inv [OF R(1) env, of key ?e] R(2) by auto
  have h: "hDeleteRaw (raw_handler (sv_db so) clk) db key ?e = (delete_precondition ?e (stored (d_store db) key), db')"
    using D by (simp add: raw_handler_def db_DeleteRaw_def)
  have ops: "Mesh.OpDelete \<noteq> Mesh.OpGet" "Mesh.OpDelete \<noteq> Mesh.OpPut" by (simp_all add: OpGet_def OpPut_def OpDelete_def)
  have dbdel: "db_Delete (sv_db so) key (if ?e \<noteq> [] then [WithDeleteExpectedETag ?e] else []) db =
      (delete_precondition ?e (stored (d_store db) key), db')"
    unfolding db_Delete_def Let_def delete_expected_options using D rt by simp
  show ?thesis
  proof (cases "delete_precondition ?e (stored (d_store db) key)")
    case None
    then show ?thesis using dbdel h x ops
      by (simp add: handleDelete_def Let_def forwardDeleteViaMesh_def owner_exec_def dispatch_def)
  next
    case (Some err)
    then have "sentinel err" by (auto simp: delete_precondition_def sentinel_def split: if_splits option.splits prod.splits)
    then have "Error err \<noteq> []" "Error err = Error ErrVersionMismatch \<longleftrightarrow> err = ErrVersionMismatch"
      "Error err = Error ErrNotFound \<longleftrightarrow> err = ErrNotFound"
      using mapErrorString_sentinel [of err] Error_sentinels_distinct by (auto simp: sentinel_def)
    then show ?thesis using Some dbdel h x ops
      by (simp add: handleDelete_def Let_def forwardDeleteViaMesh_def owner_exec_def dispatch_def resp_err_def)
  qed
qed

end

section \<open>A small server\<close>

definition small_server :: "(MemDriver, nat) Server" where
  "small_server = \<lparr>sv_db = \<lparr>e_driver = mem_driver (\<lambda>bs. bs), e_mgr = 0, e_codec = NewRawCodec (\<lambda>_. []) (\<lambda>_ :: nat. []) DestBytes,
       e_namespace = [], e_cluster = None, e_exec = (\<lambda>_ _ s. (Inl EOF, s)), e_ctxErr = None\<rparr>,
     sv_cluster = None, sv_exec = (\<lambda>_ _ s. (Inl EOF, s)), sv_metaJSON = (\<lambda>m. bytes_of_string (mt_ETag m)),
     sv_itemsJSON = (\<lambda>_. []), sv_metricsPage = ctx_Error [] 200\<rparr>"

definition small_req :: "string \<Rightarrow> HttpReq" where
  "small_req method = \<lparr>hq_method = method, hq_path = kv_path ''k'', hq_body = [7], hq_ifMatch = [], hq_ifNoneMatch = [], hq_limit = 0\<rparr>"

lemma small_server_simps [simp]:
  "e_driver (sv_db small_server) = mem_driver (\<lambda>bs. bs)" "e_mgr (sv_db small_server) = 0"
  "bytes_through (e_codec (sv_db small_server))" "route (sv_db small_server) key = None" "served_here small_server key"
  using bytes_through_codecs(2) by (auto simp: small_server_def route_def served_here_def)

lemma small_key_ok: "key_error ''k'' = None"
  by (simp add: key_error_def)

lemma small_server_reach:
  "db_reach (mem_driver (\<lambda>bs. bs)) (e_codec (sv_db small_server)) 0 (mem_NewDriver (\<lambda>_. 0)) (init_cache 10) small_db"
  unfolding small_db_def by (rule db_reach.opened)

section \<open>Properties\<close>





text \<open>
  Malformed requests are turned away at the door. An empty key, a key of more than 1024 bytes or
  with a control character, an empty or too large body, an unknown method or an unknown path gets
  a 4xx answer, and neither the database nor a peer is asked.
\<close>

theorem http_rejects_malformed:
  assumes "hq_path req = kv_path key \<and> key_error key \<noteq> None \<or>
    hq_path req = kv_path key \<and> key_error key = None \<and> hq_method req \<notin> {''GET'', ''PUT'', ''DELETE''} \<or>
    hq_path req = kv_path key \<and> key_error key = None \<and> hq_method req = ''PUT'' \<and> body_error (hq_body req) \<noteq> None \<or>
    hq_path req \<noteq> ''/metrics'' \<and> hq_path req \<noteq> ''/v1/health'' \<and> \<not> HasPrefix (hq_path req) ''/v1/kv/'' \<and>
      \<not> HasPrefix (hq_path req) ''/v1/list/''"
  shows "\<exists>resp. HandleRequest sv clk req db = Some (resp, db) \<and> 400 \<le> hs_status resp \<and> hs_status resp < 500 \<and> hs_etag resp = None"
proof -
  have path: "TrimPrefix (kv_path key) ''/v1/kv/'' = key" "HasPrefix (kv_path key) ''/v1/kv/''"
    "kv_path key \<noteq> ''/metrics''" "kv_path key \<noteq> ''/v1/health''"
    using TrimPrefix_append [of "''/v1/kv/''" key] HasPrefix_append [of "''/v1/kv/''" key] by (auto simp: kv_path_def)
  have errs: "key_error key = Some e \<Longrightarrow> hs_status e = 400 \<and> hs_etag e = None"
    "body_error b = Some e \<Longrightarrow> hs_status e \<in> {400, 413} \<and> hs_etag e = None" for e b
    by (auto simp: key_error_def body_error_def ctx_Error_def split: if_splits)
  have same: "db\<lparr>d_store := d_store db\<rparr> = db" by simp
  from assms show ?thesis
  proof (elim disjE conjE)
    assume "hq_path req = kv_path key" "key_error key \<noteq> None"
    then show ?thesis using path errs(1) by (auto simp: HandleRequest_def Let_def)
  next
    assume "hq_path req = kv_path key" "key_error key = None" "hq_method req \<notin> {''GET'', ''PUT'', ''DELETE''}"
    then show ?thesis using path same
      by (auto simp: HandleRequest_def Let_def serve_key_def forwardViaMesh_def ctx_Error_def split: option.splits)
  next
    assume "hq_path req = kv_path key" "key_error key = None" "hq_method req = ''PUT''" "body_error (hq_body req) \<noteq> None"
    then show ?thesis using path errs(2) [of "hq_body req"] same
      by (fastforce simp: HandleRequest_def Let_def serve_key_def forwardViaMesh_def handlePut_def forwardPutViaMesh_def split: option.splits)
  next
    assume "hq_path req \<noteq> ''/metrics''" "hq_path req \<noteq> ''/v1/health''" "\<not> HasPrefix (hq_path req) ''/v1/kv/''"
      "\<not> HasPrefix (hq_path req) ''/v1/list/''"
    then show ?thesis by (simp add: HandleRequest_def Let_def ctx_Error_def)
  qed
qed

theorem http_rejects_malformed_witness:
  "\<exists>resp. HandleRequest small_server (\<lambda>_ _. 5) (small_req ''PATCH'') small_db = Some (resp, small_db) \<and> hs_status resp < 500"
  using http_rejects_malformed [of "small_req ''PATCH''" "''k''" small_server "\<lambda>_ _. 5" small_db] small_key_ok
  by (auto simp: small_req_def)

text \<open>
  If-Match: * means the opposite of what HTTP says. The header value * is taken for the internal
  token of a create-only write, so a PUT with it is refused exactly when the document exists, while
  in HTTP the condition is that some document does.
\<close>

theorem http_if_match_star_inverted:
  assumes "hq_ifMatch req = ''*''" "hq_ifNoneMatch req = []"
  shows "put_precondition (put_expected req) cur = (if cur = None then None else Some ErrAlreadyExists)"
  using assms by (simp add: put_expected_def MatchAnyETag_def [symmetric])

theorem http_if_match_star_inverted_witness:
  "put_precondition (put_expected ((small_req ''PUT'')\<lparr>hq_ifMatch := ''*''\<rparr>)) (Some ([7], ''e'')) = Some ErrAlreadyExists"
  using http_if_match_star_inverted [of "(small_req ''PUT'')\<lparr>hq_ifMatch := ''*''\<rparr>" "Some ([7], ''e'')"] by (simp add: small_req_def)

end
