(* ===== verification/FilePath.thy ===== *)
theory FilePath
  imports Storage
begin

text \<open>
  The parts of Go's packages path/filepath and os that the filesystem driver calls, for a Unix
  system. Path functions are lexical, on strings, as in Go. A filesystem is flat: its regular
  files and its directories, each under the list of names that leads to it from the filesystem
  root; there are no symbolic links. Every call that reaches the kernel consumes one number of
  the fault oracle, which may make it fail for reasons outside the model (no space, no
  permission, a name that is too long); the number in a fault says how far the call got.
\<close>

section \<open>Package path/filepath\<close>

type_synonym path = "string list"

text \<open>One element of \<open>Clean\<close>: \<open>out\<close> is the cleaned path so far, its last name first.\<close>

definition clean_step :: "bool \<Rightarrow> string \<Rightarrow> path \<Rightarrow> path" where
  "clean_step rooted c out =
     (if c = [] \<or> c = ''.'' then out
      else if c = ''..'' then
        (case out of
           [] \<Rightarrow> if rooted then [] else [c]
         | o' # os \<Rightarrow> if o' = ''..'' then c # out else os)
      else c # out)"

definition clean_names :: "bool \<Rightarrow> path \<Rightarrow> path" where
  "clean_names rooted cs = rev (fold (clean_step rooted) cs [])"

definition IsAbs :: "string \<Rightarrow> bool" where
  "IsAbs p = HasPrefix p ''/''"

definition path_names :: "string \<Rightarrow> path" where
  "path_names p = clean_names (IsAbs p) (Split p (CHR ''/''))"

definition path_Clean :: "string \<Rightarrow> string" where
  "path_Clean p =
     (if IsAbs p then CHR ''/'' # Join (path_names p) ''/''
      else if path_names p = [] then ''.'' else Join (path_names p) ''/'')"

text \<open>\<open>filepath.Join\<close> of two elements: empty leading elements are dropped.\<close>

definition path_Join :: "string \<Rightarrow> string \<Rightarrow> string" where
  "path_Join a b =
     (if a \<noteq> [] then path_Clean (a @ ''/'' @ b) else if b \<noteq> [] then path_Clean b else [])"

text \<open>\<open>filepath.Dir\<close>: everything up to the last separator, cleaned.\<close>

definition path_Dir :: "string \<Rightarrow> string" where
  "path_Dir p = path_Clean (rev (dropWhile (\<lambda>c. c \<noteq> CHR ''/'') (rev p)))"

fun strip_common :: "path \<Rightarrow> path \<Rightarrow> path \<times> path" where
  "strip_common (b # bs) (t # ts) = (if b = t then strip_common bs ts else (b # bs, t # ts))"
| "strip_common bs ts = (bs, ts)"

definition path_Rel :: "string \<Rightarrow> string \<Rightarrow> gerror + string" where
  "path_Rel base targ =
     (let (bs, ts) = strip_common (path_names base) (path_names targ) in
      if IsAbs base \<noteq> IsAbs targ \<or> (bs \<noteq> [] \<and> hd bs = ''..'')
      then Inl (ErrorMsg (''Rel: can't make '' @ targ @ '' relative to '' @ base))
      else let names = map (\<lambda>_. ''..'') bs @ ts in
        Inr (if names = [] then ''.'' else Join names ''/''))"

section \<open>Package os\<close>

datatype errno = ENOENT | ENOTDIR | EISDIR | EEXIST | ENOTEMPTY | EINVAL | EFault string

fun errno_text :: "errno \<Rightarrow> string" where
  "errno_text ENOENT = ''no such file or directory''"
| "errno_text ENOTDIR = ''not a directory''"
| "errno_text EISDIR = ''is a directory''"
| "errno_text EEXIST = ''file exists''"
| "errno_text ENOTEMPTY = ''directory not empty''"
| "errno_text EINVAL = ''invalid argument''"
| "errno_text (EFault m) = m"

text \<open>\<open>os.PathError\<close>; \<open>os.IsNotExist\<close> looks at the error number alone.\<close>

record PathError =
  pe_op :: string
  pe_path :: string
  pe_err :: errno

definition pe_gerror :: "PathError \<Rightarrow> gerror" where
  "pe_gerror e = ErrorMsg (pe_op e @ '' '' @ pe_path e @ '': '' @ errno_text (pe_err e))"

definition IsNotExist :: "PathError \<Rightarrow> bool" where
  "IsNotExist e \<longleftrightarrow> pe_err e = ENOENT"

record OS =
  os_files :: "(path, bytes \<times> gotime) gomap"
  os_dirs :: "path list"
  os_cwd :: path
  os_clock :: "nat \<Rightarrow> gotime"
  os_ticks :: nat
  os_fault :: "nat \<Rightarrow> path \<Rightarrow> (string \<times> nat) option"
  os_calls :: nat

record FileInfo =
  fi_size :: int
  fi_modTime :: gotime
  fi_isDir :: bool

definition Now :: "OS \<Rightarrow> gotime \<times> OS" where
  "Now os = (os_clock os (os_ticks os), os\<lparr>os_ticks := os_ticks os + 1\<rparr>)"

text \<open>The names a path string leads along, from the root of the filesystem.\<close>

definition resolve :: "OS \<Rightarrow> string \<Rightarrow> path" where
  "resolve os p =
     clean_names True ((if IsAbs p then [] else os_cwd os) @ Split p (CHR ''/''))"

definition os_file :: "OS \<Rightarrow> path \<Rightarrow> (bytes \<times> gotime) option" where
  "os_file os p = map_of (os_files os) p"

definition os_dir :: "OS \<Rightarrow> path \<Rightarrow> bool" where
  "os_dir os p \<longleftrightarrow> p = [] \<or> p \<in> set (os_dirs os)"

text \<open>Why a path that is neither a file nor a directory is not found.\<close>

definition missing :: "OS \<Rightarrow> path \<Rightarrow> errno" where
  "missing os p = (if \<exists>q \<in> set (prefixes p). os_file os q \<noteq> None then ENOTDIR else ENOENT)"

definition called :: "OS \<Rightarrow> OS" where
  "called os = os\<lparr>os_calls := os_calls os + 1\<rparr>"

text \<open>
  The part common to the calls that take a path: a path with a NUL byte and the empty path are
  refused, and the oracle may fail the call.
\<close>

definition bad_path :: "string \<Rightarrow> errno option" where
  "bad_path p = (if CHR 0x00 \<in> set p then Some EINVAL else if p = [] then Some ENOENT else None)"

definition syscall_fault :: "OS \<Rightarrow> string \<Rightarrow> (errno \<times> nat) option" where
  "syscall_fault os p =
     (if bad_path p \<noteq> None then Some (the (bad_path p), 0)
      else map_option (\<lambda>(m, n). (EFault m, n)) (os_fault os (os_calls os) (resolve os p)))"

definition ReadFile :: "OS \<Rightarrow> string \<Rightarrow> (PathError + bytes) \<times> OS" where
  "ReadFile os p =
     (let failed = (\<lambda>op e. (Inl \<lparr>pe_op = op, pe_path = p, pe_err = e\<rparr>, called os)) in
      case syscall_fault os p of
        Some (e, _) \<Rightarrow> failed ''open'' e
      | None \<Rightarrow>
          (case os_file os (resolve os p) of
             Some (data, _) \<Rightarrow> (Inr data, called os)
           | None \<Rightarrow>
               if os_dir os (resolve os p) then failed ''read'' EISDIR
               else failed ''open'' (missing os (resolve os p))))"

definition Stat :: "OS \<Rightarrow> string \<Rightarrow> (PathError + FileInfo) \<times> OS" where
  "Stat os p =
     (let failed = (\<lambda>e. (Inl \<lparr>pe_op = ''stat'', pe_path = p, pe_err = e\<rparr>, called os)) in
      case syscall_fault os p of
        Some (e, _) \<Rightarrow> failed e
      | None \<Rightarrow>
          (case os_file os (resolve os p) of
             Some (data, t) \<Rightarrow>
               (Inr \<lparr>fi_size = int (length data), fi_modTime = t, fi_isDir = False\<rparr>, called os)
           | None \<Rightarrow>
               if os_dir os (resolve os p)
               then (Inr \<lparr>fi_size = 0, fi_modTime = zeroTime, fi_isDir = True\<rparr>, called os)
               else failed (missing os (resolve os p))))"

definition add_dirs :: "path list \<Rightarrow> OS \<Rightarrow> OS" where
  "add_dirs ps os = os\<lparr>os_dirs := ps @ os_dirs os\<rparr>"

text \<open>
  \<open>MkdirAll\<close>: with a file on the way nothing is created, since everything above the file
  exists. A call that fails midway has created the directories above that point.
\<close>

definition MkdirAll :: "OS \<Rightarrow> string \<Rightarrow> PathError option \<times> OS" where
  "MkdirAll os p =
     (let q = resolve os p;
          failed = (\<lambda>e. Some \<lparr>pe_op = ''mkdir'', pe_path = p, pe_err = e\<rparr>) in
      if bad_path p \<noteq> None then (failed (the (bad_path p)), called os)
      else if \<exists>r \<in> set (prefixes q). os_file os r \<noteq> None then (failed ENOTDIR, called os)
      else case syscall_fault os p of
        Some (e, n) \<Rightarrow> (failed e, add_dirs (prefixes (take n q)) (called os))
      | None \<Rightarrow> (None, add_dirs (prefixes q) (called os)))"

definition set_file :: "path \<Rightarrow> bytes \<times> gotime \<Rightarrow> OS \<Rightarrow> OS" where
  "set_file p f os = os\<lparr>os_files := AList.update p f (os_files os)\<rparr>"

definition drop_file :: "path \<Rightarrow> OS \<Rightarrow> OS" where
  "drop_file p os = os\<lparr>os_files := AList.delete p (os_files os)\<rparr>"

text \<open>
  \<open>WriteFile\<close> creates or truncates the file and writes the data. A call that fails after
  \<open>Suc m\<close> steps has left a file with the first \<open>m\<close> bytes.
\<close>

definition WriteFile :: "OS \<Rightarrow> string \<Rightarrow> bytes \<Rightarrow> PathError option \<times> OS" where
  "WriteFile os p data =
     (let q = resolve os p;
          failed = (\<lambda>e. Some \<lparr>pe_op = ''open'', pe_path = p, pe_err = e\<rparr>);
          (now, os1) = Now (called os)
      in if bad_path p \<noteq> None then (failed (the (bad_path p)), called os)
      else if os_dir os q then (failed EISDIR, called os)
      else if \<not> os_dir os (butlast q) then (failed (missing os (butlast q)), called os)
      else case syscall_fault os p of
        Some (e, 0) \<Rightarrow> (failed e, called os)
      | Some (e, Suc m) \<Rightarrow> (failed e, set_file q (take m data, now) os1)
      | None \<Rightarrow> (None, set_file q (data, now) os1))"

text \<open>\<open>Rename\<close> of a file replaces the target atomically or, when it fails, does nothing.\<close>

definition Rename :: "OS \<Rightarrow> string \<Rightarrow> string \<Rightarrow> PathError option \<times> OS" where
  "Rename os old new =
     (let q = resolve os old; q' = resolve os new;
          failed = (\<lambda>e. (Some \<lparr>pe_op = ''rename'', pe_path = old @ '' '' @ new, pe_err = e\<rparr>, called os)) in
      if bad_path old \<noteq> None then failed (the (bad_path old))
      else if bad_path new \<noteq> None then failed (the (bad_path new))
      else if os_dir os q' then failed EEXIST
      else if \<not> os_dir os (butlast q') then failed (missing os (butlast q'))
      else case syscall_fault os new of
        Some (e, _) \<Rightarrow> failed e
      | None \<Rightarrow>
          (case os_file os q of
             None \<Rightarrow> failed (missing os q)
           | Some f \<Rightarrow> (None, set_file q' f (drop_file q (called os)))))"

text \<open>\<open>Remove\<close> deletes a file or an empty directory.\<close>

definition Remove :: "OS \<Rightarrow> string \<Rightarrow> PathError option \<times> OS" where
  "Remove os p =
     (let q = resolve os p;
          failed = (\<lambda>e. (Some \<lparr>pe_op = ''remove'', pe_path = p, pe_err = e\<rparr>, called os)) in
      case syscall_fault os p of
        Some (e, _) \<Rightarrow> failed e
      | None \<Rightarrow>
          (case os_file os q of
             Some _ \<Rightarrow> (None, drop_file q (called os))
           | None \<Rightarrow>
               if \<not> os_dir os q then failed (missing os q)
               else if q = [] \<or> (\<exists>r \<in> set (map fst (os_files os) @ os_dirs os). strict_prefix q r)
               then failed ENOTEMPTY
               else (None, (called os)\<lparr>os_dirs := removeAll q (os_dirs os)\<rparr>)))"

text \<open>
  \<open>filepath.Walk\<close> as its callback sees it: the path string and the information of each
  regular file under the root, or of the root itself when it is a file. A directory whose entries cannot be read, or a path whose
  information cannot be read, is reported to the callback as an error, which this callback
  ignores; the files below are then not visited. The order of the visits is immaterial here,
  since the caller sorts what it collects. The whole walk consumes one number of the oracle.
\<close>

definition walk_visits :: "OS \<Rightarrow> path \<Rightarrow> path \<Rightarrow> bool" where
  "walk_visits os root q \<longleftrightarrow> strict_prefix root q \<and>
     (\<forall>r \<in> set (prefixes q). prefix root r \<longrightarrow> os_fault os (os_calls os) r = None)"

definition Walk :: "OS \<Rightarrow> string \<Rightarrow> (string \<times> FileInfo) list \<times> OS" where
  "Walk os root =
     (let r = resolve os root in
      if bad_path root \<noteq> None then ([], called os)
      else case os_file os r of
        Some (data, t) \<Rightarrow>
          (if os_fault os (os_calls os) r = None
           then [(root, \<lparr>fi_size = int (length data), fi_modTime = t, fi_isDir = False\<rparr>)]
           else [], called os)
      | None \<Rightarrow>
       (map (\<lambda>(q, data, t).
            (path_Join root (Join (drop (length r) q) ''/''),
             \<lparr>fi_size = int (length data), fi_modTime = t, fi_isDir = False\<rparr>))
          (filter (\<lambda>(q, data, t). walk_visits os r q) (os_files os)),
        called os))"

section \<open>Laws of the path functions\<close>

text \<open>A name that a path keeps as it is.\<close>

definition plain_name :: "string \<Rightarrow> bool" where
  "plain_name c \<longleftrightarrow> c \<noteq> [] \<and> c \<noteq> ''.'' \<and> c \<noteq> ''..'' \<and> CHR ''/'' \<notin> set c \<and> CHR 0x00 \<notin> set c"

text \<open>The names that \<open>Clean\<close> keeps, in a rooted path and in a relative one.\<close>

definition kept_name :: "bool \<Rightarrow> string \<Rightarrow> bool" where
  "kept_name rooted c \<longleftrightarrow> c \<noteq> [] \<and> c \<noteq> ''.'' \<and> \<not> (rooted \<and> c = ''..'')"

lemma kept_name_plain: "plain_name c \<Longrightarrow> kept_name True c"
  by (simp add: plain_name_def kept_name_def)

lemma clean_step_kept: "kept_name True c \<Longrightarrow> clean_step b c out = c # out"
  by (simp add: clean_step_def kept_name_def)

lemma fold_clean_kept:
  "\<forall>c \<in> set cs. kept_name True c \<Longrightarrow> fold (clean_step b) cs out = rev cs @ out"
  by (induction cs arbitrary: out) (simp_all add: clean_step_kept)

lemma fold_clean_plain:
  "\<forall>c \<in> set cs. plain_name c \<Longrightarrow> fold (clean_step b) cs out = rev cs @ out"
  by (simp add: fold_clean_kept kept_name_plain)

lemma clean_step_names:
  assumes "c \<in> S" and "\<forall>n \<in> set out. n \<in> S \<and> kept_name b n"
  shows "\<forall>n \<in> set (clean_step b c out). n \<in> S \<and> kept_name b n"
proof (cases "c = ''..''")
  case True
  with assms show ?thesis
    by (cases out; cases b) (simp_all add: clean_step_def kept_name_def)
next
  case False
  with assms show ?thesis by (simp add: clean_step_def kept_name_def)
qed

lemma fold_clean_names:
  "set cs \<subseteq> S \<Longrightarrow> \<forall>n \<in> set out. n \<in> S \<and> kept_name b n \<Longrightarrow>
   \<forall>n \<in> set (fold (clean_step b) cs out). n \<in> S \<and> kept_name b n"
proof (induction cs arbitrary: out)
  case (Cons c cs)
  have "c \<in> S" "set cs \<subseteq> S" using Cons.prems(1) by auto
  from Cons.IH [OF this(2) clean_step_names [OF this(1) Cons.prems(2)]] show ?case by simp
qed simp

text \<open>Cleaning the relative part first does not change where a path leads.\<close>

lemma clean_step_replay:
  assumes "\<forall>n \<in> set out. kept_name False n"
  shows "fold (clean_step b) (rev (clean_step False c out)) s = clean_step b c (fold (clean_step b) (rev out) s)"
proof (cases "c = ''..''")
  case True
  with assms show ?thesis
    by (cases out) (auto simp: clean_step_def kept_name_def)
next
  case False
  then show ?thesis by (simp add: clean_step_def)
qed

lemma fold_clean_replay:
  "\<forall>n \<in> set out. kept_name False n \<Longrightarrow>
   fold (clean_step b) (rev (fold (clean_step False) cs out)) s =
     fold (clean_step b) cs (fold (clean_step b) (rev out) s)"
proof (induction cs arbitrary: out)
  case (Cons c cs)
  have "\<forall>n \<in> set (clean_step False c out). kept_name False n"
    using clean_step_names [of c UNIV out False] Cons.prems by simp
  from Cons.IH [OF this] clean_step_replay [OF Cons.prems] show ?case by simp
qed simp

lemma clean_names_in: "n \<in> set (clean_names b cs) \<Longrightarrow> n \<in> set cs \<and> kept_name b n"
  using fold_clean_names [of cs "set cs" "[]" b] by (metis clean_names_def empty_iff list.set(1) set_rev subset_refl)

lemma clean_names_idem: "clean_names b (clean_names b cs) = clean_names b cs"
proof (cases b)
  case True
  then have "\<forall>n \<in> set (clean_names b cs). kept_name True n" using clean_names_in [where b = b] by simp
  then show ?thesis using fold_clean_kept [of "clean_names b cs" b "[]"] by (simp add: clean_names_def)
next
  case False
  then show ?thesis using fold_clean_replay [of "[]" False cs "[]"] by (simp add: clean_names_def)
qed

lemma Split_slash_append: "Split (a @ c # b) c = Split a c @ Split b c"
  by (induction a) (auto split: list.splits)

lemma Split_append_name: "c \<notin> set w \<Longrightarrow> Split (s @ w) c = butlast (Split s c) @ [last (Split s c) @ w]"
proof (induction s)
  case (Cons x s)
  obtain v vs where "Split s c = v # vs" by (cases "Split s c") auto
  with Cons show ?case by (cases vs) auto
qed (simp add: Split_single)

lemma set_Split: "n \<in> set (Split s c) \<Longrightarrow> set n \<subseteq> set s"
proof (induction s arbitrary: n)
  case (Cons x s)
  obtain v vs where "Split s c = v # vs" by (cases "Split s c") auto
  with Cons show ?case by (auto split: if_splits) (metis (full_types) subsetD)+
qed simp

lemma IsAbs_simps [simp]: "\<not> IsAbs []" "IsAbs (x # p) \<longleftrightarrow> x = CHR ''/''"
  by (auto simp: IsAbs_def HasPrefix_def)

lemma IsAbs_append: "a \<noteq> [] \<Longrightarrow> IsAbs (a @ b) = IsAbs a"
  by (cases a) auto

lemma path_names_slash: "n \<in> set (path_names p) \<Longrightarrow> CHR ''/'' \<notin> set n \<and> n \<noteq> []"
  unfolding path_names_def using clean_names_in Split_no_sep kept_name_def by blast

lemma Join_first: "ns \<noteq> [] \<Longrightarrow> \<exists>rest. Join ns sep = hd ns @ rest"
  by (cases ns; cases "tl ns") auto

lemma IsAbs_Join_names: "\<not> IsAbs (Join (path_names p) ''/'')"
proof (cases "path_names p")
  case (Cons n ns)
  then obtain rest where "Join (path_names p) ''/'' = n @ rest" using Join_first [of "path_names p"] by auto
  with path_names_slash [of n p] Cons show ?thesis by (cases n) auto
qed simp

lemma Split_Join_names: "path_names p \<noteq> [] \<Longrightarrow> Split (Join (path_names p) ''/'') (CHR ''/'') = path_names p"
  using path_names_slash by (intro Split_Join) blast+

lemma Split_path_Clean:
  "Split (path_Clean p) (CHR ''/'') =
     (if IsAbs p then [] # (if path_names p = [] then [[]] else path_names p)
      else if path_names p = [] then [''.''] else path_names p)"
  by (auto simp: path_Clean_def Split_Join_names)

lemma IsAbs_Clean [simp]: "IsAbs (path_Clean p) = IsAbs p"
  using IsAbs_Join_names [of p] by (auto simp: path_Clean_def)

lemma clean_names_skip [simp]:
  "clean_names b ([] # cs) = clean_names b cs" "clean_names b (''.'' # cs) = clean_names b cs"
  "clean_names b [] = []"
  by (simp_all add: clean_names_def clean_step_def)

lemma path_names_Clean [simp]: "path_names (path_Clean p) = path_names p"
  using clean_names_idem [of "IsAbs p" "Split p (CHR ''/'')"]
  unfolding path_names_def [of "path_Clean p"] Split_path_Clean IsAbs_Clean
  by (auto simp: path_names_def [symmetric])

lemma resolve_Clean [simp]: "resolve os (path_Clean p) = resolve os p"
proof (cases "IsAbs p")
  case True
  then show ?thesis
    using clean_names_idem [of True "Split p (CHR ''/'')"]
    by (auto simp: resolve_def Split_path_Clean path_names_def)
next
  case False
  have "fold (clean_step True) (path_names p) s = fold (clean_step True) (Split p (CHR ''/'')) s" for s
    using False fold_clean_replay [of "[]" True "Split p (CHR ''/'')" s]
    by (simp add: path_names_def clean_names_def)
  note replay = this [symmetric]
  with False show ?thesis
    by (auto simp: resolve_def Split_path_Clean clean_names_def replay clean_step_def)
qed

text \<open>Where a path leads that continues another one.\<close>

lemma resolve_append:
  assumes "a \<noteq> []" and "\<forall>n \<in> set (Split b (CHR ''/'')). plain_name n"
  shows "resolve os (a @ CHR ''/'' # b) = resolve os a @ Split b (CHR ''/'')"
  using assms by (simp add: resolve_def IsAbs_append Split_slash_append clean_names_def fold_clean_plain)

lemma path_names_append:
  assumes "a \<noteq> []" and "\<forall>n \<in> set (Split b (CHR ''/'')). plain_name n"
  shows "path_names (a @ CHR ''/'' # b) = path_names a @ Split b (CHR ''/'')"
  using assms by (simp add: path_names_def IsAbs_append Split_slash_append clean_names_def fold_clean_plain)

lemma set_path_Clean: "set (path_Clean p) \<subseteq> set p \<union> {CHR ''/'', CHR ''.''}"
proof -
  have "set n \<subseteq> set p" if "n \<in> set (path_names p)" for n
    using that set_Split clean_names_in unfolding path_names_def by blast
  moreover have "set (Join ns ''/'') \<subseteq> \<Union> (set ` set ns) \<union> {CHR ''/''}" for ns
    by (induction ns "''/''" rule: Join.induct) auto
  ultimately have "set (Join (path_names p) ''/'') \<subseteq> set p \<union> {CHR ''/''}" by blast
  then show ?thesis by (auto simp: path_Clean_def)
qed

text \<open>The directory of a path is the path without its last name.\<close>

lemma dir_part:
  "Split (rev (dropWhile (\<lambda>c. c \<noteq> s) (rev p))) s = butlast (Split p s) @ [[]]"
  "p = rev (dropWhile (\<lambda>c. c \<noteq> s) (rev p)) @ last (Split p s)"
proof -
  define b where "b = rev (takeWhile (\<lambda>c. c \<noteq> s) (rev p))"
  define a where "a = rev (dropWhile (\<lambda>c. c \<noteq> s) (rev p))"
  have p: "p = a @ b" by (metis a_def b_def rev_append rev_rev_ident takeWhile_dropWhile_id)
  have b: "s \<notin> set b" by (auto simp: b_def dest: set_takeWhileD)
  have "a = [] \<or> (\<exists>a'. a = a' @ [s])"
    unfolding a_def by (cases "dropWhile (\<lambda>c. c \<noteq> s) (rev p)") (auto dest: dropWhile_eq_Cons_conv [THEN iffD1])
  then have "Split a s = butlast (Split p s) @ [[]] \<and> last (Split p s) = b"
    using b p by (auto simp: Split_single Split_slash_append butlast_append)
  with p show "Split (rev (dropWhile (\<lambda>c. c \<noteq> s) (rev p))) s = butlast (Split p s) @ [[]]"
    "p = rev (dropWhile (\<lambda>c. c \<noteq> s) (rev p)) @ last (Split p s)"
    by (simp_all add: a_def)
qed

lemma resolve_Dir:
  assumes "plain_name (last (Split p (CHR ''/'')))"
  shows "resolve os (path_Dir p) = butlast (resolve os p)"
    "resolve os p = butlast (resolve os p) @ [last (Split p (CHR ''/''))]"
proof -
  let ?a = "rev (dropWhile (\<lambda>c. c \<noteq> CHR ''/'') (rev p))" and ?b = "last (Split p (CHR ''/''))"
  let ?base = "if IsAbs p then [] else os_cwd os"
  have abs: "IsAbs ?a = IsAbs p"
  proof (cases "?a = []")
    case True
    then have "plain_name p" using assms by (metis append_Nil dir_part(2))
    then have "\<not> IsAbs p" by (cases p) (auto simp: plain_name_def)
    with True show ?thesis by (metis IsAbs_simps(1))
  next
    case False
    then show ?thesis by (metis IsAbs_append dir_part(2))
  qed
  have snoc: "clean_names True (cs @ [?b]) = clean_names True cs @ [?b]" for cs
    using clean_step_kept [OF kept_name_plain [OF assms]] by (simp add: clean_names_def)
  have p: "resolve os p = clean_names True (?base @ butlast (Split p (CHR ''/''))) @ [?b]"
    unfolding resolve_def using snoc [of "?base @ butlast (Split p (CHR ''/''))"] by simp
  have "resolve os (path_Dir p) = clean_names True (?base @ butlast (Split p (CHR ''/'')))"
    by (simp add: path_Dir_def resolve_def [of os ?a] abs dir_part(1) clean_names_def clean_step_def)
  with p show "resolve os (path_Dir p) = butlast (resolve os p)"
    "resolve os p = butlast (resolve os p) @ [last (Split p (CHR ''/''))]" by simp_all
qed

lemma resolve_snoc:
  assumes "Split p (CHR ''/'') = cs @ [c]" and "plain_name c"
  shows "resolve os p = clean_names True ((if IsAbs p then [] else os_cwd os) @ cs) @ [c]"
  using assms clean_step_kept [OF kept_name_plain [OF assms(2)]]
  by (simp add: resolve_def clean_names_def)

lemma resolve_append_name:
  assumes "p \<noteq> []" and "plain_name (last (Split p (CHR ''/'')))"
    and "plain_name (last (Split p (CHR ''/'')) @ w)"
  shows "resolve os (p @ w) = butlast (resolve os p) @ [last (Split p (CHR ''/'')) @ w]"
proof -
  have "CHR ''/'' \<notin> set w" using assms(3) by (simp add: plain_name_def)
  from Split_append_name [OF this, of p] assms show ?thesis
    using resolve_snoc [of p "butlast (Split p (CHR ''/''))" "last (Split p (CHR ''/''))" os]
      resolve_snoc [of "p @ w" "butlast (Split p (CHR ''/''))" "last (Split p (CHR ''/'')) @ w" os]
    by (simp add: IsAbs_append)
qed

lemma strip_common_append: "strip_common bs (bs @ ts) = ([], ts)"
  by (induction bs) (cases ts, auto)

lemma path_Rel_below:
  assumes "root \<noteq> []" and "ns \<noteq> []" and "\<forall>n \<in> set ns. plain_name n"
  shows "path_Rel root (path_Join root (Join ns ''/'')) = Inr (Join ns ''/'')"
proof -
  have "Split (Join ns ''/'') (CHR ''/'') = ns"
    using assms by (intro Split_Join) (auto simp: plain_name_def)
  then have "path_names (path_Join root (Join ns ''/'')) = path_names root @ ns"
    using assms path_names_append [of root "Join ns ''/''"] by (simp add: path_Join_def)
  moreover have "IsAbs (path_Join root (Join ns ''/'')) = IsAbs root"
    using assms by (simp add: path_Join_def IsAbs_append)
  ultimately show ?thesis using assms by (simp add: path_Rel_def strip_common_append)
qed

end
