(* ===== verification/FsDriver.thy ===== *)
theory FsDriver
  imports FilePath
begin

text \<open>
  pkg/storage/fs/fs.go: the driver that keeps each object in a file below a root directory. The
  state is the driver's root path together with the filesystem it acts on; the lock of the
  driver makes each method one step. The SHA-256 of the ETag is the parameter \<open>sha\<close>.
\<close>

section \<open>Definitions\<close>

record FsDriver =
  rootDir :: string
  fs_os :: OS

definition fs_NewDriver :: "OS \<Rightarrow> string \<Rightarrow> (gerror + FsDriver) \<times> OS" where
  "fs_NewDriver os root =
     (case MkdirAll os root of
        (Some err, os1) \<Rightarrow> (Inl (Wrapped ''fs storage: failed to create root dir: '' (pe_gerror err)), os1)
      | (None, os1) \<Rightarrow> (Inr \<lparr>rootDir = root, fs_os = os1\<rparr>, os1))"

definition keyToPath :: "FsDriver \<Rightarrow> string \<Rightarrow> string" where
  "keyToPath d key = path_Join (rootDir d) (path_Clean key @ ''.data'')"

definition fs_generateETag :: "(bytes \<Rightarrow> bytes) \<Rightarrow> bytes \<Rightarrow> gotime \<Rightarrow> string" where
  "fs_generateETag sha data modTime =
     [CHR 0x22] @ hex_of_bytes (take 12 (sha (data @ bytes_of_string (show_int modTime)))) @ [CHR 0x22]"

definition fs_Get :: "(bytes \<Rightarrow> bytes) \<Rightarrow> FsDriver \<Rightarrow> string \<Rightarrow> (gerror + Object option) \<times> FsDriver" where
  "fs_Get sha d key =
     (let filePath = keyToPath d key in
      case ReadFile (fs_os d) filePath of
        (Inl err, os1) \<Rightarrow>
          (Inl (if IsNotExist err then ErrNotFound
                else Wrapped ''fs storage read error: '' (pe_gerror err)), d\<lparr>fs_os := os1\<rparr>)
      | (Inr data, os1) \<Rightarrow>
          (case Stat os1 filePath of
             (Inl err, os2) \<Rightarrow>
               (Inl (Wrapped ''fs storage stat error: '' (pe_gerror err)), d\<lparr>fs_os := os2\<rparr>)
           | (Inr info, os2) \<Rightarrow>
               (Inr (Some \<lparr>oKey = key, oValue = data,
                  oETag = fs_generateETag sha data (fi_modTime info),
                  oModTime = fi_modTime info, oMetadata = []\<rparr>), d\<lparr>fs_os := os2\<rparr>)))"

text \<open>The guard of \<open>Put\<close>: the error it returns before it writes anything, if any.\<close>

definition fs_put_check ::
  "(bytes \<Rightarrow> bytes) \<Rightarrow> OS \<Rightarrow> string \<Rightarrow> string \<Rightarrow> PathError + FileInfo \<Rightarrow> gerror option \<times> OS" where
  "fs_put_check sha os filePath expectedETag st =
     (if expectedETag \<noteq> [] then
        (if expectedETag = MatchAnyETag then
           (case st of Inr _ \<Rightarrow> (Some ErrAlreadyExists, os) | Inl _ \<Rightarrow> (None, os))
         else
           (case st of
              Inl _ \<Rightarrow> (Some ErrNotFound, os)
            | Inr info \<Rightarrow>
                (case ReadFile os filePath of
                   (Inl err, os1) \<Rightarrow>
                     (Some (Wrapped ''fs storage read existing error: '' (pe_gerror err)), os1)
                 | (Inr existingData, os1) \<Rightarrow>
                     (if fs_generateETag sha existingData (fi_modTime info) \<noteq> expectedETag
                      then Some ErrVersionMismatch else None, os1))))
      else (None, os))"

definition tmp_path :: "string \<Rightarrow> gotime \<Rightarrow> string" where
  "tmp_path filePath now = filePath @ ''.tmp.'' @ show_int now"

text \<open>The rest of \<open>Put\<close>: the directory, the temporary file, the rename and the new ETag.\<close>

definition fs_write ::
  "(bytes \<Rightarrow> bytes) \<Rightarrow> OS \<Rightarrow> string \<Rightarrow> string \<Rightarrow> bytes \<Rightarrow> (gerror + Object option) \<times> OS" where
  "fs_write sha os key filePath value =
     (case MkdirAll os (path_Dir filePath) of
        (Some err, os1) \<Rightarrow> (Inl (Wrapped ''fs storage mkdir error: '' (pe_gerror err)), os1)
      | (None, os1) \<Rightarrow>
          let (now, os2) = Now os1; tmpPath = tmp_path filePath now in
          (case WriteFile os2 tmpPath value of
             (Some err, os3) \<Rightarrow> (Inl (Wrapped ''fs storage write temp file error: '' (pe_gerror err)), os3)
           | (None, os3) \<Rightarrow>
               (case Rename os3 tmpPath filePath of
                  (Some err, os4) \<Rightarrow>
                    (Inl (Wrapped ''fs storage atomic rename error: '' (pe_gerror err)), snd (Remove os4 tmpPath))
                | (None, os4) \<Rightarrow>
                    (case Stat os4 filePath of
                       (Inl err, os5) \<Rightarrow> (Inl (Wrapped ''fs storage stat new file error: '' (pe_gerror err)), os5)
                     | (Inr newInfo, os5) \<Rightarrow>
                         (Inr (Some \<lparr>oKey = key, oValue = value,
                            oETag = fs_generateETag sha value (fi_modTime newInfo),
                            oModTime = fi_modTime newInfo, oMetadata = []\<rparr>), os5)))))"

definition fs_Put ::
  "(bytes \<Rightarrow> bytes) \<Rightarrow> FsDriver \<Rightarrow> string \<Rightarrow> bytes \<Rightarrow> string \<Rightarrow> (gerror + Object option) \<times> FsDriver" where
  "fs_Put sha d key value expectedETag =
     (let filePath = keyToPath d key;
          (st, os1) = Stat (fs_os d) filePath
      in case fs_put_check sha os1 filePath expectedETag st of
        (Some err, os2) \<Rightarrow> (Inl err, d\<lparr>fs_os := os2\<rparr>)
      | (None, os2) \<Rightarrow>
          let (r, os3) = fs_write sha os2 key filePath value in (r, d\<lparr>fs_os := os3\<rparr>))"

definition fs_remove :: "OS \<Rightarrow> string \<Rightarrow> gerror option \<times> OS" where
  "fs_remove os filePath =
     (case Remove os filePath of
        (Some err, os1) \<Rightarrow>
          (if \<not> IsNotExist err then Some (Wrapped ''fs storage remove file error: '' (pe_gerror err))
           else None, os1)
      | (None, os1) \<Rightarrow> (None, os1))"

definition fs_Delete ::
  "(bytes \<Rightarrow> bytes) \<Rightarrow> FsDriver \<Rightarrow> string \<Rightarrow> string \<Rightarrow> gerror option \<times> FsDriver" where
  "fs_Delete sha d key expectedETag =
     (let filePath = keyToPath d key in
      case Stat (fs_os d) filePath of
        (Inl err, os1) \<Rightarrow>
          (Some (if IsNotExist err then ErrNotFound
                 else Wrapped ''fs storage stat delete error: '' (pe_gerror err)), d\<lparr>fs_os := os1\<rparr>)
      | (Inr info, os1) \<Rightarrow>
          if expectedETag \<noteq> [] \<and> expectedETag \<noteq> MatchAnyETag then
            (case ReadFile os1 filePath of
               (Inl err, os2) \<Rightarrow>
                 (Some (Wrapped ''fs storage read delete error: '' (pe_gerror err)), d\<lparr>fs_os := os2\<rparr>)
             | (Inr data, os2) \<Rightarrow>
                 if fs_generateETag sha data (fi_modTime info) \<noteq> expectedETag
                 then (Some ErrVersionMismatch, d\<lparr>fs_os := os2\<rparr>)
                 else let (r, os3) = fs_remove os2 filePath in (r, d\<lparr>fs_os := os3\<rparr>))
          else let (r, os3) = fs_remove os1 filePath in (r, d\<lparr>fs_os := os3\<rparr>))"

text \<open>
  The callback of \<open>List\<close> on one visited file, with \<open>os\<close> the filesystem whose oracle decides
  whether the file can be read: the entry it appends, if any.
\<close>

definition fs_list_visit ::
  "(bytes \<Rightarrow> bytes) \<Rightarrow> OS \<Rightarrow> string \<Rightarrow> string \<Rightarrow> string \<Rightarrow> string \<times> FileInfo \<Rightarrow> KeyMeta option" where
  "fs_list_visit sha os root prefx cursor visit =
     (let (path, info) = visit in
      if fi_isDir info \<or> \<not> HasSuffix path ''.data'' then None
      else case path_Rel root path of
        Inl _ \<Rightarrow> None
      | Inr rel \<Rightarrow>
          let key = TrimSuffix rel ''.data'' in
          if HasPrefix key prefx \<and> \<not> (cursor \<noteq> [] \<and> key \<le> cursor) then
            (case fst (ReadFile os path) of
               Inl _ \<Rightarrow> None
             | Inr data \<Rightarrow>
                 Some \<lparr>kmKey = key, kmSize = fi_size info,
                   kmETag = fs_generateETag sha data (fi_modTime info), kmModTime = fi_modTime info\<rparr>)
          else None)"

definition fs_List ::
  "(bytes \<Rightarrow> bytes) \<Rightarrow> FsDriver \<Rightarrow> string \<Rightarrow> ListOptions \<Rightarrow> (gerror + (KeyMeta list \<times> string)) \<times> FsDriver" where
  "fs_List sha d prefx opts =
     (let (visits, os1) = Walk (fs_os d) (rootDir d);
          results = sort_key kmKey
            (List.map_filter (fs_list_visit sha os1 (rootDir d) prefx (loCursor opts)) visits);
          d' = d\<lparr>fs_os := called os1\<rparr>
      in if loLimit opts > 0 \<and> int (length results) > loLimit opts
         then (Inr (take (nat (loLimit opts)) results, kmKey (results ! (nat (loLimit opts) - 1))), d')
         else (Inr (results, []), d'))"

definition fs_Close :: "FsDriver \<Rightarrow> gerror option \<times> FsDriver" where
  "fs_Close d = (None, d)"

text \<open>The interface value that \<open>NewDriver\<close> returns.\<close>

definition fs_driver :: "(bytes \<Rightarrow> bytes) \<Rightarrow> FsDriver Driver" where
  "fs_driver sha =
     \<lparr>dGet = fs_Get sha, dPut = fs_Put sha, dDelete = fs_Delete sha, dList = fs_List sha, dClose = fs_Close\<rparr>"

end
