(* ===== verification/FsTree.thy ===== *)
theory FsTree
  imports FsDriver
begin

text \<open>
  The tree that the filesystem driver keeps below its root: which keys are clean relative paths
  and where their files are, the invariant that keeps directories and files apart (a directory
  name holds no \<open>.data\<close>, a file name does), and what each call of package os does to a tree
  with that invariant, under every fault and without faults.
\<close>

section \<open>Keys and their files\<close>

definition has_data :: "string \<Rightarrow> bool" where
  "has_data n \<longleftrightarrow> Index n ''.data'' \<noteq> None"

definition dir_name :: "string \<Rightarrow> bool" where
  "dir_name n \<longleftrightarrow> plain_name n \<and> \<not> has_data n"

definition file_name :: "string \<Rightarrow> bool" where
  "file_name n \<longleftrightarrow> plain_name n \<and> has_data n"

definition key_dir :: "string \<Rightarrow> path" where
  "key_dir k = butlast (Split k (CHR ''/''))"

definition key_base :: "string \<Rightarrow> string" where
  "key_base k = last (Split k (CHR ''/'')) @ ''.data''"

definition key_names :: "string \<Rightarrow> path" where
  "key_names k = key_dir k @ [key_base k]"

text \<open>A clean relative path, none of whose directories looks like a file of the driver.\<close>

definition good_key :: "string \<Rightarrow> bool" where
  "good_key k \<longleftrightarrow> (\<forall>n \<in> set (Split k (CHR ''/'')). plain_name n) \<and> (\<forall>n \<in> set (key_dir k). dir_name n)"

lemma Index_prefix: "prefix sub s \<Longrightarrow> Index s sub = Some 0"
  by (cases s) auto

lemma Index_infix: "Index (a @ sub @ b) sub \<noteq> None"
  by (induction a) (auto simp: Index_prefix)

lemma has_data_append: "has_data (a @ ''.data'' @ b)"
  using Index_infix [of a "''.data''" b] unfolding has_data_def .

lemma plain_name_append:
  "plain_name n \<Longrightarrow> CHR ''/'' \<notin> set w \<Longrightarrow> CHR 0x00 \<notin> set w \<Longrightarrow> 2 < length w \<Longrightarrow> plain_name (n @ w)"
  by (auto simp: plain_name_def append_eq_Cons_conv)

lemma key_names_inject: "key_names k = key_names k' \<longleftrightarrow> k = k'"
proof
  assume "key_names k = key_names k'"
  then have "Split k (CHR ''/'') = Split k' (CHR ''/'')"
    by (simp add: key_names_def key_dir_def key_base_def) (metis Split_not_Nil append_butlast_last_id)
  then show "k = k'" by (metis Join_Split)
qed simp

lemma good_keyD:
  assumes "good_key k"
  shows "\<forall>n \<in> set (key_dir k). dir_name n" "plain_name (last (Split k (CHR ''/'')))"
    "file_name (key_base k)" "\<forall>n \<in> set (key_names k). plain_name n"
proof -
  show dirs: "\<forall>n \<in> set (key_dir k). dir_name n" using assms by (simp add: good_key_def)
  show lst: "plain_name (last (Split k (CHR ''/'')))" using assms by (simp add: good_key_def)
  have "has_data (key_base k)"
    using has_data_append [of "last (Split k (CHR ''/''))" "[]"] by (simp add: key_base_def)
  then show base: "file_name (key_base k)"
    using plain_name_append [OF lst, of "''.data''"] by (simp add: file_name_def key_base_def)
  then show "\<forall>n \<in> set (key_names k). plain_name n"
    using dirs by (auto simp: key_names_def file_name_def dir_name_def)
qed

lemma Split_key_data: "Split (k @ ''.data'') (CHR ''/'') = key_names k"
  by (simp add: Split_append_name key_names_def key_dir_def key_base_def)

lemma path_Clean_good: "good_key k \<Longrightarrow> path_Clean k = k"
proof -
  assume good: "good_key k"
  then have all: "\<forall>n \<in> set (Split k (CHR ''/'')). plain_name n" by (simp add: good_key_def)
  then have names: "path_names k = Split k (CHR ''/'')"
    by (simp add: path_names_def clean_names_def fold_clean_plain)
  have "\<not> IsAbs k"
  proof
    assume "IsAbs k"
    then have "[] \<in> set (Split k (CHR ''/''))" by (cases k) auto
    with all show False by (auto simp: plain_name_def)
  qed
  with names show ?thesis by (simp add: path_Clean_def)
qed

definition root_ok :: "FsDriver \<Rightarrow> bool" where
  "root_ok d \<longleftrightarrow> rootDir d \<noteq> [] \<and> CHR 0x00 \<notin> set (rootDir d)"

lemma keyToPath_good:
  assumes "good_key k" and "root_ok d"
  shows "keyToPath d k = path_Clean (rootDir d @ CHR ''/'' # k @ ''.data'')"
  using assms by (simp add: keyToPath_def path_Join_def path_Clean_good root_ok_def)

lemma path_Clean_nonempty [simp]: "path_Clean p \<noteq> []"
proof -
  have "Join (path_names p) ''/'' \<noteq> []" if "path_names p \<noteq> []"
    using that path_names_slash [of "hd (path_names p)" p] Join_first [OF that, of "''/''"] by auto
  then show ?thesis by (auto simp: path_Clean_def)
qed

lemma bad_path_Clean: "CHR 0x00 \<notin> set p \<Longrightarrow> bad_path (path_Clean p) = None"
  using set_path_Clean [of p] by (auto simp: bad_path_def)

lemma show_int_clean: "CHR ''/'' \<notin> set (show_int i)" "CHR 0x00 \<notin> set (show_int i)"
  using show_int_chars [of _ i] by fastforce+

lemma NUL_key:
  assumes good: "good_key k" and root: "root_ok d"
  shows "CHR 0x00 \<notin> set (k @ ''.data'')"
proof -
  have "set (Join ns ''/'') \<subseteq> \<Union> (set ` set ns) \<union> {CHR ''/''}" for ns
    by (induction ns "''/''" rule: Join.induct) auto
  from this [of "Split k (CHR ''/'')"] good show ?thesis
    by (auto simp: good_key_def plain_name_def)
qed

lemma resolve_keyToPath:
  assumes good: "good_key k" and root: "root_ok d"
  shows "resolve os (keyToPath d k) = resolve os (rootDir d) @ key_names k"
  using good root good_keyD(4) [OF good]
  by (simp add: keyToPath_good resolve_append Split_key_data root_ok_def)

lemma last_keyToPath:
  assumes good: "good_key k" and root: "root_ok d"
  shows "last (Split (keyToPath d k) (CHR ''/'')) = key_base k"
proof -
  have "path_names (rootDir d @ CHR ''/'' # k @ ''.data'') = path_names (rootDir d) @ key_names k"
    using root good_keyD(4) [OF good] by (simp add: path_names_append Split_key_data root_ok_def)
  then show ?thesis
    by (simp add: keyToPath_good [OF good root] Split_path_Clean key_names_def)
qed

lemma bad_keyToPath:
  assumes good: "good_key k" and root: "root_ok d"
  shows "bad_path (keyToPath d k) = None"
  using NUL_key [OF good root] root by (simp add: keyToPath_good [OF good root] bad_path_Clean root_ok_def)

lemma resolve_keyDir:
  assumes good: "good_key k" and root: "root_ok d"
  shows "resolve os (path_Dir (keyToPath d k)) = resolve os (rootDir d) @ key_dir k"
  using resolve_Dir(1) [of "keyToPath d k" os] good_keyD(3) [OF good]
  by (simp add: last_keyToPath [OF good root] file_name_def
      resolve_keyToPath [OF good root] key_names_def butlast_append)

lemma bad_keyDir:
  assumes good: "good_key k" and root: "root_ok d"
  shows "bad_path (path_Dir (keyToPath d k)) = None"
proof -
  have "CHR 0x00 \<notin> set (rev (dropWhile (\<lambda>c. c \<noteq> CHR ''/'') (rev (keyToPath d k))))"
    using bad_keyToPath [OF good root] set_dropWhileD by (fastforce simp: bad_path_def split: if_splits)
  then show ?thesis by (simp add: path_Dir_def bad_path_Clean)
qed

lemma resolve_tmp:
  assumes good: "good_key k" and root: "root_ok d"
  shows "resolve os (tmp_path (keyToPath d k) t) =
     resolve os (rootDir d) @ key_dir k @ [key_base k @ ''.tmp.'' @ show_int t]"
proof -
  note lst = last_keyToPath [OF good root]
  have "plain_name (key_base k)" "plain_name (key_base k @ ''.tmp.'' @ show_int t)"
    using plain_name_append [of "key_base k" "''.tmp.'' @ show_int t"] good_keyD(3) [OF good] show_int_clean
    by (simp_all add: file_name_def)
  moreover have "keyToPath d k \<noteq> []" by (simp add: keyToPath_good [OF good root])
  ultimately show ?thesis
    using resolve_append_name [of "keyToPath d k" "''.tmp.'' @ show_int t" os]
    by (simp add: lst tmp_path_def resolve_keyToPath [OF good root] key_names_def butlast_append)
qed

lemma bad_tmp:
  assumes good: "good_key k" and root: "root_ok d"
  shows "bad_path (tmp_path (keyToPath d k) t) = None"
  using bad_keyToPath [OF good root] show_int_clean(2) [of t] by (auto simp: tmp_path_def bad_path_def split: if_splits)

section \<open>The shape of the tree below the root\<close>

definition tree_ok :: "path \<Rightarrow> OS \<Rightarrow> bool" where
  "tree_ok R os \<longleftrightarrow> wf_map (os_files os) \<and> os_dir os R \<and>
     (\<forall>q r. os_file os q \<noteq> None \<and> strict_prefix r q \<longrightarrow> os_dir os r) \<and>
     (\<forall>q r. os_dir os q \<and> prefix r q \<longrightarrow> os_dir os r) \<and>
     (\<forall>q. os_dir os q \<longrightarrow> os_file os q = None) \<and>
     (\<forall>q. os_dir os (R @ q) \<longrightarrow> (\<forall>n \<in> set q. dir_name n)) \<and>
     (\<forall>q. os_file os (R @ q) \<noteq> None \<longrightarrow> q \<noteq> [] \<and> (\<forall>n \<in> set (butlast q). dir_name n) \<and> file_name (last q))"

lemma tree_okD:
  assumes "tree_ok R os"
  shows "wf_map (os_files os)" "os_dir os R"
    "os_file os q \<noteq> None \<Longrightarrow> strict_prefix r q \<Longrightarrow> os_dir os r"
    "os_dir os q \<Longrightarrow> prefix r q \<Longrightarrow> os_dir os r"
    "os_dir os q \<Longrightarrow> os_file os q = None"
    "os_dir os (R @ q) \<Longrightarrow> n \<in> set q \<Longrightarrow> dir_name n"
    "os_file os (R @ q) \<noteq> None \<Longrightarrow> q \<noteq> []"
    "os_file os (R @ q) \<noteq> None \<Longrightarrow> n \<in> set (butlast q) \<Longrightarrow> dir_name n"
    "os_file os (R @ q) \<noteq> None \<Longrightarrow> file_name (last q)"
  using assms unfolding tree_ok_def by metis+

lemma tree_okI:
  assumes "wf_map (os_files os)" and "os_dir os R"
    and "\<And>q r. os_file os q \<noteq> None \<Longrightarrow> strict_prefix r q \<Longrightarrow> os_dir os r"
    and "\<And>q r. os_dir os q \<Longrightarrow> prefix r q \<Longrightarrow> os_dir os r"
    and "\<And>q. os_dir os q \<Longrightarrow> os_file os q = None"
    and "\<And>q n. os_dir os (R @ q) \<Longrightarrow> n \<in> set q \<Longrightarrow> dir_name n"
    and "\<And>q. os_file os (R @ q) \<noteq> None \<Longrightarrow>
      q \<noteq> [] \<and> (\<forall>n \<in> set (butlast q). dir_name n) \<and> file_name (last q)"
  shows "tree_ok R os"
  unfolding tree_ok_def using assms by (intro conjI allI impI ballI; blast)

definition same_env :: "OS \<Rightarrow> OS \<Rightarrow> bool" where
  "same_env os os' \<longleftrightarrow> os_cwd os' = os_cwd os \<and> os_fault os' = os_fault os"

definition no_fault :: "OS \<Rightarrow> bool" where
  "no_fault os \<longleftrightarrow> (\<forall>n p. os_fault os n p = None)"

lemma same_env_refl [simp]: "same_env os os"
  by (simp add: same_env_def)

lemma same_env_trans: "same_env a b \<Longrightarrow> same_env b c \<Longrightarrow> same_env a c"
  by (simp add: same_env_def)

lemma same_env_resolve: "same_env os os' \<Longrightarrow> resolve os' = resolve os"
  by (simp add: same_env_def resolve_def fun_eq_iff)

lemma same_env_no_fault: "same_env os os' \<Longrightarrow> no_fault os' = no_fault os"
  by (simp add: same_env_def no_fault_def)

lemma same_env_simps [simp]:
  "same_env os (called os') = same_env os os'" "same_env os (set_file p f os') = same_env os os'"
  "same_env os (drop_file p os') = same_env os os'" "same_env os (add_dirs ps os') = same_env os os'"
  "same_env os (snd (Now os')) = same_env os os'"
  by (simp_all add: same_env_def called_def set_file_def drop_file_def add_dirs_def Now_def)

lemma os_file_simps [simp]:
  "os_file (called os) = os_file os" "os_file (set_file p f os) = (os_file os)(p \<mapsto> f)"
  "os_file (drop_file p os) = (os_file os)(p := None)" "os_file (add_dirs ps os) = os_file os"
  "os_file (snd (Now os)) = os_file os"
  by (simp_all add: os_file_def called_def set_file_def drop_file_def add_dirs_def Now_def fun_eq_iff)

lemma os_dir_simps [simp]:
  "os_dir (called os) = os_dir os" "os_dir (set_file p f os) = os_dir os"
  "os_dir (drop_file p os) = os_dir os" "os_dir (add_dirs ps os) q \<longleftrightarrow> q \<in> set ps \<or> os_dir os q"
  "os_dir (snd (Now os)) = os_dir os"
  by (auto simp: os_dir_def called_def set_file_def drop_file_def add_dirs_def Now_def fun_eq_iff)

lemma wf_files_simps [simp]:
  "os_files (called os) = os_files os" "os_files (add_dirs ps os) = os_files os"
  "os_files (snd (Now os)) = os_files os"
  "wf_map (os_files os) \<Longrightarrow> wf_map (os_files (set_file p f os))"
  "wf_map (os_files os) \<Longrightarrow> wf_map (os_files (drop_file p os))"
  by (simp_all add: called_def set_file_def drop_file_def add_dirs_def Now_def)

lemma tree_ok_cong:
  "os_files os' = os_files os \<Longrightarrow> os_dir os' = os_dir os \<Longrightarrow> tree_ok R os' = tree_ok R os"
  by (simp add: tree_ok_def os_file_def)

lemma tree_ok_called [simp]: "tree_ok R (called os) = tree_ok R os" "tree_ok R (snd (Now os)) = tree_ok R os"
  by (rule tree_ok_cong; simp)+

lemma not_dir_of_file_name:
  assumes "tree_ok R os" and "file_name f"
  shows "\<not> os_dir os (R @ ds @ [f])"
  using tree_okD(6) [OF assms(1), of "ds @ [f]" f] assms(2) by (auto simp: dir_name_def file_name_def)

lemma no_file_above:
  assumes "tree_ok R os" and "\<forall>n \<in> set ds. dir_name n" and "prefix r (R @ ds)"
  shows "os_file os r = None"
proof (cases "prefix r R")
  case True
  then show ?thesis using tree_okD(4,5) [OF assms(1)] tree_okD(2) [OF assms(1)] by blast
next
  case False
  then obtain q where q: "r = R @ q" "prefix q ds" using assms(3) by (auto simp: prefix_append)
  show ?thesis
  proof (rule ccontr)
    assume "os_file os r \<noteq> None"
    then have "q \<noteq> []" "file_name (last q)" using tree_okD(7,9) [OF assms(1)] q(1) by auto
    moreover have "set q \<subseteq> set ds" using q(2) by (rule set_mono_prefix)
    ultimately have "dir_name (last q)" using assms(2) last_in_set by blast
    with \<open>file_name (last q)\<close> show False by (simp add: dir_name_def file_name_def)
  qed
qed

lemma tree_ok_add_dirs:
  assumes "tree_ok R os" and "\<forall>n \<in> set ds. dir_name n" and "prefix t (R @ ds)"
  shows "tree_ok R (add_dirs (prefixes t) os)"
proof -
  note ok = tree_okD [OF assms(1)]
  have dirs: "dir_name n" if "prefix (R @ q) t" "n \<in> set q" for q n
  proof -
    have "prefix q ds" using that(1) assms(3) by (metis prefix_order.trans same_prefix_prefix)
    then show ?thesis using assms(2) that(2) set_mono_prefix by blast
  qed
  have files: "os_file os q = None" if "prefix q t" for q
    using that assms no_file_above prefix_order.trans by blast
  show ?thesis
  proof (rule tree_okI, goal_cases)
    case (3 q r)
    then show ?case using ok(3) by simp
  next
    case (4 q r)
    then show ?case using ok(4) prefix_order.trans by (auto simp del: prefix_order.trans)
  next
    case (6 q n)
    then show ?case using ok(6) dirs by auto
  next
    case (7 q)
    then show ?case using ok(7,8,9) by simp
  qed (use ok(1,2,5) files in auto)
qed

lemma tree_ok_set_file:
  assumes "tree_ok R os" and "\<forall>n \<in> set ds. dir_name n" and "file_name f" and "os_dir os (R @ ds)"
  shows "tree_ok R (set_file (R @ ds @ [f]) c os)"
proof -
  note ok = tree_okD [OF assms(1)]
  have nd: "\<not> os_dir os (R @ ds @ [f])" by (rule not_dir_of_file_name [OF assms(1,3)])
  have "os_dir os r" if "strict_prefix r (R @ ds @ [f])" for r
  proof -
    have "prefix r (R @ ds)" using that by (metis append_assoc prefix_snoc strict_prefix_def)
    then show ?thesis using ok(4) assms(4) by blast
  qed
  note above = this
  show ?thesis
  proof (rule tree_okI, goal_cases)
    case (3 q r)
    then show ?case using ok(3) above by (cases "q = R @ ds @ [f]") simp_all
  next
    case (4 q r)
    then show ?case using ok(4) by simp
  next
    case (5 q)
    then show ?case using ok(5) nd by (cases "q = R @ ds @ [f]") simp_all
  next
    case (6 q n)
    then show ?case using ok(6) by simp
  next
    case (7 q)
    then show ?case using ok(7-9) assms(2,3) by (cases "q = ds @ [f]") simp_all
  qed (use ok(1,2) in simp_all)
qed

lemma tree_ok_drop_file:
  assumes "tree_ok R os"
  shows "tree_ok R (drop_file p os)"
proof -
  note ok = tree_okD [OF assms]
  show ?thesis
  proof (rule tree_okI, goal_cases)
    case (3 q r)
    then show ?case using ok(3) by (cases "q = p") simp_all
  next
    case (4 q r)
    then show ?case using ok(4) by simp
  next
    case (6 q n)
    then show ?case using ok(6) by simp
  next
    case (7 q)
    then show ?case using ok(7-9) by (cases "R @ q = p") simp_all
  qed (use ok(1,2,5) in simp_all)
qed

section \<open>What the calls of the driver do to the tree\<close>

lemma syscall_fault_none: "no_fault os \<Longrightarrow> bad_path p = None \<Longrightarrow> syscall_fault os p = None"
  by (simp add: syscall_fault_def no_fault_def)

lemma ReadFile_state [simp]: "snd (ReadFile os p) = called os"
  by (auto simp: ReadFile_def Let_def split: option.splits)

lemma Stat_state [simp]: "snd (Stat os p) = called os"
  by (auto simp: Stat_def Let_def split: option.splits)

lemma ReadFile_result:
  "fst (ReadFile os p) = Inr data \<Longrightarrow> \<exists>t. os_file os (resolve os p) = Some (data, t)"
  by (auto simp: ReadFile_def Let_def split: option.splits if_splits)

lemma ReadFile_found:
  "no_fault os \<Longrightarrow> bad_path p = None \<Longrightarrow> os_file os (resolve os p) = Some (data, t) \<Longrightarrow>
   fst (ReadFile os p) = Inr data"
  by (simp add: ReadFile_def Let_def syscall_fault_none)

lemma Stat_result:
  assumes "fst (Stat os p) = Inr info" and "\<not> os_dir os (resolve os p)"
  shows "\<exists>data. os_file os (resolve os p) = Some (data, fi_modTime info)"
  using assms by (auto simp: Stat_def Let_def split: option.splits if_splits)

lemma Stat_found:
  assumes "no_fault os" and "bad_path p = None" and "os_file os (resolve os p) = Some (data, t)"
  shows "fst (Stat os p) = Inr \<lparr>fi_size = int (length data), fi_modTime = t, fi_isDir = False\<rparr>"
  using assms by (simp add: Stat_def Let_def syscall_fault_none)

lemma MkdirAll_effect:
  assumes "tree_ok R os" and "resolve os p = R @ ds" and "\<forall>n \<in> set ds. dir_name n"
    and "MkdirAll os p = (e, os')"
  shows "tree_ok R os'" "os_file os' = os_file os" "same_env os os'"
    "e = None \<Longrightarrow> os_dir os' (R @ ds)" "no_fault os \<Longrightarrow> bad_path p = None \<Longrightarrow> e = None"
proof -
  have nofile: "\<not> (\<exists>r \<in> set (prefixes (R @ ds)). os_file os r \<noteq> None)"
    using no_file_above [OF assms(1,3)] by (auto simp: in_set_prefixes)
  have add: "tree_ok R (add_dirs (prefixes (take n (R @ ds))) (called os))" for n
    using tree_ok_add_dirs [of R "called os" ds "take n (R @ ds)"] assms(1,3) take_is_prefix [of n "R @ ds"]
    by (simp del: take_append)
  from add [of "length (R @ ds)"] have all: "tree_ok R (add_dirs (prefixes (R @ ds)) (called os))" by simp
  note cases = assms(4) [unfolded MkdirAll_def assms(2) Let_def]
  show "tree_ok R os'" using cases nofile add all assms(1) by (auto split: if_splits option.splits)
  show "os_file os' = os_file os" using cases by (auto split: if_splits option.splits)
  show "same_env os os'" using cases by (auto split: if_splits option.splits)
  show "os_dir os' (R @ ds)" if "e = None" using cases that by (auto simp: in_set_prefixes split: if_splits option.splits)
  show "e = None" if "no_fault os" "bad_path p = None"
    using cases nofile that by (simp add: syscall_fault_none)
qed

lemma WriteFile_effect:
  assumes "tree_ok R os" and "resolve os p = R @ ds @ [f]" and "\<forall>n \<in> set ds. dir_name n"
    and "file_name f" and "WriteFile os p data = (e, os')"
  shows "tree_ok R os'" "\<And>q. q \<noteq> R @ ds @ [f] \<Longrightarrow> os_file os' q = os_file os q" "same_env os os'"
    "os_dir os' = os_dir os" "e = None \<Longrightarrow> \<exists>t. os_file os' (R @ ds @ [f]) = Some (data, t)"
    "no_fault os \<Longrightarrow> bad_path p = None \<Longrightarrow> os_dir os (R @ ds) \<Longrightarrow> e = None"
proof -
  have bl: "butlast (R @ ds @ [f]) = R @ ds" by (simp add: butlast_append)
  have nd: "\<not> os_dir os (R @ ds @ [f])" by (rule not_dir_of_file_name [OF assms(1,4)])
  have set_ok: "tree_ok R (set_file (R @ ds @ [f]) c (snd (Now (called os))))" if "os_dir os (R @ ds)" for c
    using tree_ok_set_file [of R "snd (Now (called os))" ds f c] assms(1,3,4) that by simp
  note cases = assms(5) [unfolded WriteFile_def assms(2) Let_def bl case_prod_unfold]
  note split = if_splits option.splits nat.splits prod.splits
  show "tree_ok R os'" using cases set_ok assms(1) by (auto split: split)
  show "os_file os' q = os_file os q" if "q \<noteq> R @ ds @ [f]" for q using cases that by (auto split: split)
  show "same_env os os'" using cases by (auto split: split)
  show "os_dir os' = os_dir os" using cases by (auto split: split)
  show "\<exists>t. os_file os' (R @ ds @ [f]) = Some (data, t)" if "e = None" using cases that by (auto split: split)
  show "e = None" if "no_fault os" "bad_path p = None" "os_dir os (R @ ds)"
    using cases nd that by (simp add: syscall_fault_none)
qed

lemma Rename_effect:
  assumes "tree_ok R os" and "resolve os old = R @ ds @ [g]" and "resolve os new = R @ ds @ [f]"
    and "\<forall>n \<in> set ds. dir_name n" and "file_name f" and "Rename os old new = (e, os')" and "g \<noteq> f"
  shows "tree_ok R os'" "\<And>q. q \<noteq> R @ ds @ [f] \<Longrightarrow> q \<noteq> R @ ds @ [g] \<Longrightarrow> os_file os' q = os_file os q"
    "same_env os os'" "e \<noteq> None \<Longrightarrow> os_file os' = os_file os"
    "e = None \<Longrightarrow> os_file os' (R @ ds @ [f]) = os_file os (R @ ds @ [g])"
    "e = None \<Longrightarrow> os_file os (R @ ds @ [g]) \<noteq> None"
    "no_fault os \<Longrightarrow> bad_path old = None \<Longrightarrow> bad_path new = None \<Longrightarrow> os_dir os (R @ ds) \<Longrightarrow>
      os_file os (R @ ds @ [g]) \<noteq> None \<Longrightarrow> e = None"
proof -
  have bl: "butlast (R @ ds @ [f]) = R @ ds" by (simp add: butlast_append)
  have nd: "\<not> os_dir os (R @ ds @ [f])" by (rule not_dir_of_file_name [OF assms(1,5)])
  have moved: "tree_ok R (set_file (R @ ds @ [f]) c (drop_file (R @ ds @ [g]) (called os)))"
    if "os_dir os (R @ ds)" for c
    using tree_ok_set_file [of R "drop_file (R @ ds @ [g]) (called os)" ds f c] assms(1,4,5) that
    by (simp add: tree_ok_drop_file)
  note cases = assms(6) [unfolded Rename_def assms(2,3) Let_def bl]
  note split = if_splits option.splits prod.splits
  show "tree_ok R os'" using cases moved assms(1) by (auto split: split)
  show "os_file os' q = os_file os q" if "q \<noteq> R @ ds @ [f]" "q \<noteq> R @ ds @ [g]" for q
    using cases that by (auto split: split)
  show "same_env os os'" using cases by (auto split: split)
  show "os_file os' = os_file os" if "e \<noteq> None" using cases that by (auto split: split)
  show "os_file os' (R @ ds @ [f]) = os_file os (R @ ds @ [g])" if "e = None"
    using cases that by (auto split: split)
  show "os_file os (R @ ds @ [g]) \<noteq> None" if "e = None" using cases that by (auto split: split)
  show "e = None" if "no_fault os" "bad_path old = None" "bad_path new = None" "os_dir os (R @ ds)"
      "os_file os (R @ ds @ [g]) \<noteq> None"
    using cases nd that by (auto simp: syscall_fault_none)
qed

lemma Remove_effect:
  assumes "tree_ok R os" and "resolve os p = R @ ds @ [f]" and "file_name f" and "Remove os p = (e, os')"
  shows "tree_ok R os'" "\<And>q. q \<noteq> R @ ds @ [f] \<Longrightarrow> os_file os' q = os_file os q" "same_env os os'"
    "e = None \<Longrightarrow> os_file os' (R @ ds @ [f]) = None" "e \<noteq> None \<Longrightarrow> os_file os' = os_file os"
    "no_fault os \<Longrightarrow> bad_path p = None \<Longrightarrow> os_file os (R @ ds @ [f]) \<noteq> None \<Longrightarrow> e = None"
proof -
  have nd: "\<not> os_dir os (R @ ds @ [f])" by (rule not_dir_of_file_name [OF assms(1,3)])
  note cases = assms(4) [unfolded Remove_def assms(2) Let_def]
  note split = if_splits option.splits prod.splits
  show "tree_ok R os'" using cases nd assms(1) tree_ok_drop_file by (auto split: split)
  show "os_file os' q = os_file os q" if "q \<noteq> R @ ds @ [f]" for q using cases nd that by (auto split: split)
  show "same_env os os'" using cases nd by (auto split: split)
  show "os_file os' (R @ ds @ [f]) = None" if "e = None" using cases nd that by (auto split: split)
  show "os_file os' = os_file os" if "e \<noteq> None" using cases nd that by (auto split: split)
  show "e = None" if "no_fault os" "bad_path p = None" "os_file os (R @ ds @ [f]) \<noteq> None"
    using cases that by (auto simp: syscall_fault_none)
qed

end
