(* ===== verification/FsProps.thy ===== *)
theory FsProps
  imports FsTree
begin

text \<open>
  What the filesystem driver promises. For keys that are clean relative paths it meets the
  contract of the interface under every fault of the operating system, and the exact
  compare-and-swap contract without faults. Its listing, and what other keys and failing calls do,
  are in the theory \<open>FsList\<close>.
\<close>

section \<open>Abstractions\<close>

definition fs_root :: "FsDriver \<Rightarrow> path" where
  "fs_root d = resolve (fs_os d) (rootDir d)"

definition fs_file :: "FsDriver \<Rightarrow> string \<Rightarrow> (bytes \<times> gotime) option" where
  "fs_file d k = os_file (fs_os d) (fs_root d @ key_names k)"

definition fs_stored :: "(bytes \<Rightarrow> bytes) \<Rightarrow> FsDriver \<Rightarrow> string \<Rightarrow> doc option" where
  "fs_stored sha d k = map_option (\<lambda>(data, t). (data, fs_generateETag sha data t)) (fs_file d k)"

definition fs_ok :: "FsDriver \<Rightarrow> bool" where
  "fs_ok d \<longleftrightarrow> root_ok d \<and> tree_ok (fs_root d) (fs_os d)"

definition fs_quiet :: "FsDriver \<Rightarrow> bool" where
  "fs_quiet d \<longleftrightarrow> fs_ok d \<and> no_fault (fs_os d)"

section \<open>Writing a file\<close>

text \<open>A step that no reader of the documents can see.\<close>

definition silent :: "path \<Rightarrow> OS \<Rightarrow> OS \<Rightarrow> bool" where
  "silent R os os' \<longleftrightarrow> tree_ok R os' \<and> same_env os os' \<and>
     (\<forall>k. os_file os' (R @ key_names k) = os_file os (R @ key_names k))"

lemma silent_called [simp]: "silent R os (called os') = silent R os os'"
  by (simp add: silent_def)

lemma silent_refl: "tree_ok R os \<Longrightarrow> silent R os os"
  by (simp add: silent_def)

lemma silent_trans: "silent R a b \<Longrightarrow> silent R b c \<Longrightarrow> silent R a c"
  by (auto simp: silent_def intro: same_env_trans)

lemma last_show_int: "last (show_int i) \<noteq> CHR ''a''"
proof -
  have "show_int i \<noteq> []" by (simp add: show_int_def)
  then show ?thesis using show_int_chars [of "last (show_int i)" i] by (auto simp: last_in_set)
qed

lemma tmp_not_key:
  "key_dir k @ [key_base k @ ''.tmp.'' @ show_int t] \<noteq> key_names k'"
proof
  assume "key_dir k @ [key_base k @ ''.tmp.'' @ show_int t] = key_names k'"
  then have "last (key_base k @ ''.tmp.'' @ show_int t) = last (key_base k')"
    by (simp add: key_names_def)
  then have "last (show_int t) = CHR ''a''"
    by (simp add: key_base_def show_int_def split: if_splits)
  then show False using last_show_int by simp
qed

lemma tmp_file_name:
  assumes "good_key k"
  shows "file_name (key_base k @ ''.tmp.'' @ show_int t)"
proof -
  have "plain_name (key_base k @ ''.tmp.'' @ show_int t)"
    using plain_name_append [of "key_base k" "''.tmp.'' @ show_int t"] good_keyD(3) [OF assms] show_int_clean
    by (simp add: file_name_def)
  moreover have "has_data (key_base k @ ''.tmp.'' @ show_int t)"
    using has_data_append [of "last (Split k (CHR ''/''))" "''.tmp.'' @ show_int t"] by (simp add: key_base_def)
  ultimately show ?thesis by (simp add: file_name_def)
qed

text \<open>
  The effect of a write of \<open>v\<close> at key \<open>k\<close>: every other document is as before, the document is
  the old one or the new one, and what is returned is the new one.
\<close>

definition write_effect ::
  "(bytes \<Rightarrow> bytes) \<Rightarrow> path \<Rightarrow> string \<Rightarrow> bytes \<Rightarrow> OS \<Rightarrow> (gerror + Object option) \<times> OS \<Rightarrow> bool" where
  "write_effect sha R k v os res \<longleftrightarrow>
     (let (r, os') = res; file = (\<lambda>os k. os_file os (R @ key_names k)) in
      tree_ok R os' \<and> same_env os os' \<and>
      (\<forall>k'. k' \<noteq> k \<longrightarrow> file os' k' = file os k') \<and>
      (file os' k = file os k \<or> (\<exists>t. file os' k = Some (v, t))) \<and>
      (r \<noteq> Inr None) \<and>
      (\<forall>obj. r = Inr (Some obj) \<longrightarrow> (\<exists>t. file os' k = Some (v, t) \<and>
         obj = \<lparr>oKey = k, oValue = v, oETag = fs_generateETag sha v t, oModTime = t, oMetadata = []\<rparr>)) \<and>
      (no_fault os \<longrightarrow> (\<exists>obj. r = Inr (Some obj))))"

lemma write_effect_failed:
  "silent R os os' \<Longrightarrow> \<not> no_fault os \<Longrightarrow> write_effect sha R k v os (Inl err, os')"
  by (simp add: write_effect_def silent_def)

lemma write_effect_silent:
  assumes "silent R os os1" and "write_effect sha R k v os1 res"
  shows "write_effect sha R k v os res"
  using assms same_env_trans [of os os1] same_env_no_fault [of os os1]
  by (simp add: write_effect_def silent_def Let_def split: prod.splits)

lemma rename_effect:
  assumes good: "good_key k" and root: "root_ok d" and tree: "tree_ok R os" and R: "R = resolve os (rootDir d)"
    and tmp: "os_file os (R @ key_dir k @ [key_base k @ ''.tmp.'' @ show_int now]) = Some (v, t)"
    and ren: "Rename os (tmp_path (keyToPath d k) now) (keyToPath d k) = (e, os')"
  shows "tree_ok R os'" "same_env os os'" "k' \<noteq> k \<Longrightarrow> os_file os' (R @ key_names k') = os_file os (R @ key_names k')"
    "e \<noteq> None \<Longrightarrow> os_file os' = os_file os"
    "e = None \<Longrightarrow> os_file os' (R @ key_names k) = Some (v, t)"
    "no_fault os \<Longrightarrow> e = None"
proof -
  let ?g = "key_base k @ ''.tmp.'' @ show_int now"
  have dir: "os_dir os (R @ key_dir k)"
    using tree_okD(3) [OF tree, of "R @ key_dir k @ [?g]" "R @ key_dir k"] tmp
    by (simp add: strict_prefix_def)
  have paths: "resolve os (tmp_path (keyToPath d k) now) = R @ key_dir k @ [?g]"
    "resolve os (keyToPath d k) = R @ key_dir k @ [key_base k]"
    using resolve_tmp [OF good root] resolve_keyToPath [OF good root] by (simp_all add: R key_names_def)
  note eff = Rename_effect [OF tree paths good_keyD(1) [OF good] good_keyD(3) [OF good] ren]
  show "tree_ok R os'" "same_env os os'" "e \<noteq> None \<Longrightarrow> os_file os' = os_file os" using eff by simp_all
  show "os_file os' (R @ key_names k') = os_file os (R @ key_names k')" if "k' \<noteq> k"
    using eff(2) [of "R @ key_names k'"] that tmp_not_key [of k now k'] key_names_inject [of k' k]
    by (auto simp: key_names_def)
  show "os_file os' (R @ key_names k) = Some (v, t)" if "e = None"
    using eff(5) that tmp by (simp add: key_names_def)
  show "e = None" if "no_fault os"
    using eff(7) that tmp dir bad_tmp [OF good root] bad_keyToPath [OF good root] by simp
qed

lemma not_dir_key:
  assumes "good_key k" and "root_ok d" and "tree_ok R os" and "R = resolve os (rootDir d)"
  shows "\<not> os_dir os (resolve os (keyToPath d k))"
  using not_dir_of_file_name [OF assms(3) good_keyD(3) [OF assms(1)], of "key_dir k"] assms(4)
  by (simp add: resolve_keyToPath [OF assms(1,2)] key_names_def)

text \<open>The part of a write after the temporary file is complete.\<close>

lemma commit_effect:
  assumes good: "good_key k" and root: "root_ok d" and tree: "tree_ok R os" and R: "R = resolve os (rootDir d)"
    and tmp: "os_file os (R @ key_dir k @ [key_base k @ ''.tmp.'' @ show_int now]) = Some (v, t)"
  shows "write_effect sha R k v os
    (case Rename os (tmp_path (keyToPath d k) now) (keyToPath d k) of
       (Some err, os4) \<Rightarrow> (Inl (m1 err), snd (Remove os4 (tmp_path (keyToPath d k) now)))
     | (None, os4) \<Rightarrow>
         (case Stat os4 (keyToPath d k) of
            (Inl err, os5) \<Rightarrow> (Inl (m2 err), os5)
          | (Inr info, os5) \<Rightarrow>
              (Inr (Some \<lparr>oKey = k, oValue = v, oETag = fs_generateETag sha v (fi_modTime info),
                 oModTime = fi_modTime info, oMetadata = []\<rparr>), os5)))"
proof -
  let ?tmp = "tmp_path (keyToPath d k) now" and ?p = "keyToPath d k"
  obtain e os4 where ren: "Rename os ?tmp ?p = (e, os4)" by fastforce
  note eff = rename_effect [OF good root tree R tmp ren]
  have R4: "R = resolve os4 (rootDir d)" using same_env_resolve [OF eff(2)] R by simp
  show ?thesis
  proof (cases e)
    case (Some err)
    obtain e5 os5 where rem: "Remove os4 ?tmp = (e5, os5)" by fastforce
    have "resolve os4 ?tmp = R @ key_dir k @ [key_base k @ ''.tmp.'' @ show_int now]"
      using resolve_tmp [OF good root] R4 by simp
    note gone = Remove_effect [OF eff(1) this tmp_file_name [OF good] rem]
    have "silent R os os5"
      using gone(1,3) gone(2) [of "R @ key_names k'" for k'] eff(2,4) Some tmp_not_key [of k now]
      by (auto simp: silent_def intro: same_env_trans) (metis same_append_eq)+
    moreover have "\<not> no_fault os" using eff(6) Some by auto
    ultimately show ?thesis using ren Some rem by (simp add: write_effect_failed)
  next
    case None
    have stored4: "os_file os4 (resolve os4 ?p) = Some (v, t)"
      using eff(5) None resolve_keyToPath [OF good root] R4 by simp
    show ?thesis
    proof (cases "fst (Stat os4 ?p)")
      case (Inl err)
      then have "Stat os4 ?p = (Inl err, called os4)" by (simp add: prod_eq_iff)
      moreover have "\<not> no_fault os"
        using Inl Stat_found [OF _ bad_keyToPath [OF good root] stored4] same_env_no_fault [OF eff(2)] by auto
      ultimately show ?thesis
        using ren None eff(1,2,3,5) by (simp add: write_effect_def)
    next
      case (Inr info)
      then have st: "Stat os4 ?p = (Inr info, called os4)" by (simp add: prod_eq_iff)
      have "fi_modTime info = t"
        using Stat_result [OF Inr not_dir_key [OF good root eff(1) R4]] stored4 by simp
      then show ?thesis using ren None st eff(1,2,3,5) by (simp add: write_effect_def)
    qed
  qed
qed

lemma fs_write_effect:
  assumes good: "good_key k" and root: "root_ok d" and tree: "tree_ok R os" and R: "R = resolve os (rootDir d)"
  shows "write_effect sha R k v os (fs_write sha os k (keyToPath d k) v)"
proof -
  let ?p = "keyToPath d k"
  obtain e1 os1 where mk: "MkdirAll os (path_Dir ?p) = (e1, os1)" by fastforce
  note dir = MkdirAll_effect [OF tree resolve_keyDir [OF good root, of os, folded R] good_keyD(1) [OF good] mk]
  define now os2 where "now = fst (Now os1)" and "os2 = snd (Now os1)"
  then have now: "Now os1 = (now, os2)" by simp
  have s2: "silent R os os2" "os_dir os2 = os_dir os1" using dir(1-3) by (simp_all add: silent_def os2_def)
  obtain e3 os3 where wr: "WriteFile os2 (tmp_path ?p now) v = (e3, os3)" by fastforce
  have env2: "resolve os2 = resolve os" "no_fault os2 = no_fault os"
    using s2(1) same_env_resolve same_env_no_fault by (auto simp: silent_def)
  have tmp: "resolve os2 (tmp_path ?p now) = R @ key_dir k @ [key_base k @ ''.tmp.'' @ show_int now]"
    using resolve_tmp [OF good root] R env2 by simp
  have tree2: "tree_ok R os2" using s2(1) by (simp add: silent_def)
  note wf = WriteFile_effect [OF tree2 tmp good_keyD(1) [OF good] tmp_file_name [OF good] wr]
  have s3: "silent R os2 os3"
    using wf(1,3) wf(2) [of "R @ key_names k'" for k'] tmp_not_key [of k now]
    by (auto simp: silent_def) (metis same_append_eq)+
  show ?thesis
  proof (cases e1)
    case (Some err)
    moreover have "silent R os os1" using dir(1-3) by (simp add: silent_def)
    moreover have "\<not> no_fault os" using dir(5) Some bad_keyDir [OF good root] by auto
    ultimately show ?thesis using mk by (simp add: fs_write_def write_effect_failed)
  next
    case None
    show ?thesis
    proof (cases e3)
      case (Some err)
      then have "\<not> no_fault os"
        using wf(6) bad_tmp [OF good root] dir(4) None s2(2) env2 by auto
      then show ?thesis
        using mk None now wr Some write_effect_failed silent_trans [OF s2(1) s3] by (simp add: fs_write_def Let_def)
    next
      case e3: None
      then obtain t where "os_file os3 (R @ key_dir k @ [key_base k @ ''.tmp.'' @ show_int now]) = Some (v, t)"
        using wf(5) by blast
      moreover have "R = resolve os3 (rootDir d)" using same_env_resolve [OF wf(3)] env2 R by simp
      ultimately have "write_effect sha R k v os3 (fs_write sha os k ?p v)"
        using commit_effect [OF good root wf(1), where now = now and v = v and sha = sha] mk None now wr e3
        by (simp add: fs_write_def Let_def)
      then show ?thesis using write_effect_silent silent_trans [OF s2(1) s3] by blast
    qed
  qed
qed

section \<open>The contracts of the interface\<close>

lemma fs_driver_simps [simp]:
  "dGet (fs_driver sha) = fs_Get sha" "dPut (fs_driver sha) = fs_Put sha"
  "dDelete (fs_driver sha) = fs_Delete sha" "dList (fs_driver sha) = fs_List sha"
  "dClose (fs_driver sha) = fs_Close"
  by (simp_all add: fs_driver_def)

lemma fs_okD:
  assumes "fs_ok d"
  shows "root_ok d" "tree_ok (fs_root d) (fs_os d)"
  using assms by (simp_all add: fs_ok_def)

lemma fs_root_update: "same_env (fs_os d) os' \<Longrightarrow> fs_root (d\<lparr>fs_os := os'\<rparr>) = fs_root d"
  by (simp add: fs_root_def same_env_resolve)

lemma fs_ok_update:
  assumes "fs_ok d" and "same_env (fs_os d) os'" and "tree_ok (fs_root d) os'"
  shows "fs_ok (d\<lparr>fs_os := os'\<rparr>)"
  using assms by (simp add: fs_ok_def fs_root_update root_ok_def)

lemma fs_update_called [simp]:
  "fs_ok (d\<lparr>fs_os := called os\<rparr>) = fs_ok (d\<lparr>fs_os := os\<rparr>)" "fs_ok (d\<lparr>fs_os := fs_os d\<rparr>) = fs_ok d"
  "fs_file (d\<lparr>fs_os := called os\<rparr>) = fs_file (d\<lparr>fs_os := os\<rparr>)"
  "fs_root (d\<lparr>fs_os := called os\<rparr>) = fs_root (d\<lparr>fs_os := os\<rparr>)"
  by (simp_all add: fs_ok_def fs_file_def fs_root_def root_ok_def resolve_def called_def
      tree_ok_def os_file_def os_dir_def fun_eq_iff)

lemma fs_stored_called [simp]: "fs_stored sha (d\<lparr>fs_os := called os\<rparr>) = fs_stored sha (d\<lparr>fs_os := os\<rparr>)"
  by (simp add: fs_stored_def fun_eq_iff)

lemma resolve_key:
  assumes "fs_ok d" and "good_key k"
  shows "resolve (fs_os d) (keyToPath d k) = fs_root d @ key_names k"
  using resolve_keyToPath [OF assms(2) fs_okD(1) [OF assms(1)]] by (simp add: fs_root_def)

lemma resolve_called [simp]: "resolve (called os) = resolve os"
  using same_env_resolve [of os "called os"] by simp

lemma no_fault_called [simp]: "no_fault (called os) = no_fault os"
  using same_env_no_fault [of os "called os"] by simp

lemma fs_os_self [simp]: "d\<lparr>fs_os := fs_os d\<rparr> = d"
  by simp

lemma fs_quiet_called [simp]: "fs_quiet (d\<lparr>fs_os := called os\<rparr>) = fs_quiet (d\<lparr>fs_os := os\<rparr>)"
  by (simp add: fs_quiet_def)

text \<open>What \<open>Stat\<close> and \<open>ReadFile\<close> tell about the document of a key.\<close>

lemma key_missing:
  assumes ok: "fs_ok d" and good: "good_key k" and none: "fs_file d k = None"
  shows "missing (fs_os d) (fs_root d @ key_names k) = ENOENT"
proof -
  have "os_file (fs_os d) q = None" if q: "prefix q (fs_root d @ key_names k)" for q
  proof (cases "q = fs_root d @ key_names k")
    case True
    then show ?thesis using none by (simp add: fs_file_def)
  next
    case False
    with q have "prefix q (fs_root d @ key_dir k)" unfolding key_names_def by (metis append_assoc prefix_snoc)
    then show ?thesis using no_file_above [OF fs_okD(2) [OF ok] good_keyD(1) [OF good]] by simp
  qed
  then show ?thesis by (auto simp: missing_def in_set_prefixes)
qed

lemma key_not_dir:
  assumes "fs_ok d" and "good_key k"
  shows "\<not> os_dir (fs_os d) (fs_root d @ key_names k)"
  using not_dir_key [OF assms(2) fs_okD [OF assms(1)]] resolve_key [OF assms] by (simp add: fs_root_def)

lemma key_no_fault:
  assumes "fs_quiet d" and "good_key k"
  shows "fs_ok d" "syscall_fault (fs_os d) (keyToPath d k) = None"
  using assms syscall_fault_none bad_keyToPath fs_okD(1) by (simp_all add: fs_quiet_def)

lemma missing_called [simp]: "missing (called os) = missing os"
  by (simp add: missing_def fun_eq_iff)

lemma keyToPath_called [simp]: "keyToPath (d\<lparr>fs_os := os\<rparr>) = keyToPath d"
  by (simp add: keyToPath_def fun_eq_iff)

text \<open>The information of a document's file; only its modification time is used by the methods.\<close>

abbreviation doc_info :: "bytes \<times> gotime \<Rightarrow> FileInfo" where
  "doc_info f \<equiv> \<lparr>fi_size = int (length (fst f)), fi_modTime = snd f, fi_isDir = False\<rparr>"

lemma key_Stat:
  assumes "fs_ok d" and "good_key k"
  shows "fst (Stat (fs_os d) (keyToPath d k)) = Inr info \<Longrightarrow> \<exists>f. fs_file d k = Some f \<and> info = doc_info f"
    "fs_quiet d \<Longrightarrow> fs_file d k = Some f \<Longrightarrow> fst (Stat (fs_os d) (keyToPath d k)) = Inr (doc_info f)"
    "fs_quiet d \<Longrightarrow> fs_file d k = None \<Longrightarrow> \<exists>err. fst (Stat (fs_os d) (keyToPath d k)) = Inl err \<and> IsNotExist err"
  using key_not_dir [OF assms] key_missing [OF assms] key_no_fault [of d k] resolve_key [OF assms] assms(2)
  by (auto simp: Stat_def Let_def fs_file_def IsNotExist_def split: option.splits prod.splits)

lemma key_ReadFile:
  assumes "fs_ok d" and "good_key k"
  shows "fst (ReadFile (fs_os d) (keyToPath d k)) = Inr data \<Longrightarrow> \<exists>t. fs_file d k = Some (data, t)"
    "fs_quiet d \<Longrightarrow> fs_file d k = Some f \<Longrightarrow> fst (ReadFile (fs_os d) (keyToPath d k)) = Inr (fst f)"
    "fs_quiet d \<Longrightarrow> fs_file d k = None \<Longrightarrow> \<exists>err. fst (ReadFile (fs_os d) (keyToPath d k)) = Inl err \<and> IsNotExist err"
  using key_not_dir [OF assms] key_missing [OF assms] key_no_fault [of d k] resolve_key [OF assms] assms(2)
  by (auto simp: ReadFile_def Let_def fs_file_def IsNotExist_def split: option.splits prod.splits)

text \<open>The driver after some number of calls that only read.\<close>

definition reads_later :: "FsDriver \<Rightarrow> FsDriver \<Rightarrow> bool" where
  "reads_later d d' \<longleftrightarrow> d' = d \<or> d' = d\<lparr>fs_os := called (fs_os d)\<rparr> \<or> d' = d\<lparr>fs_os := called (called (fs_os d))\<rparr>"

lemma reads_laterD:
  assumes "reads_later d d'"
  shows "fs_ok d' = fs_ok d" "fs_quiet d' = fs_quiet d" "fs_file d' = fs_file d" "fs_root d' = fs_root d"
    "keyToPath d' = keyToPath d" "fs_stored sha d' = fs_stored sha d"
    "os_file (fs_os d') = os_file (fs_os d)" "same_env (fs_os d) (fs_os d')" "rootDir d' = rootDir d"
  using assms by (auto simp: reads_later_def)

lemma fs_Get_state: "reads_later d (snd (fs_Get sha d k))"
proof -
  let ?p = "keyToPath d k"
  obtain r where r: "ReadFile (fs_os d) ?p = (r, called (fs_os d))" by (metis ReadFile_state prod.collapse)
  obtain i where i: "Stat (called (fs_os d)) ?p = (i, called (called (fs_os d)))" by (metis Stat_state prod.collapse)
  show ?thesis by (cases r; cases i) (simp_all add: fs_Get_def r i reads_later_def)
qed

lemma fs_Get_result:
  assumes "fs_ok d" and "good_key k" and "fst (fs_Get sha d k) = Inr (Some obj)"
  shows "oKey obj = k \<and> fs_stored sha d k = Some (doc_of obj)"
proof -
  let ?p = "keyToPath d k" and ?d1 = "d\<lparr>fs_os := called (fs_os d)\<rparr>"
  obtain r where r: "ReadFile (fs_os d) ?p = (r, called (fs_os d))" by (metis ReadFile_state prod.collapse)
  obtain i where i: "Stat (called (fs_os d)) ?p = (i, called (called (fs_os d)))" by (metis Stat_state prod.collapse)
  show ?thesis
    using assms key_ReadFile(1) [OF assms(1,2)] key_Stat(1) [of ?d1 k] r i
    by (cases r; cases i) (auto simp: fs_Get_def fs_stored_def doc_of_def split: if_splits)
qed

lemma fs_Get_exact:
  assumes "fs_quiet d" and "good_key k"
  shows "case fs_stored sha d k of None \<Rightarrow> fst (fs_Get sha d k) = Inl ErrNotFound
    | Some dc \<Rightarrow> \<exists>obj. fst (fs_Get sha d k) = Inr (Some obj) \<and> oKey obj = k \<and> doc_of obj = dc"
proof -
  let ?p = "keyToPath d k" and ?d1 = "d\<lparr>fs_os := called (fs_os d)\<rparr>"
  have ok: "fs_ok d" using assms(1) by (simp add: fs_quiet_def)
  obtain r where r: "ReadFile (fs_os d) ?p = (r, called (fs_os d))" by (metis ReadFile_state prod.collapse)
  obtain i where i: "Stat (called (fs_os d)) ?p = (i, called (called (fs_os d)))" by (metis Stat_state prod.collapse)
  show ?thesis
  proof (cases "fs_file d k")
    case None
    then show ?thesis
      using key_ReadFile(3) [OF ok assms(2,1)] r by (auto simp: fs_Get_def fs_stored_def)
  next
    case (Some f)
    then have "r = Inr (fst f)" "i = Inr (doc_info f)"
      using key_ReadFile(2) [OF ok assms(2,1)] key_Stat(2) [of ?d1 k f] ok assms r i by simp_all
    then show ?thesis
      using Some r i by (simp add: fs_Get_def fs_stored_def doc_of_def split: prod.splits)
  qed
qed

lemma fs_put_check_result:
  assumes good: "good_key k" and ok: "fs_ok d" and st: "Stat (fs_os d) (keyToPath d k) = (st, called (fs_os d))"
    and chk: "fs_put_check sha (called (fs_os d)) (keyToPath d k) e st = (c, os2)"
  shows "reads_later d (d\<lparr>fs_os := os2\<rparr>)" "fs_quiet d \<Longrightarrow> c = put_precondition e (fs_stored sha d k)"
proof -
  let ?p = "keyToPath d k" and ?d1 = "d\<lparr>fs_os := called (fs_os d)\<rparr>"
  obtain r where r: "ReadFile (called (fs_os d)) ?p = (r, called (called (fs_os d)))"
    by (metis ReadFile_state prod.collapse)
  show "reads_later d (d\<lparr>fs_os := os2\<rparr>)"
    using chk r by (cases st; cases r) (auto simp: fs_put_check_def reads_later_def split: if_splits)
  assume quiet: "fs_quiet d"
  show "c = put_precondition e (fs_stored sha d k)"
  proof (cases "fs_file d k")
    case None
    then obtain err where "st = Inl err" using key_Stat(3) [OF ok good quiet] st by auto
    with None chk show ?thesis
      by (auto simp: fs_put_check_def put_precondition_def fs_stored_def split: if_splits)
  next
    case (Some f)
    then have "st = Inr (doc_info f)" "r = Inr (fst f)"
      using key_Stat(2) [OF ok good quiet] key_ReadFile(2) [of ?d1 k f] ok good quiet st r by simp_all
    with Some chk r show ?thesis
      by (auto simp: fs_put_check_def put_precondition_def fs_stored_def split: if_splits prod.splits)
  qed
qed

lemma fs_Put_cases:
  assumes good: "good_key k" and ok: "fs_ok d" and put: "fs_Put sha d k v e = (r, d')"
  obtains (refused) err where "r = Inl err" "reads_later d d'"
      "fs_quiet d \<Longrightarrow> put_precondition e (fs_stored sha d k) = Some err"
  | (written) d2 os3 where "reads_later d d2" "write_effect sha (fs_root d) k v (fs_os d2) (r, os3)"
      "d' = d\<lparr>fs_os := os3\<rparr>" "fs_quiet d \<Longrightarrow> put_precondition e (fs_stored sha d k) = None"
proof -
  let ?p = "keyToPath d k"
  obtain st where st: "Stat (fs_os d) ?p = (st, called (fs_os d))" by (metis Stat_state prod.collapse)
  obtain c os2 where chk: "fs_put_check sha (called (fs_os d)) ?p e st = (c, os2)" by fastforce
  note res = fs_put_check_result [OF good ok st chk]
  show thesis
  proof (cases c)
    case (Some err)
    then show thesis using refused [of err] put st chk res by (auto simp: fs_Put_def Let_def)
  next
    case None
    obtain w os3 where w: "fs_write sha os2 k ?p v = (w, os3)" by fastforce
    let ?d2 = "d\<lparr>fs_os := os2\<rparr>"
    note later = reads_laterD [OF res(1)]
    have tree: "tree_ok (fs_root d) os2"
      using fs_okD(2) [of ?d2] later(1,4) ok by (metis FsDriver.select_convs(2) FsDriver.update_convs(2) FsDriver.surjective)
    have "fs_root d = resolve os2 (rootDir d)"
      using same_env_resolve [OF later(8)] by (simp add: fs_root_def)
    from fs_write_effect [OF good fs_okD(1) [OF ok] tree this]
    have "write_effect sha (fs_root d) k v os2 (fs_write sha os2 k ?p v)" .
    then show thesis
      using written [OF res(1), of os3] put st chk None w res(2) by (simp add: fs_Put_def Let_def)
  qed
qed

lemma fs_written:
  assumes ok: "fs_ok d" and later: "reads_later d d2"
    and eff: "write_effect sha (fs_root d) k v (fs_os d2) (r, os3)" and d': "d' = d\<lparr>fs_os := os3\<rparr>"
  shows "fs_ok d'" "k' \<noteq> k \<Longrightarrow> fs_file d' k' = fs_file d k'"
    "fs_file d' k = fs_file d k \<or> (\<exists>t. fs_file d' k = Some (v, t))" "r \<noteq> Inr None"
    "r = Inr (Some obj) \<Longrightarrow> oKey obj = k \<and> oValue obj = v \<and> fs_stored sha d' k = Some (doc_of obj)"
    "fs_quiet d \<Longrightarrow> fs_quiet d' \<and> (\<exists>obj. r = Inr (Some obj))"
proof -
  note l = reads_laterD [OF later]
  have env: "same_env (fs_os d) os3"
    using eff l(8) same_env_trans by (auto simp: write_effect_def)
  have root: "fs_root d' = fs_root d" using fs_root_update [OF env] d' by simp
  have "tree_ok (fs_root d) os3" using eff by (simp add: write_effect_def)
  then show ok': "fs_ok d'" using fs_ok_update [OF ok env] d' by simp
  have here: "fs_file d' q = os_file os3 (fs_root d @ key_names q)" for q
    using root d' by (simp add: fs_file_def)
  have before: "fs_file d q = os_file (fs_os d2) (fs_root d @ key_names q)" for q
    using l(7) by (simp add: fs_file_def)
  show "fs_file d' k' = fs_file d k'" if "k' \<noteq> k" using eff that by (simp add: write_effect_def here before)
  show "fs_file d' k = fs_file d k \<or> (\<exists>t. fs_file d' k = Some (v, t))"
    using eff by (simp add: write_effect_def here before)
  show "r \<noteq> Inr None" using eff by (simp add: write_effect_def)
  show "oKey obj = k \<and> oValue obj = v \<and> fs_stored sha d' k = Some (doc_of obj)" if "r = Inr (Some obj)"
    using eff that by (auto simp: write_effect_def here fs_stored_def doc_of_def)
  show "fs_quiet d' \<and> (\<exists>obj. r = Inr (Some obj))" if "fs_quiet d"
  proof -
    have "no_fault (fs_os d2)" using that l(8) same_env_no_fault by (auto simp: fs_quiet_def)
    moreover have "no_fault os3" using that env same_env_no_fault by (auto simp: fs_quiet_def)
    ultimately show ?thesis using eff ok' d' by (simp add: write_effect_def fs_quiet_def)
  qed
qed

lemma reads_later_step:
  "reads_later d (d\<lparr>fs_os := called (fs_os d)\<rparr>)" "reads_later d (d\<lparr>fs_os := called (called (fs_os d))\<rparr>)"
  by (simp_all add: reads_later_def)

lemma fs_Delete_cases:
  assumes good: "good_key k" and ok: "fs_ok d" and del: "fs_Delete sha d k e = (de, d')"
  obtains (refused) err where "de = Some err" "reads_later d d'"
      "fs_quiet d \<Longrightarrow> delete_precondition e (fs_stored sha d k) = Some err"
  | (removed) d2 os3 where "reads_later d d2" "fs_remove (fs_os d2) (keyToPath d k) = (de, os3)"
      "d' = d\<lparr>fs_os := os3\<rparr>" "fs_quiet d \<Longrightarrow> delete_precondition e (fs_stored sha d k) = None"
proof -
  let ?p = "keyToPath d k" and ?d1 = "d\<lparr>fs_os := called (fs_os d)\<rparr>"
    and ?d2 = "d\<lparr>fs_os := called (called (fs_os d))\<rparr>"
  obtain st where st: "Stat (fs_os d) ?p = (st, called (fs_os d))" by (metis Stat_state prod.collapse)
  obtain r where r: "ReadFile (called (fs_os d)) ?p = (r, called (called (fs_os d)))"
    by (metis ReadFile_state prod.collapse)
  show thesis
  proof (cases st)
    case (Inl err)
    have "fs_file d k = None \<and> IsNotExist err" if "fs_quiet d"
      using key_Stat(2,3) [OF ok good that] st Inl by (cases "fs_file d k") auto
    with Inl show thesis
      using refused [of "the de"] del st reads_later_step(1) [of d]
      by (auto simp: fs_Delete_def delete_precondition_def fs_stored_def)
  next
    case (Inr info)
    obtain f where f: "fs_file d k = Some f" "info = doc_info f" using key_Stat(1) [OF ok good] st Inr by auto
    have read: "r = Inr (fst f)" if "fs_quiet d"
      using key_ReadFile(2) [of ?d1 k f] ok good that f r by simp
    have stored: "fs_stored sha d k = Some (fst f, fs_generateETag sha (fst f) (snd f))"
      using f by (simp add: fs_stored_def split: prod.splits)
    show thesis
    proof (cases "e \<noteq> [] \<and> e \<noteq> MatchAnyETag")
      case False
      then have "delete_precondition e (fs_stored sha d k) = None" by (auto simp: delete_precondition_def stored)
      with False show thesis
        using removed [OF reads_later_step(1), of "fs_os d'"] del st Inr
        by (auto simp: fs_Delete_def Let_def split: prod.splits)
    next
      case True
      show thesis
      proof (cases r)
        case (Inl err)
        then have "\<not> fs_quiet d" using read by auto
        then show thesis
          using refused [of "the de"] del st r Inr Inl True reads_later_step(2) [of d] by (auto simp: fs_Delete_def)
      next
        case data: (Inr data)
        have pre: "delete_precondition e (fs_stored sha d k) =
            (if fs_generateETag sha data (fi_modTime info) \<noteq> e then Some ErrVersionMismatch else None)" if "fs_quiet d"
          using read [OF that] data f True by (simp add: delete_precondition_def stored)
        show thesis
        proof (cases "fs_generateETag sha data (fi_modTime info) = e")
          case match: True
          then show thesis
            using removed [OF reads_later_step(2), of "fs_os d'"] del st r Inr data True pre
            by (auto simp: fs_Delete_def Let_def split: prod.splits)
        next
          case False
          then show thesis
            using refused [of ErrVersionMismatch] del st r Inr data True pre reads_later_step(2) [of d]
            by (simp add: fs_Delete_def)
        qed
      qed
    qed
  qed
qed

lemma fs_removed:
  assumes ok: "fs_ok d" and good: "good_key k" and later: "reads_later d d2"
    and rem: "fs_remove (fs_os d2) (keyToPath d k) = (de, os3)" and d': "d' = d\<lparr>fs_os := os3\<rparr>"
  shows "fs_ok d'" "k' \<noteq> k \<Longrightarrow> fs_file d' k' = fs_file d k'"
    "fs_file d' k = fs_file d k \<or> fs_file d' k = None"
    "fs_quiet d \<Longrightarrow> fs_file d k \<noteq> None \<Longrightarrow> fs_quiet d' \<and> de = None \<and> fs_file d' k = None"
proof -
  note l = reads_laterD [OF later]
  obtain e where e: "Remove (fs_os d2) (keyToPath d k) = (e, os3)"
    using rem by (auto simp: fs_remove_def split: prod.splits option.splits)
  have ok2: "fs_ok d2" using l(1) ok by simp
  have path: "resolve (fs_os d2) (keyToPath d k) = fs_root d @ key_dir k @ [key_base k]"
    using resolve_key [OF ok2 good] l(4,5) by (simp add: key_names_def)
  have tree: "tree_ok (fs_root d) (fs_os d2)" using fs_okD(2) [OF ok2] l(4) by simp
  note eff = Remove_effect [OF tree path good_keyD(3) [OF good] e]
  have env: "same_env (fs_os d) os3" using eff(3) l(8) same_env_trans by blast
  have root: "fs_root d' = fs_root d" using fs_root_update [OF env] d' by simp
  show ok': "fs_ok d'" using fs_ok_update [OF ok env eff(1)] d' by simp
  have here: "fs_file d' q = os_file os3 (fs_root d @ key_names q)" for q
    using root d' by (simp add: fs_file_def)
  have before: "fs_file d q = os_file (fs_os d2) (fs_root d @ key_names q)" for q
    using l(7) by (simp add: fs_file_def)
  show "fs_file d' k' = fs_file d k'" if "k' \<noteq> k"
    using eff(2) [of "fs_root d @ key_names k'"] that key_names_inject [of k' k] by (simp add: here before key_names_def)
  show "fs_file d' k = fs_file d k \<or> fs_file d' k = None"
    using eff(4,5) by (cases e) (simp_all add: here before key_names_def)
  show "fs_quiet d' \<and> de = None \<and> fs_file d' k = None" if quiet: "fs_quiet d" and "fs_file d k \<noteq> None"
  proof -
    have "no_fault (fs_os d2)" "no_fault os3"
      using quiet l(8) env same_env_no_fault by (auto simp: fs_quiet_def)
    moreover from this have "e = None"
      using eff(6) bad_keyToPath [OF good fs_okD(1) [OF ok]] that(2) by (simp add: before key_names_def)
    ultimately show ?thesis
      using ok' d' eff(4) rem e here [of k] by (simp add: fs_quiet_def key_names_def fs_remove_def)
  qed
qed

lemma fs_stored_cong: "fs_file d' k = fs_file d k \<Longrightarrow> fs_stored sha d' k = fs_stored sha d k"
  by (simp add: fs_stored_def)

interpretation fs: keyed_driver "fs_driver sha" "fs_stored sha" fs_ok good_key
proof (unfold_locales, goal_cases)
  case (1 s k r s')
  then show ?case using reads_laterD(1,6) [OF fs_Get_state [of s sha k]] by simp
next
  case (2 s k obj s')
  then show ?case using fs_Get_result [of s k sha obj] by simp
next
  case (3 s k v e r s')
  then have put: "fs_Put sha s k v e = (r, s')" by simp
  from 3(2,1) put show ?case
    by (cases rule: fs_Put_cases) (simp_all add: fs_written(1) [OF 3(1)] reads_laterD(1) 3(1))
next
  case (4 s k v e r s' k')
  then have put: "fs_Put sha s k v e = (r, s')" by simp
  from 4(2,1) put show ?case
    by (cases rule: fs_Put_cases)
      (simp_all add: reads_laterD(6) fs_stored_cong [OF fs_written(2) [OF 4(1) _ _ _ 4(4)]])
next
  case (5 s k v e r s')
  then have put: "fs_Put sha s k v e = (r, s')" by simp
  from 5(2,1) put show ?case
  proof (cases rule: fs_Put_cases)
    case refused
    then show ?thesis by (simp add: reads_laterD(6))
  next
    case (written d2 os3)
    from fs_written(3) [OF 5(1) written(1-3)] show ?thesis by (auto simp: fs_stored_def)
  qed
next
  case (6 s k v e obj s')
  then have put: "fs_Put sha s k v e = (Inr (Some obj), s')" by simp
  from 6(2,1) put show ?case
    by (cases rule: fs_Put_cases) (simp_all add: fs_written(5) [OF 6(1) _ _ _ refl])
next
  case (7 s k e de s')
  then have del: "fs_Delete sha s k e = (de, s')" by simp
  from 7(2,1) del show ?case
    by (cases rule: fs_Delete_cases) (simp_all add: fs_removed(1) [OF 7(1,2)] reads_laterD(1) 7(1))
next
  case (8 s k e de s' k')
  then have del: "fs_Delete sha s k e = (de, s')" by simp
  from 8(2,1) del show ?case
    by (cases rule: fs_Delete_cases)
      (simp_all add: reads_laterD(6) fs_stored_cong [OF fs_removed(2) [OF 8(1,2) _ _ _ 8(4)]])
next
  case (9 s k e de s')
  then have del: "fs_Delete sha s k e = (de, s')" by simp
  from 9(2,1) del show ?case
  proof (cases rule: fs_Delete_cases)
    case refused
    then show ?thesis by (simp add: reads_laterD(6))
  next
    case (removed d2 os3)
    from fs_removed(3) [OF 9(1,2) removed(1-3)] show ?thesis by (auto simp: fs_stored_def)
  qed
qed

text \<open>Without faults the contract is exact.\<close>

lemma fs_quiet_ok: "fs_quiet d \<Longrightarrow> fs_ok d"
  by (simp add: fs_quiet_def)

lemma fs_Put_exact:
  assumes quiet: "fs_quiet d" and good: "good_key k" and put: "fs_Put sha d k v e = (r, d')"
  shows "fs_quiet d'"
    "case put_precondition e (fs_stored sha d k) of
       Some err \<Rightarrow> r = Inl err \<and> fs_stored sha d' = fs_stored sha d
     | None \<Rightarrow> \<exists>obj. r = Inr (Some obj) \<and> oKey obj = k \<and> oValue obj = v
         \<and> fs_stored sha d' = (fs_stored sha d)(k \<mapsto> doc_of obj)"
proof -
  note ok = fs_quiet_ok [OF quiet]
  have "fs_quiet d' \<and> (case put_precondition e (fs_stored sha d k) of
       Some err \<Rightarrow> r = Inl err \<and> fs_stored sha d' = fs_stored sha d
     | None \<Rightarrow> \<exists>obj. r = Inr (Some obj) \<and> oKey obj = k \<and> oValue obj = v
         \<and> fs_stored sha d' = (fs_stored sha d)(k \<mapsto> doc_of obj))"
    using good ok put
  proof (cases rule: fs_Put_cases)
    case (refused err)
    then show ?thesis using quiet by (simp add: reads_laterD)
  next
    case (written d2 os3)
    note w = fs_written [OF ok written(1-3)]
    from w(6) [OF quiet] obtain obj where obj: "fs_quiet d'" "r = Inr (Some obj)" by blast
    with w(5) have "fs_stored sha d' = (fs_stored sha d)(k \<mapsto> doc_of obj)"
      using fs_stored_cong [OF w(2)] by (auto simp: fun_eq_iff)
    with w(5) obj written(4) quiet show ?thesis by simp
  qed
  then show "fs_quiet d'"
    "case put_precondition e (fs_stored sha d k) of
       Some err \<Rightarrow> r = Inl err \<and> fs_stored sha d' = fs_stored sha d
     | None \<Rightarrow> \<exists>obj. r = Inr (Some obj) \<and> oKey obj = k \<and> oValue obj = v
         \<and> fs_stored sha d' = (fs_stored sha d)(k \<mapsto> doc_of obj)" by simp_all
qed

lemma fs_Delete_exact:
  assumes quiet: "fs_quiet d" and good: "good_key k" and del: "fs_Delete sha d k e = (de, d')"
  shows "fs_quiet d' \<and> de = delete_precondition e (fs_stored sha d k) \<and>
    fs_stored sha d' = (if de = None then (fs_stored sha d)(k := None) else fs_stored sha d)"
proof -
  note ok = fs_quiet_ok [OF quiet]
  from good ok del show ?thesis
  proof (cases rule: fs_Delete_cases)
    case (refused err)
    then show ?thesis using quiet by (simp add: reads_laterD)
  next
    case (removed d2 os3)
    note w = fs_removed [OF ok good removed(1-3)]
    have "fs_file d k \<noteq> None"
      using removed(4) [OF quiet] by (cases "fs_file d k") (simp_all add: delete_precondition_def fs_stored_def)
    from w(4) [OF quiet this] have gone: "fs_quiet d'" "de = None" "fs_stored sha d' k = None"
      by (simp_all add: fs_stored_def)
    then have "fs_stored sha d' = (fs_stored sha d)(k := None)"
      using fs_stored_cong [OF w(2)] by (auto simp: fun_eq_iff)
    with gone removed(4) [OF quiet] show ?thesis by simp
  qed
qed

interpretation fsq: keyed_cas "fs_driver sha" "fs_stored sha" fs_quiet good_key
proof (unfold_locales, goal_cases)
  case (1 s k r s')
  then show ?case using reads_laterD(2,6) [OF fs_Get_state [of s sha k]] by simp
next
  case (2 s k obj s')
  then show ?case using fs.kget_result [OF fs_quiet_ok] by blast
next
  case (3 s k v e r s')
  then show ?case using fs_Put_exact(1) [OF 3(1,2)] by simp
next
  case (4 s k v e r s' k')
  then show ?case using fs.kput_frame [OF fs_quiet_ok] by blast
next
  case (5 s k v e r s')
  then show ?case using fs.kput_atomic [OF fs_quiet_ok] by blast
next
  case (6 s k v e obj s')
  then show ?case using fs.kput_result [OF fs_quiet_ok] by blast
next
  case (7 s k e de s')
  then show ?case using fs_Delete_exact [OF 7(1,2)] by simp
next
  case (8 s k e de s' k')
  then show ?case using fs.kdelete_frame [OF fs_quiet_ok] by blast
next
  case (9 s k e de s')
  then show ?case using fs.kdelete_atomic [OF fs_quiet_ok [OF 9(1)] 9(2,3)] by blast
next
  case (10 s k r s')
  then show ?case using fs_Get_exact [OF 10(1,2), of sha] by (auto split: option.splits)
next
  case (11 s k v e r s')
  then show ?case using fs_Put_exact(2) [OF 11(1,2)] by simp
next
  case (12 s k e de s')
  then show ?case using fs_Delete_exact [OF 12(1,2)] by simp
qed

section \<open>A new driver\<close>

text \<open>On an empty filesystem \<open>NewDriver\<close> makes a root directory that the invariant holds for.\<close>

definition empty_os :: "path \<Rightarrow> (nat \<Rightarrow> gotime) \<Rightarrow> (nat \<Rightarrow> path \<Rightarrow> (string \<times> nat) option) \<Rightarrow> OS" where
  "empty_os cwd clk fault = \<lparr>os_files = [], os_dirs = [], os_cwd = cwd, os_clock = clk, os_ticks = 0,
     os_fault = fault, os_calls = 0\<rparr>"

lemma fs_NewDriver_ok:
  assumes "fs_NewDriver (empty_os cwd clk fault) root = (Inr d, os')"
  shows "fs_ok d" "fs_os d = os'" "os_fault os' = fault" "rootDir d = root" "os_files os' = []"
proof -
  let ?os = "empty_os cwd clk fault" and ?R = "resolve (empty_os cwd clk fault) root"
  have made: "bad_path root = None" "d = \<lparr>rootDir = root, fs_os = os'\<rparr>" "os' = add_dirs (prefixes ?R) (called ?os)"
    using assms
    by (auto simp: fs_NewDriver_def MkdirAll_def Let_def os_file_def empty_os_def split: option.splits if_splits)
  then have env: "same_env ?os os'" "os_dir os' q \<longleftrightarrow> prefix q ?R" "os_files os' = []" for q
    by (auto simp: os_dir_def empty_os_def called_def add_dirs_def same_env_def in_set_prefixes)
  have "tree_ok ?R os'"
  proof (rule tree_okI, goal_cases)
    case (4 q r)
    then show ?case using env(2) prefix_order.trans by blast
  next
    case (6 q n)
    then show ?case using env(2) by simp
  qed (use env in \<open>simp_all add: os_file_def\<close>)
  then show "fs_ok d"
    using made same_env_resolve [OF env(1)]
    by (auto simp: fs_ok_def root_ok_def fs_root_def bad_path_def split: if_splits)
  show "fs_os d = os'" "rootDir d = root" "os_files os' = []" using made env by simp_all
  show "os_fault os' = fault" using env(1) by (simp add: same_env_def empty_os_def)
qed

text \<open>A driver on a fresh filesystem at \<open>/srv\<close>, for concrete runs.\<close>

definition fresh_driver :: "(nat \<Rightarrow> path \<Rightarrow> (string \<times> nat) option) \<Rightarrow> FsDriver" where
  "fresh_driver fault =
     \<lparr>rootDir = ''/srv'', fs_os = snd (MkdirAll (empty_os [] (\<lambda>n. int n) fault) ''/srv'')\<rparr>"

lemma fresh_driver_ok:
  assumes "fault 0 [''srv''] = None"
  shows "fs_ok (fresh_driver fault)" "os_fault (fs_os (fresh_driver fault)) = fault"
    "os_files (fs_os (fresh_driver fault)) = []"
proof -
  let ?os = "empty_os [] (\<lambda>n. int n) fault"
  have "fs_NewDriver ?os ''/srv'' = (Inr (fresh_driver fault), snd (MkdirAll ?os ''/srv''))"
    using assms
    by (simp add: fs_NewDriver_def fresh_driver_def MkdirAll_def Let_def bad_path_def syscall_fault_def
        os_file_def empty_os_def resolve_def clean_names_def clean_step_def)
  from fs_NewDriver_ok [OF this] show "fs_ok (fresh_driver fault)"
    "os_fault (fs_os (fresh_driver fault)) = fault" "os_files (fs_os (fresh_driver fault)) = []" by simp_all
qed

lemma fresh_driver_quiet: "fs_quiet (fresh_driver (\<lambda>n p. None))"
  using fresh_driver_ok [of "\<lambda>n p. None"] by (simp add: fs_quiet_def no_fault_def)

section \<open>Properties\<close>

text \<open>
  C33: no torn and no foreign documents. Over any sequence of calls on clean keys of the
  filesystem driver, whatever calls of the operating system fail and however far they got, the
  document of a key is the one it had before, or a payload that some \<open>Put\<close> of that very key
  wrote in full, or gone by a \<open>Delete\<close> of that key.
\<close>

theorem fs_writes_atomic:
  assumes "fs_ok d" and "\<forall>c \<in> set calls. good_key (call_key c)"
  shows "let d' = run_calls (fs_driver sha) calls d in
    fs_ok d' \<and> (\<forall>k. traceable calls k (fs_stored sha d k) (fs_stored sha d' k))"
  using fs.calls_traceable [OF assms] by (simp add: Let_def)

theorem fs_writes_atomic_witness:
  "let d = fresh_driver (\<lambda>n p. if n = 3 then Some (''disk full'', 2) else None);
       calls = [CallPut ''a/b'' [1, 2] [], CallDelete ''a/b'' []];
       d' = run_calls (fs_driver (\<lambda>bs. bs)) calls d
   in fs_ok d' \<and> (\<forall>k. traceable calls k (fs_stored (\<lambda>bs. bs) d k) (fs_stored (\<lambda>bs. bs) d' k))"
proof -
  let ?fault = "\<lambda>n (p :: path). if n = (3::nat) then Some (''disk full'', 2) else None"
  have "good_key ''a/b''"
    by (simp add: good_key_def key_dir_def plain_name_def dir_name_def has_data_def)
  then show ?thesis
    using fs_writes_atomic [OF fresh_driver_ok(1) [of ?fault],
        of "[CallPut ''a/b'' [1, 2] [], CallDelete ''a/b'' []]" "\<lambda>bs. bs"]
    by (simp add: Let_def)
qed

text \<open>
  C34: without faults of the operating system the filesystem driver implements the documented
  compare-and-swap semantics exactly on clean keys: a read returns the stored payload and ETag or
  ErrNotFound, a write or delete whose precondition fails reports the documented error and changes
  nothing, any other one changes the document of its key alone.
\<close>

theorem fs_cas_semantics:
  assumes "fs_quiet d" and "good_key k"
  shows "(case fs_stored sha d k of None \<Rightarrow> fst (fs_Get sha d k) = Inl ErrNotFound
     | Some dc \<Rightarrow> \<exists>obj. fst (fs_Get sha d k) = Inr (Some obj) \<and> oKey obj = k \<and> doc_of obj = dc)
   \<and> (case put_precondition e (fs_stored sha d k) of
        Some err \<Rightarrow> \<exists>d'. fs_Put sha d k v e = (Inl err, d') \<and> fs_stored sha d' = fs_stored sha d
      | None \<Rightarrow> \<exists>obj d'. fs_Put sha d k v e = (Inr (Some obj), d') \<and> fs_quiet d' \<and> oKey obj = k \<and> oValue obj = v
          \<and> fs_stored sha d' = (fs_stored sha d)(k \<mapsto> doc_of obj))
   \<and> (case delete_precondition e (fs_stored sha d k) of
        Some err \<Rightarrow> \<exists>d'. fs_Delete sha d k e = (Some err, d') \<and> fs_stored sha d' = fs_stored sha d
      | None \<Rightarrow> \<exists>d'. fs_Delete sha d k e = (None, d') \<and> fs_quiet d' \<and> fs_stored sha d' = (fs_stored sha d)(k := None))"
proof (intro conjI)
  obtain r d' where p: "fs_Put sha d k v e = (r, d')" by fastforce
  show "case put_precondition e (fs_stored sha d k) of
        Some err \<Rightarrow> \<exists>d'. fs_Put sha d k v e = (Inl err, d') \<and> fs_stored sha d' = fs_stored sha d
      | None \<Rightarrow> \<exists>obj d'. fs_Put sha d k v e = (Inr (Some obj), d') \<and> fs_quiet d' \<and> oKey obj = k \<and> oValue obj = v
          \<and> fs_stored sha d' = (fs_stored sha d)(k \<mapsto> doc_of obj)"
    using fs_Put_exact [OF assms p] p by (auto split: option.splits)
  obtain de d'' where q: "fs_Delete sha d k e = (de, d'')" by fastforce
  show "case delete_precondition e (fs_stored sha d k) of
        Some err \<Rightarrow> \<exists>d'. fs_Delete sha d k e = (Some err, d') \<and> fs_stored sha d' = fs_stored sha d
      | None \<Rightarrow> \<exists>d'. fs_Delete sha d k e = (None, d') \<and> fs_quiet d' \<and> fs_stored sha d' = (fs_stored sha d)(k := None)"
    using fs_Delete_exact [OF assms q] q by (auto split: option.splits)
qed (rule fs_Get_exact [OF assms])

theorem fs_cas_semantics_witness:
  "let d = fresh_driver (\<lambda>n p. None) in
   fst (fs_Get (\<lambda>bs. bs) d ''a/b'') = Inl ErrNotFound \<and>
   (\<exists>obj d'. fs_Put (\<lambda>bs. bs) d ''a/b'' [1] ''*'' = (Inr (Some obj), d') \<and> oValue obj = [1])"
proof -
  let ?d = "fresh_driver (\<lambda>n p. None)"
  have good: "good_key ''a/b''"
    by (simp add: good_key_def key_dir_def plain_name_def dir_name_def has_data_def)
  have none: "fs_stored (\<lambda>bs. bs) ?d ''a/b'' = None"
    using fresh_driver_ok(3) [of "\<lambda>n p. None"] by (simp add: fs_stored_def fs_file_def os_file_def)
  show ?thesis
    using fs_cas_semantics [OF fresh_driver_quiet good, where sha = "\<lambda>bs. bs" and e = "''*''" and v = "[1]"]
    by (auto simp: Let_def none put_precondition_def MatchAnyETag_def)
qed

end
