(* ===== verification/FsList.thy ===== *)
theory FsList
  imports FsProps
begin

text \<open>
  The listing of the filesystem driver: without faults \<open>List\<close> reports exactly the documents with
  the prefix behind the cursor, in key order, and meets the paging contract of the interface.
  Temporary files are never listed. The last section shows what keys that are not clean paths, a
  failing \<open>Stat\<close>, a full disk and an unreadable directory do.
\<close>

section \<open>From files back to keys\<close>

lemma HasSuffix_iff: "HasSuffix s p \<longleftrightarrow> suffix p s"
  unfolding HasSuffix_def suffix_to_prefix prefix_def
  by (metis append_eq_conv_conj append_take_drop_id length_rev)

lemma HasSuffix_append: "HasSuffix (a @ p) p"
  by (simp add: HasSuffix_iff suffix_def)

lemma TrimSuffix_append: "TrimSuffix (a @ p) p = a"
  by (simp add: TrimSuffix_def HasSuffix_append)

lemma HasSuffix_last_name:
  assumes "c \<notin> set s"
  shows "HasSuffix p s \<longleftrightarrow> HasSuffix (last (Split p c)) s"
proof
  assume "HasSuffix p s"
  then obtain z where "p = z @ s" by (auto simp: HasSuffix_iff suffix_def)
  then show "HasSuffix (last (Split p c)) s"
    using Split_append_name [OF assms, of z] by (simp add: HasSuffix_iff suffix_def)
next
  assume "HasSuffix (last (Split p c)) s"
  then show "HasSuffix p s" by (metis HasSuffix_iff append_assoc dir_part(2) suffix_def)
qed

lemma Join_snoc_append: "Join (ds @ [c @ w]) sep = Join (ds @ [c]) sep @ w"
proof (induction ds)
  case (Cons d ds)
  have "ds @ [x] \<noteq> []" for x by simp
  with Cons show ?case by (simp add: Join_Cons)
qed simp

definition rel_key :: "path \<Rightarrow> string" where
  "rel_key rel = TrimSuffix (Join rel ''/'') ''.data''"

definition data_path :: "path \<Rightarrow> bool" where
  "data_path rel \<longleftrightarrow> rel \<noteq> [] \<and> (\<forall>n \<in> set rel. plain_name n) \<and> HasSuffix (last rel) ''.data''"

lemma key_names_rel_key:
  assumes "data_path rel"
  shows "key_names (rel_key rel) = rel"
proof -
  from assms obtain ds f where rel: "rel = ds @ [f]" by (auto simp: data_path_def neq_Nil_conv intro: rev_exhaust)
  from assms rel obtain c where f: "f = c @ ''.data''" by (auto simp: data_path_def HasSuffix_iff suffix_def)
  have slash: "\<forall>n \<in> set (ds @ [c]). CHR ''/'' \<notin> set n"
    using assms by (auto simp: data_path_def rel f plain_name_def)
  have "rel_key rel = Join (ds @ [c]) ''/''"
    unfolding rel_key_def rel f Join_snoc_append by (rule TrimSuffix_append)
  moreover have "Split (Join (ds @ [c]) ''/'') (CHR ''/'') = ds @ [c]"
    using slash by (intro Split_Join) simp_all
  ultimately show ?thesis by (simp add: key_names_def key_dir_def key_base_def rel f)
qed

lemma rel_key_inject: "data_path rel \<Longrightarrow> data_path rel' \<Longrightarrow> rel_key rel = rel_key rel' \<longleftrightarrow> rel = rel'"
  by (metis key_names_rel_key)

lemma rel_key_key_names: "data_path (key_names k) \<Longrightarrow> rel_key (key_names k) = k"
  using key_names_rel_key key_names_inject by blast

lemma stored_data_path:
  assumes "fs_ok d" and "fs_file d k \<noteq> None"
  shows "data_path (key_names k)"
proof -
  have f: "os_file (fs_os d) (fs_root d @ key_names k) \<noteq> None" using assms(2) by (simp add: fs_file_def)
  have "\<forall>n \<in> set (key_dir k). plain_name n" "plain_name (key_base k)"
    using tree_okD(8,9) [OF fs_okD(2) [OF assms(1)] f] by (auto simp: key_names_def dir_name_def file_name_def)
  then show ?thesis
    using HasSuffix_append [of _ "''.data''"] by (auto simp: data_path_def key_names_def key_base_def)
qed

lemma file_below_root:
  assumes "fs_ok d" and "os_file (fs_os d) (fs_root d @ rel) \<noteq> None"
  shows "rel \<noteq> []" "\<forall>n \<in> set rel. plain_name n"
proof -
  note ok = tree_okD [OF fs_okD(2) [OF assms(1)]]
  show ne: "rel \<noteq> []" using ok(7) assms(2) by blast
  have "\<forall>n \<in> set (butlast rel @ [last rel]). plain_name n"
    using ok(8,9) assms(2) by (auto simp: dir_name_def file_name_def)
  with ne show "\<forall>n \<in> set rel. plain_name n" by simp
qed

lemma walk_path:
  assumes ok: "fs_ok d" and f: "os_file (fs_os d) (fs_root d @ rel) \<noteq> None"
  defines "p \<equiv> path_Join (rootDir d) (Join rel ''/'')"
  shows "resolve (fs_os d) p = fs_root d @ rel" "bad_path p = None"
    "HasSuffix p ''.data'' \<longleftrightarrow> HasSuffix (last rel) ''.data''" "path_Rel (rootDir d) p = Inr (Join rel ''/'')"
proof -
  note rel = file_below_root [OF ok f]
  have root: "rootDir d \<noteq> []" "CHR 0x00 \<notin> set (rootDir d)" using fs_okD(1) [OF ok] by (simp_all add: root_ok_def)
  have split: "Split (Join rel ''/'') (CHR ''/'') = rel"
    using rel by (intro Split_Join) (auto simp: plain_name_def)
  have p: "p = path_Clean (rootDir d @ CHR ''/'' # Join rel ''/'')" using root by (simp add: p_def path_Join_def)
  show "resolve (fs_os d) p = fs_root d @ rel"
    using resolve_append [OF root(1), of "Join rel ''/''"] rel by (simp add: p split fs_root_def)
  have "CHR 0x00 \<notin> set (Join rel ''/'')"
  proof -
    have "set (Join ns ''/'') \<subseteq> \<Union> (set ` set ns) \<union> {CHR ''/''}" for ns
      by (induction ns "''/''" rule: Join.induct) auto
    from this [of rel] rel(2) show ?thesis by (auto simp: plain_name_def)
  qed
  then show "bad_path p = None" using root by (simp add: p bad_path_Clean)
  have "path_names (rootDir d @ CHR ''/'' # Join rel ''/'') = path_names (rootDir d) @ rel"
    using path_names_append [OF root(1), of "Join rel ''/''"] rel by (simp add: split)
  then have "last (Split p (CHR ''/'')) = last rel" using rel by (simp add: p Split_path_Clean)
  then show "HasSuffix p ''.data'' \<longleftrightarrow> HasSuffix (last rel) ''.data''"
    using HasSuffix_last_name [of "CHR ''/''" "''.data''" p] by simp
  show "path_Rel (rootDir d) p = Inr (Join rel ''/'')"
    unfolding p_def by (rule path_Rel_below [OF root(1) rel])
qed

section \<open>What \<open>List\<close> collects\<close>

definition fs_meta :: "(bytes \<Rightarrow> bytes) \<Rightarrow> string \<Rightarrow> bytes \<times> gotime \<Rightarrow> KeyMeta" where
  "fs_meta sha k f = \<lparr>kmKey = k, kmSize = int (length (fst f)), kmETag = fs_generateETag sha (fst f) (snd f),
     kmModTime = snd f\<rparr>"

definition fs_listed :: "(bytes \<Rightarrow> bytes) \<Rightarrow> FsDriver \<Rightarrow> string \<Rightarrow> KeyMeta option" where
  "fs_listed sha d k = map_option (fs_meta sha k) (fs_file d k)"

definition fs_keys :: "FsDriver \<Rightarrow> string \<Rightarrow> string \<Rightarrow> string set" where
  "fs_keys d p c = {k. HasPrefix k p \<and> \<not> (c \<noteq> [] \<and> k \<le> c) \<and> fs_file d k \<noteq> None}"

definition fs_rest :: "(bytes \<Rightarrow> bytes) \<Rightarrow> FsDriver \<Rightarrow> string \<Rightarrow> string \<Rightarrow> KeyMeta list" where
  "fs_rest sha d p c = map (\<lambda>k. the (fs_listed sha d k)) (sorted_list_of_set (fs_keys d p c))"

lemma finite_fs_keys: "finite (fs_keys d p c)"
proof -
  have "(\<lambda>k. fs_root d @ key_names k) ` fs_keys d p c \<subseteq> fst ` set (os_files (fs_os d))"
    by (auto simp: fs_keys_def fs_file_def os_file_def keys_iff)
  then have "finite ((\<lambda>k. fs_root d @ key_names k) ` fs_keys d p c)" using finite_subset by blast
  then show ?thesis by (rule finite_imageD) (simp add: inj_on_def key_names_inject)
qed

text \<open>The files that \<open>List\<close> reports, by their path below the root, and the entry of a visited file.\<close>

definition selects :: "string \<Rightarrow> string \<Rightarrow> path \<Rightarrow> bool" where
  "selects p c rel \<longleftrightarrow> data_path rel \<and> HasPrefix (rel_key rel) p \<and> \<not> (c \<noteq> [] \<and> rel_key rel \<le> c)"

lemma fs_list_visit_file:
  assumes "fs_quiet d" and f: "os_file (fs_os d) (fs_root d @ rel) = Some f"
  shows "fs_list_visit sha (called (fs_os d)) (rootDir d) p c (path_Join (rootDir d) (Join rel ''/''), doc_info f) =
    (if selects p c rel then Some (fs_meta sha (rel_key rel) f) else None)"
proof -
  have ok: "fs_ok d" and nf: "no_fault (called (fs_os d))" using assms(1) by (simp_all add: fs_quiet_def)
  have f': "os_file (fs_os d) (fs_root d @ rel) \<noteq> None" using f by simp
  note w = walk_path [OF ok f'] and r = file_below_root [OF ok f']
  have "fst (ReadFile (called (fs_os d)) (path_Join (rootDir d) (Join rel ''/''))) = Inr (fst f)"
    using ReadFile_found [OF nf w(2), of "fst f" "snd f"] w(1) f by simp
  then show ?thesis
    using w r by (auto simp: fs_list_visit_def Let_def selects_def data_path_def rel_key_def fs_meta_def)
qed

lemma sort_key_listing:
  assumes "distinct (map kmKey xs)" and "\<forall>x \<in> set xs. x = g (kmKey x)"
  shows "sort_key kmKey xs = map g (sorted_list_of_set (kmKey ` set xs))"
proof -
  have "map kmKey (sort_key kmKey xs) = sort (map kmKey xs)"
    by (rule sorted_distinct_set_unique) (use assms(1) in \<open>auto simp: distinct_map\<close>)
  also have "\<dots> = sorted_list_of_set (set (map kmKey xs))"
    using assms(1) by (simp only: sorted_list_of_set_sort_remdups distinct_remdups_id)
  finally have keys: "map kmKey (sort_key kmKey xs) = sorted_list_of_set (kmKey ` set xs)" by simp
  have "sort_key kmKey xs = map g (map kmKey (sort_key kmKey xs))"
    using assms(2) by (intro sym [OF trans [OF map_map map_idI]]) simp
  then show ?thesis unfolding keys .
qed

lemma prefix_drop: "strict_prefix R q \<Longrightarrow> R @ drop (length R) q = q"
  by (auto simp: strict_prefix_def prefix_def)

lemma map_filter_eq:
  "\<forall>x \<in> set xs. f (h x) = (if P x then Some (g x) else None) \<Longrightarrow>
   List.map_filter f (map h xs) = map g (filter P xs)"
  by (induction xs) (auto simp: List.map_filter_simps)

definition collected :: "(bytes \<Rightarrow> bytes) \<Rightarrow> FsDriver \<Rightarrow> string \<Rightarrow> string \<Rightarrow> KeyMeta list" where
  "collected sha d p c =
     map (\<lambda>x. fs_meta sha (rel_key (drop (length (fs_root d)) (fst x))) (snd x))
       (filter (\<lambda>x. selects p c (drop (length (fs_root d)) (fst x)))
         (filter (\<lambda>x. strict_prefix (fs_root d) (fst x)) (os_files (fs_os d))))"

lemma fs_walk:
  assumes "fs_quiet d"
  shows "Walk (fs_os d) (rootDir d) =
    (map (\<lambda>x. (path_Join (rootDir d) (Join (drop (length (fs_root d)) (fst x)) ''/''), doc_info (snd x)))
      (filter (\<lambda>x. strict_prefix (fs_root d) (fst x)) (os_files (fs_os d))), called (fs_os d))"
proof -
  note ok = fs_quiet_ok [OF assms]
  have "os_file (fs_os d) (fs_root d) = None" using tree_okD(2,5) [OF fs_okD(2) [OF ok]] by blast
  moreover have "bad_path (rootDir d) = None" using fs_okD(1) [OF ok] by (simp add: root_ok_def bad_path_def)
  moreover have "walk_visits (fs_os d) (fs_root d) q = strict_prefix (fs_root d) q" for q
    using assms by (simp add: walk_visits_def fs_quiet_def no_fault_def)
  ultimately show ?thesis by (simp add: Walk_def Let_def fs_root_def [symmetric] case_prod_unfold)
qed

lemma fs_collects:
  assumes "fs_quiet d"
  shows "List.map_filter (fs_list_visit sha (called (fs_os d)) (rootDir d) p c) (fst (Walk (fs_os d) (rootDir d)))
    = collected sha d p c"
  unfolding fs_walk [OF assms] fst_conv collected_def
proof (rule map_filter_eq, rule ballI)
  fix x
  assume x: "x \<in> set (filter (\<lambda>x. strict_prefix (fs_root d) (fst x)) (os_files (fs_os d)))"
  then have "map_of (os_files (fs_os d)) (fst x) = Some (snd x)"
    using tree_okD(1) [OF fs_okD(2) [OF fs_quiet_ok [OF assms]]] by (simp add: map_of_is_SomeI)
  then have "os_file (fs_os d) (fs_root d @ drop (length (fs_root d)) (fst x)) = Some (snd x)"
    using x by (simp add: prefix_drop os_file_def)
  from fs_list_visit_file [OF assms this]
  show "fs_list_visit sha (called (fs_os d)) (rootDir d) p c
      (path_Join (rootDir d) (Join (drop (length (fs_root d)) (fst x)) ''/''), doc_info (snd x)) =
    (if selects p c (drop (length (fs_root d)) (fst x))
     then Some (fs_meta sha (rel_key (drop (length (fs_root d)) (fst x))) (snd x)) else None)" .
qed

lemma kmKey_fs_meta [simp]: "kmKey (fs_meta sha k f) = k"
  by (simp add: fs_meta_def)

lemma in_collected:
  assumes ok: "fs_ok d"
  shows "x \<in> set (collected sha d p c) \<longleftrightarrow> (\<exists>k \<in> fs_keys d p c. x = the (fs_listed sha d k))"
proof
  assume "x \<in> set (collected sha d p c)"
  then obtain q f where q: "(q, f) \<in> set (os_files (fs_os d))" "strict_prefix (fs_root d) q"
      "selects p c (drop (length (fs_root d)) q)" "x = fs_meta sha (rel_key (drop (length (fs_root d)) q)) f"
    by (auto simp: collected_def)
  let ?rel = "drop (length (fs_root d)) q"
  have "key_names (rel_key ?rel) = ?rel" using q(3) key_names_rel_key by (simp add: selects_def)
  then have "fs_file d (rel_key ?rel) = Some f"
    using q(1,2) tree_okD(1) [OF fs_okD(2) [OF ok]]
    by (simp add: fs_file_def prefix_drop os_file_def)
  then show "\<exists>k \<in> fs_keys d p c. x = the (fs_listed sha d k)"
    using q(3,4) by (intro bexI [of _ "rel_key ?rel"]) (simp_all add: fs_listed_def fs_keys_def selects_def)
next
  assume "\<exists>k \<in> fs_keys d p c. x = the (fs_listed sha d k)"
  then obtain k f where k: "k \<in> fs_keys d p c" "fs_file d k = Some f" "x = fs_meta sha k f"
    by (force simp: fs_keys_def fs_listed_def)
  have path: "data_path (key_names k)" using stored_data_path [OF ok, of k] k(2) by simp
  then have "rel_key (key_names k) = k" "strict_prefix (fs_root d) (fs_root d @ key_names k)"
    by (simp_all add: rel_key_key_names strict_prefix_def) (simp add: key_names_def)
  moreover have "(fs_root d @ key_names k, f) \<in> set (os_files (fs_os d))"
    using k(2) by (simp add: fs_file_def os_file_def map_of_SomeD)
  ultimately show "x \<in> set (collected sha d p c)"
    using k path unfolding collected_def
    by (intro image_eqI [of _ _ "(fs_root d @ key_names k, f)", THEN list.set_map [THEN equalityD2, THEN subsetD]])
      (simp_all add: selects_def fs_keys_def)
qed

lemma distinct_collected:
  assumes "fs_ok d"
  shows "distinct (map kmKey (collected sha d p c))"
proof -
  let ?R = "fs_root d"
  let ?fs = "filter (\<lambda>x. selects p c (drop (length ?R) (fst x))) (filter (\<lambda>x. strict_prefix ?R (fst x)) (os_files (fs_os d)))"
  have "map kmKey (collected sha d p c) = map (\<lambda>q. rel_key (drop (length ?R) q)) (map fst ?fs)"
    by (simp add: collected_def comp_def)
  moreover have "distinct (map fst ?fs)"
    using tree_okD(1) [OF fs_okD(2) [OF assms]] by (simp add: distinct_map_filter)
  moreover have "inj_on (\<lambda>q. rel_key (drop (length ?R) q)) (set (map fst ?fs))"
  proof (rule inj_onI)
    fix q q'
    assume q: "q \<in> set (map fst ?fs)" "q' \<in> set (map fst ?fs)"
      and eq: "rel_key (drop (length ?R) q) = rel_key (drop (length ?R) q')"
    then have "drop (length ?R) q = drop (length ?R) q'" by (auto simp: selects_def rel_key_inject)
    moreover have "strict_prefix ?R q" "strict_prefix ?R q'" using q by auto
    ultimately show "q = q'" by (metis prefix_drop)
  qed
  ultimately show ?thesis by (simp only: distinct_map)
qed

lemma fs_collected:
  assumes "fs_quiet d"
  shows "sort_key kmKey (List.map_filter (fs_list_visit sha (called (fs_os d)) (rootDir d) p c)
      (fst (Walk (fs_os d) (rootDir d)))) = fs_rest sha d p c"
proof -
  note ok = fs_quiet_ok [OF assms]
  have keys: "kmKey (the (fs_listed sha d k)) = k" if "k \<in> fs_keys d p c" for k
    using that by (auto simp: fs_keys_def fs_listed_def)
  have "\<forall>x \<in> set (collected sha d p c). x = the (fs_listed sha d (kmKey x))"
    using in_collected [OF ok] keys by metis
  moreover have "kmKey ` set (collected sha d p c) = fs_keys d p c"
    using in_collected [OF ok] keys by (auto simp: image_iff) (metis)+
  ultimately show ?thesis
    unfolding fs_collects [OF assms] fs_rest_def
    using sort_key_listing [OF distinct_collected [OF ok], where g = "\<lambda>k. the (fs_listed sha d k)"] by simp
qed

section \<open>Paging\<close>

lemma above_nth:
  fixes ks :: "('a :: linorder) list"
  assumes "sorted_wrt (<) ks" and "0 < n" and "n \<le> length ks"
  shows "{k \<in> set ks. ks ! (n - 1) < k} = set (drop n ks)"
proof -
  have "ks ! (n - 1) < ks ! i \<longleftrightarrow> n \<le> i" if "i < length ks" for i
  proof
    assume "ks ! (n - 1) < ks ! i"
    moreover have "n - 1 < length ks" using assms(2,3) by simp
    ultimately have "i \<noteq> n - 1" "\<not> i < n - 1"
      using sorted_wrt_nth_less [OF assms(1), of i "n - 1"] by auto
    then show "n \<le> i" by simp
  next
    assume "n \<le> i"
    then show "ks ! (n - 1) < ks ! i" using sorted_wrt_nth_less [OF assms(1), of "n - 1" i] assms(2) that by simp
  qed
  then have "{k \<in> set ks. ks ! (n - 1) < k} = {ks ! i | i. i < length ks \<and> n \<le> i}"
    by (auto simp: in_set_conv_nth)
  also have "\<dots> = set (map ((!) ks) [n..<length ks])" by auto
  also have "map ((!) ks) [n..<length ks] = drop n ks" by (rule nth_equalityI) simp_all
  finally show ?thesis .
qed

lemma fs_keys_resume:
  assumes n: "0 < n" "n \<le> card (fs_keys d p c)"
  defines "l \<equiv> sorted_list_of_set (fs_keys d p c) ! (n - 1)"
  assumes "l \<noteq> []"
  shows "sorted_list_of_set (fs_keys d p l) = drop n (sorted_list_of_set (fs_keys d p c))"
proof -
  define ks where "ks = sorted_list_of_set (fs_keys d p c)"
  have ks: "sorted_wrt (<) ks" "set ks = fs_keys d p c" "length ks = card (fs_keys d p c)"
    using finite_fs_keys by (simp_all add: ks_def)
  have l: "l = ks ! (n - 1)" by (simp add: l_def ks_def)
  then have "l \<in> fs_keys d p c" using ks n by (metis Suc_pred' lessI nth_mem order_less_le_trans)
  then have "fs_keys d p l = {k \<in> set ks. l < k}"
    using \<open>l \<noteq> []\<close> ks(2) by (auto simp: fs_keys_def not_le)
  also have "\<dots> = set (drop n ks)" using above_nth [OF ks(1) n(1)] n(2) ks(3) l by simp
  finally have "sorted_list_of_set (fs_keys d p l) = sorted_list_of_set (set (drop n ks))" by simp
  also have "\<dots> = drop n ks"
    using ks(1) by (intro strict_sorted_equal) (simp_all add: sorted_wrt_drop)
  finally show ?thesis by (simp add: ks_def)
qed

definition fs_pageable :: "FsDriver \<Rightarrow> bool" where
  "fs_pageable d \<longleftrightarrow> fs_quiet d \<and> fs_file d [] = None"

lemma fs_List_page:
  assumes "fs_quiet d"
  shows "fs_List sha d p opts =
    (Inr (if 0 < loLimit opts \<and> loLimit opts < int (length (fs_rest sha d p (loCursor opts)))
      then (take (nat (loLimit opts)) (fs_rest sha d p (loCursor opts)),
            kmKey (fs_rest sha d p (loCursor opts) ! (nat (loLimit opts) - 1)))
      else (fs_rest sha d p (loCursor opts), [])), d\<lparr>fs_os := called (called (fs_os d))\<rparr>)"
proof -
  obtain vs where vs: "Walk (fs_os d) (rootDir d) = (vs, called (fs_os d))"
    using fs_walk [OF assms] by simp
  let ?raw = "List.map_filter (fs_list_visit sha (called (fs_os d)) (rootDir d) p (loCursor opts)) vs"
  have "sort_key kmKey ?raw = fs_rest sha d p (loCursor opts)"
    using fs_collected [OF assms, of sha p "loCursor opts"] by (simp add: vs)
  moreover from this have "length ?raw = length (fs_rest sha d p (loCursor opts))" by (metis length_sort)
  ultimately show ?thesis by (simp add: fs_List_def Let_def vs)
qed

lemma fs_rest_later: "fs_rest sha (d\<lparr>fs_os := called os\<rparr>) = fs_rest sha (d\<lparr>fs_os := os\<rparr>)"
  by (simp add: fs_rest_def fs_keys_def fs_listed_def fun_eq_iff)

interpretation fs: pager "fs_driver sha" "fs_rest sha" fs_pageable
proof (unfold_locales, goal_cases)
  case (1 s limit p c r s')
  note quiet = 1(1) [unfolded fs_pageable_def, THEN conjunct1]
  let ?ks = "sorted_list_of_set (fs_keys s p c)" and ?n = "nat limit" and ?rest = "fs_rest sha s p c"
  have len: "length ?rest = length ?ks" by (simp add: fs_rest_def)
  have s': "s' = s\<lparr>fs_os := called (called (fs_os s))\<rparr>"
    and r: "r = Inr (if limit < int (length ?rest) then (take ?n ?rest, kmKey (?rest ! (?n - 1))) else (?rest, []))"
    using 1(2,3) fs_List_page [OF quiet, of sha p "page_opts limit c"] by (simp_all add: page_opts_def)
  have keep: "fs_pageable s'" "\<And>p c. fs_rest sha s' p c = fs_rest sha s p c"
    using 1(1) by (simp_all add: s' fs_pageable_def fs_rest_later)
  have "is_page ?rest (fs_rest sha s p) limit
      (if limit < int (length ?rest) then (take ?n ?rest, kmKey (?rest ! (?n - 1))) else (?rest, []))"
  proof (cases "limit < int (length ?rest)")
    case False
    then show ?thesis by (simp add: is_page_def)
  next
    case True
    then have n: "0 < ?n" "?n < length ?ks" "?n \<le> card (fs_keys s p c)" using 1(2) len by auto
    let ?l = "?ks ! (?n - 1)"
    have "?l \<in> set ?ks" by (rule nth_mem) (use n in simp)
    then have mem: "?l \<in> fs_keys s p c" using finite_fs_keys by simp
    then have l: "?l \<noteq> []" "kmKey (?rest ! (?n - 1)) = ?l"
      using 1(1) n by (auto simp: fs_pageable_def fs_keys_def fs_rest_def fs_listed_def)
    from fs_keys_resume [OF n(1,3) l(1)] have "fs_rest sha s p ?l = drop ?n ?rest"
      by (simp add: fs_rest_def drop_map)
    moreover have "?rest \<noteq> []" using len n by auto
    ultimately show ?thesis using True l n len by (simp add: is_page_def)
  qed
  with keep r show ?case by blast
qed

section \<open>Listing property\<close>

text \<open>
  C35: listing of the filesystem driver. Without faults, a page of \<open>List\<close> is a leading part of the
  entries under the prefix behind the cursor, in strictly ascending key order, whose keys are
  exactly those of the stored documents; an empty next cursor means nothing is left, any other
  continues exactly behind the page. Temporary files and directories are never reported. (No file
  is named \<open>.data\<close> at the root: its key would be the empty string, which means "no cursor".)
\<close>

theorem fs_List_pages:
  assumes "fs_pageable d" and "0 < limit"
  shows "\<exists>page nxt d'. fs_List sha d p (page_opts limit c) = (Inr (page, nxt), d')
    \<and> is_page (fs_rest sha d p c) (fs_rest sha d p) limit (page, nxt)
    \<and> sorted_wrt (<) (map kmKey (fs_rest sha d p c))
    \<and> set (map kmKey (fs_rest sha d p c)) = {k. HasPrefix k p \<and> (c = [] \<or> c < k) \<and> fs_stored sha d k \<noteq> None}"
proof -
  obtain page nxt d' where pg: "fs_List sha d p (page_opts limit c) = (Inr (page, nxt), d')"
    "is_page (fs_rest sha d p c) (fs_rest sha d p) limit (page, nxt)"
    using fs.page_result [OF assms, of sha p c "fst (fs_List sha d p (page_opts limit c))"
        "snd (fs_List sha d p (page_opts limit c))"]
    by (auto simp: prod_eq_iff)
  have "map kmKey (fs_rest sha d p c) = sorted_list_of_set (fs_keys d p c)"
    using set_sorted_list_of_set [OF finite_fs_keys [of d p c]]
    by (auto simp: fs_rest_def fs_keys_def fs_listed_def intro!: map_idI)
  moreover have "fs_keys d p c = {k. HasPrefix k p \<and> (c = [] \<or> c < k) \<and> fs_stored sha d k \<noteq> None}"
    by (auto simp: fs_keys_def fs_stored_def not_le)
  ultimately show ?thesis using pg finite_fs_keys [of d p c] by simp
qed

theorem fs_List_pages_witness:
  "\<exists>page nxt d'. fs_List (\<lambda>bs. bs) (fresh_driver (\<lambda>n p. None)) ''a/'' (page_opts 5 []) = (Inr (page, nxt), d')
     \<and> is_page (fs_rest (\<lambda>bs. bs) (fresh_driver (\<lambda>n p. None)) ''a/'' [])
         (fs_rest (\<lambda>bs. bs) (fresh_driver (\<lambda>n p. None)) ''a/'') 5 (page, nxt)"
proof -
  have "fs_pageable (fresh_driver (\<lambda>n p. None))"
    using fresh_driver_quiet fresh_driver_ok(3) [of "\<lambda>n p. None"]
    by (simp add: fs_pageable_def fs_file_def os_file_def)
  from fs_List_pages [OF this, of 5 "\<lambda>bs. bs" "''a/''" "[]"] show ?thesis by auto
qed

section \<open>Keys that are not clean paths, and failing calls\<close>

lemmas fs_run_simps = fresh_driver_def empty_os_def fs_Put_def fs_put_check_def fs_write_def keyToPath_def
  path_Join_def path_Clean_def path_Dir_def path_names_def clean_names_def clean_step_def
  MkdirAll_def WriteFile_def Rename_def Stat_def ReadFile_def Remove_def Now_def tmp_path_def Let_def resolve_def
  bad_path_def syscall_fault_def os_file_def os_dir_def called_def add_dirs_def set_file_def drop_file_def
  missing_def MatchAnyETag_def

text \<open>
  A key may leave the root: \<open>Clean\<close> keeps leading \<open>..\<close> elements of a relative key and \<open>Join\<close> then
  resolves them against the root, so a \<open>Put\<close> of \<open>../x\<close> writes beside the root directory.
\<close>

lemma show_int_digits: "show_int 0 = ''0''" "show_int 1 = ''1''" "show_int 2 = ''2''"
  by code_simp+

theorem fs_key_escapes_root:
  "fs_root (fresh_driver (\<lambda>n p. None)) = [''srv''] \<and>
   os_file (fs_os (snd (fs_Put (\<lambda>bs. bs) (fresh_driver (\<lambda>n p. None)) ''../x'' [7] []))) [''x.data''] = Some ([7], 1)"
  by (simp add: fs_root_def fs_run_simps show_int_digits)

text \<open>Keys with the same clean form share one file: \<open>a//b\<close>, \<open>/a/b\<close> and \<open>a/./b\<close> are all \<open>a/b\<close>.\<close>

theorem fs_keys_alias:
  "rootDir d \<noteq> [] \<Longrightarrow>
   keyToPath d ''a//b'' = keyToPath d ''a/b'' \<and> keyToPath d ''a/./b'' = keyToPath d ''a/b'' \<and>
   resolve os (keyToPath d ''/a/b'') = resolve os (keyToPath d ''a/b'')"
  by (simp add: keyToPath_def path_Join_def path_Clean_def [of "''a//b''"] path_Clean_def [of "''a/b''"]
      path_Clean_def [of "''a/./b''"] path_Clean_def [of "''/a/b''"] path_names_def clean_names_def clean_step_def)
    (simp add: resolve_def clean_names_def clean_step_def IsAbs_append Split_slash_append)

text \<open>
  \<open>Put\<close> takes every failure of \<open>Stat\<close> as absence. A create-only write of a key that exists
  succeeds and replaces the document when that one call fails (here its call number 6).
\<close>

theorem fs_create_overwrites:
  "let sha = (\<lambda>bs. bs); d0 = fresh_driver (\<lambda>n p. if n = 6 then Some (''input/output error'', 0) else None);
       (r1, d1) = fs_Put sha d0 ''k'' [1] MatchAnyETag;
       (r2, d2) = fs_Put sha d1 ''k'' [2] MatchAnyETag
   in (\<exists>obj. r1 = Inr (Some obj)) \<and> map_option fst (fs_file d1 ''k'') = Some [1] \<and>
      (\<exists>obj. r2 = Inr (Some obj)) \<and> map_option fst (fs_file d2 ''k'') = Some [2]"
  by (simp add: fs_root_def fs_file_def key_names_def key_dir_def key_base_def fs_run_simps show_int_digits)

text \<open>
  A write that fails while it writes the temporary file leaves that file behind: nothing removes
  it, and no listing shows it.
\<close>

theorem fs_leaves_temporary:
  "let d0 = fresh_driver (\<lambda>n p. if n = 3 then Some (''no space left on device'', 2) else None);
       (r, d1) = fs_Put (\<lambda>bs. bs) d0 ''k'' [1, 2, 3] []
   in (\<exists>err. r = Inl err) \<and> fs_file d1 ''k'' = None \<and>
      os_file (fs_os d1) [''srv'', ''k.data.tmp.0''] = Some ([1], 1)"
  by (simp add: fs_root_def fs_file_def key_names_def key_dir_def key_base_def fs_run_simps show_int_digits)

text \<open>
  \<open>List\<close> drops what it cannot read and reports success: with an unreadable root directory the
  listing of a store with a document is empty.
\<close>

theorem fs_List_swallows_errors:
  "let sha = (\<lambda>bs. bs); d0 = fresh_driver (\<lambda>n p. if n = 6 then Some (''permission denied'', 0) else None);
       (r1, d1) = fs_Put sha d0 ''k'' [1] []
   in map_option fst (fs_file d1 ''k'') = Some [1] \<and> fst (fs_List sha d1 [] (page_opts 10 [])) = Inr ([], [])"
  by (simp add: fs_root_def fs_file_def key_names_def key_dir_def key_base_def fs_run_simps show_int_digits
      fs_List_def page_opts_def Walk_def walk_visits_def List.map_filter_simps)

end
