(* ===== verification/S3Driver.thy ===== *)
theory S3Driver
  imports Storage
begin

text \<open>
  pkg/storage/s3/s3.go: the driver over an S3 bucket. The client of the AWS SDK and the service
  behind it are not part of the repository: the client is a parameter, a record of the four
  calls the driver makes over the state of the service, and what the driver relies on is the locale
  \<open>s3_service\<close>, the documented behaviour of the service. The driver maps keys, ETags and errors.
\<close>

section \<open>The client of the SDK, a parameter\<close>

text \<open>
  The errors that the driver tells apart: the typed errors \<open>types.NoSuchKey\<close> and \<open>types.NotFound\<close>, other
  errors of the API with their code, and errors that are none (transport, context).
\<close>

datatype s3_error = NoSuchKey gerror | NotFound gerror | APIError string gerror | OtherError gerror

fun s3_cause :: "s3_error \<Rightarrow> gerror" where
  "s3_cause (NoSuchKey e) = e"
| "s3_cause (NotFound e) = e"
| "s3_cause (APIError c e) = e"
| "s3_cause (OtherError e) = e"

text \<open>\<open>errors.As\<close> to \<open>smithy.APIError\<close> and \<open>ErrorCode\<close>, which the typed errors implement as well.\<close>

fun ErrorCode :: "s3_error \<Rightarrow> string option" where
  "ErrorCode (NoSuchKey e) = Some ''NoSuchKey''"
| "ErrorCode (NotFound e) = Some ''NotFound''"
| "ErrorCode (APIError c e) = Some c"
| "ErrorCode (OtherError e) = None"

record GetObjectOutput =
  go_Body :: "gerror + bytes"
  go_ETag :: "string option"
  go_LastModified :: "gotime option"

record PutObjectInput =
  pi_Bucket :: string
  pi_Key :: string
  pi_Body :: bytes
  pi_IfMatch :: "string option"
  pi_IfNoneMatch :: "string option"

record s3_Object =
  so_Key :: "string option"
  so_Size :: "int option"
  so_ETag :: "string option"
  so_LastModified :: "gotime option"

record ListInput =
  li_Bucket :: string
  li_Prefix :: string
  li_MaxKeys :: "int option"
  li_Token :: "string option"

record ListOutput =
  lo_Contents :: "s3_Object list"
  lo_NextToken :: "string option"

record 's S3Client =
  GetObject :: "'s \<Rightarrow> string \<Rightarrow> string \<Rightarrow> (s3_error + GetObjectOutput) \<times> 's"
  PutObject :: "'s \<Rightarrow> PutObjectInput \<Rightarrow> (s3_error + string option) \<times> 's"
  DeleteObject :: "'s \<Rightarrow> string \<Rightarrow> string \<Rightarrow> s3_error option \<times> 's"
  ListObjectsV2 :: "'s \<Rightarrow> ListInput \<Rightarrow> (s3_error + ListOutput) \<times> 's"

section \<open>Configuration\<close>

record S3Config =
  c_Endpoint :: string
  c_Bucket :: string
  c_Region :: string
  c_AccessKey :: string
  c_SecretKey :: string
  c_SessionToken :: string
  c_Prefix :: string
  c_HTTPClient :: bool

text \<open>
  The options that \<open>NewDriver\<close> gives to the SDK: the region, whether a client of its own is used,
  the static credentials if any (key, secret, session token), the base endpoint if any.
\<close>

record LoadOptions =
  op_region :: string
  op_httpClient :: bool
  op_credentials :: "(string \<times> string \<times> string) option"
  op_endpoint :: "string option"

record 's S3Driver =
  s3_client :: "'s S3Client"
  s3_bucket :: string
  s3_prefix :: string
  s3_remote :: 's
  s3_clock :: "nat \<Rightarrow> gotime"
  s3_ticks :: nat

definition s3_region :: "(string \<Rightarrow> string) \<Rightarrow> S3Config \<Rightarrow> string" where
  "s3_region Getenv cfg =
     (let region = c_Region cfg;
          region = (if region = [] then Getenv ''JAYDB_S3_REGION'' else region);
          region = (if region = [] then Getenv ''AWS_REGION'' else region)
      in if region = [] then ''us-east-1'' else region)"

definition s3_credentials :: "(string \<Rightarrow> string) \<Rightarrow> S3Config \<Rightarrow> (string \<times> string \<times> string) option" where
  "s3_credentials Getenv cfg =
     (let sessionToken = (if c_SessionToken cfg = [] then Getenv ''AWS_SESSION_TOKEN'' else c_SessionToken cfg) in
      if c_AccessKey cfg \<noteq> [] \<and> c_SecretKey cfg \<noteq> [] then Some (c_AccessKey cfg, c_SecretKey cfg, sessionToken)
      else if c_Endpoint cfg \<noteq> [] \<or> c_HTTPClient cfg then Some (''dummy-key'', ''dummy-secret'', [])
      else None)"

definition s3_options :: "(string \<Rightarrow> string) \<Rightarrow> S3Config \<Rightarrow> LoadOptions" where
  "s3_options Getenv cfg =
     \<lparr>op_region = s3_region Getenv cfg, op_httpClient = c_HTTPClient cfg,
      op_credentials = s3_credentials Getenv cfg,
      op_endpoint = (if c_Endpoint cfg \<noteq> [] then Some (c_Endpoint cfg) else None)\<rparr>"

text \<open>\<open>NewDriver\<close>, with \<open>load\<close> the SDK's loading of its configuration and making of a client.\<close>

definition s3_NewDriver ::
  "(string \<Rightarrow> string) \<Rightarrow> (LoadOptions \<Rightarrow> gerror + 's S3Client \<times> 's) \<Rightarrow> (nat \<Rightarrow> gotime) \<Rightarrow> S3Config \<Rightarrow> gerror + 's S3Driver" where
  "s3_NewDriver Getenv load clk cfg =
     (case load (s3_options Getenv cfg) of
        Inl err \<Rightarrow> Inl (Wrapped ''failed to load AWS config: '' err)
      | Inr (client, remote) \<Rightarrow>
          Inr \<lparr>s3_client = client, s3_bucket = c_Bucket cfg, s3_prefix = Trim (c_Prefix cfg) (CHR ''/''),
            s3_remote = remote, s3_clock = clk, s3_ticks = 0\<rparr>)"

section \<open>Methods\<close>

definition resolveKey :: "'s S3Driver \<Rightarrow> string \<Rightarrow> string" where
  "resolveKey d key =
     (let cleanKey = TrimPrefix key ''/'' in
      if s3_prefix d = [] then cleanKey else s3_prefix d @ ''/'' @ cleanKey)"

definition quoted :: "string \<Rightarrow> string" where
  "quoted s = [CHR 0x22] @ s @ [CHR 0x22]"

text \<open>The ETag of an answer, with exactly one pair of quotes; empty when the answer has none.\<close>

definition s3_etag :: "string option \<Rightarrow> string" where
  "s3_etag e = (case e of None \<Rightarrow> [] | Some etag \<Rightarrow> quoted (Trim etag (CHR 0x22)))"

definition s3_now :: "'s S3Driver \<Rightarrow> gotime \<times> 's S3Driver" where
  "s3_now d = (s3_clock d (s3_ticks d), d\<lparr>s3_ticks := s3_ticks d + 1\<rparr>)"

definition s3_Get :: "'s S3Driver \<Rightarrow> string \<Rightarrow> (gerror + Object option) \<times> 's S3Driver" where
  "s3_Get d key =
     (case GetObject (s3_client d) (s3_remote d) (s3_bucket d) (resolveKey d key) of
        (Inl err, remote) \<Rightarrow>
          (Inl (case err of
              NoSuchKey _ \<Rightarrow> ErrNotFound
            | NotFound _ \<Rightarrow> ErrNotFound
            | _ \<Rightarrow>
                if ErrorCode err \<in> {Some ''NoSuchKey'', Some ''NotFound'', Some ''404''} then ErrNotFound
                else Wrapped ''s3 get failed: '' (s3_cause err)),
           d\<lparr>s3_remote := remote\<rparr>)
      | (Inr out, remote) \<Rightarrow>
          (case go_Body out of
             Inl err \<Rightarrow> (Inl (Wrapped ''s3 read body failed: '' err), d\<lparr>s3_remote := remote\<rparr>)
           | Inr data \<Rightarrow>
               let (now, d') = s3_now (d\<lparr>s3_remote := remote\<rparr>);
                   modTime = (case go_LastModified out of None \<Rightarrow> now | Some t \<Rightarrow> t)
               in (Inr (Some \<lparr>oKey = key, oValue = data, oETag = s3_etag (go_ETag out), oModTime = modTime,
                     oMetadata = []\<rparr>), d')))"

definition s3_put_input :: "'s S3Driver \<Rightarrow> string \<Rightarrow> bytes \<Rightarrow> string \<Rightarrow> PutObjectInput" where
  "s3_put_input d key value expectedETag =
     \<lparr>pi_Bucket = s3_bucket d, pi_Key = resolveKey d key, pi_Body = value,
      pi_IfMatch = (if expectedETag \<noteq> MatchAnyETag \<and> expectedETag \<noteq> []
        then Some (quoted (Trim expectedETag (CHR 0x22))) else None),
      pi_IfNoneMatch = (if expectedETag = MatchAnyETag then Some ''*'' else None)\<rparr>"

text \<open>The error of a failed \<open>PutObject\<close>; \<open>Quote\<close> is the verb \<open>%q\<close>.\<close>

definition s3_put_error :: "(string \<Rightarrow> string) \<Rightarrow> string \<Rightarrow> string \<Rightarrow> s3_error \<Rightarrow> gerror" where
  "s3_put_error Quote s3Key expectedETag err =
     (let failed = Wrapped ''s3 put failed: '' (s3_cause err) in
      case ErrorCode err of
        None \<Rightarrow> failed
      | Some code \<Rightarrow>
          if code = ''PreconditionFailed'' \<or> code = ''412'' then
            (if expectedETag = MatchAnyETag then ErrAlreadyExists else ErrVersionMismatch)
          else if code = ''AccessDenied'' then
            (if expectedETag = MatchAnyETag then ErrAlreadyExists
             else Wrapped (''s3 conditional put denied for '' @ Quote s3Key @
               '': If-Match requires both s3:PutObject and s3:GetObject on this bucket: '') (s3_cause err))
          else failed)"

definition s3_Put ::
  "(string \<Rightarrow> string) \<Rightarrow> 's S3Driver \<Rightarrow> string \<Rightarrow> bytes \<Rightarrow> string \<Rightarrow> (gerror + Object option) \<times> 's S3Driver" where
  "s3_Put Quote d key value expectedETag =
     (case PutObject (s3_client d) (s3_remote d) (s3_put_input d key value expectedETag) of
        (Inl err, remote) \<Rightarrow>
          (Inl (s3_put_error Quote (resolveKey d key) expectedETag err), d\<lparr>s3_remote := remote\<rparr>)
      | (Inr etag, remote) \<Rightarrow>
          let (now, d') = s3_now (d\<lparr>s3_remote := remote\<rparr>) in
          (Inr (Some \<lparr>oKey = key, oValue = value, oETag = s3_etag etag, oModTime = now, oMetadata = []\<rparr>), d'))"

text \<open>\<open>Delete\<close> takes an expected ETag and does not use it.\<close>

definition s3_Delete :: "'s S3Driver \<Rightarrow> string \<Rightarrow> string \<Rightarrow> gerror option \<times> 's S3Driver" where
  "s3_Delete d key expectedETag =
     (case DeleteObject (s3_client d) (s3_remote d) (s3_bucket d) (resolveKey d key) of
        (Some err, remote) \<Rightarrow> (Some (Wrapped ''s3 delete failed: '' (s3_cause err)), d\<lparr>s3_remote := remote\<rparr>)
      | (None, remote) \<Rightarrow> (None, d\<lparr>s3_remote := remote\<rparr>))"

text \<open>The conversion \<open>int32(opts.Limit)\<close> wraps.\<close>

definition s3_list_input :: "'s S3Driver \<Rightarrow> string \<Rightarrow> ListOptions \<Rightarrow> ListInput" where
  "s3_list_input d prefx opts =
     \<lparr>li_Bucket = s3_bucket d, li_Prefix = resolveKey d prefx,
      li_MaxKeys = (if loLimit opts > 0 then Some (sint (word_of_int (loLimit opts) :: 32 word)) else None),
      li_Token = (if loCursor opts \<noteq> [] then Some (loCursor opts) else None)\<rparr>"

fun s3_list_loop :: "'s S3Driver \<Rightarrow> s3_Object list \<Rightarrow> KeyMeta list \<Rightarrow> KeyMeta list \<times> 's S3Driver" where
  "s3_list_loop d [] results = (results, d)"
| "s3_list_loop d (obj # objs) results =
     (case so_Key obj of
        None \<Rightarrow> s3_list_loop d objs results
      | Some k0 \<Rightarrow>
          let k = (if s3_prefix d \<noteq> [] then TrimPrefix k0 (s3_prefix d @ ''/'') else k0);
              (now, d') = s3_now d;
              modTime = (case so_LastModified obj of None \<Rightarrow> now | Some t \<Rightarrow> t);
              size = (case so_Size obj of None \<Rightarrow> 0 | Some n \<Rightarrow> n)
          in s3_list_loop d' objs
               (results @ [\<lparr>kmKey = k, kmSize = size, kmETag = s3_etag (so_ETag obj), kmModTime = modTime\<rparr>]))"

definition s3_List ::
  "'s S3Driver \<Rightarrow> string \<Rightarrow> ListOptions \<Rightarrow> (gerror + (KeyMeta list \<times> string)) \<times> 's S3Driver" where
  "s3_List d prefx opts =
     (case ListObjectsV2 (s3_client d) (s3_remote d) (s3_list_input d prefx opts) of
        (Inl err, remote) \<Rightarrow> (Inl (Wrapped ''s3 list failed: '' (s3_cause err)), d\<lparr>s3_remote := remote\<rparr>)
      | (Inr out, remote) \<Rightarrow>
          let (results, d') = s3_list_loop (d\<lparr>s3_remote := remote\<rparr>) (lo_Contents out) [];
              nextCursor = (case lo_NextToken out of None \<Rightarrow> [] | Some t \<Rightarrow> t)
          in (Inr (results, nextCursor), d'))"

definition s3_Close :: "'s S3Driver \<Rightarrow> gerror option \<times> 's S3Driver" where
  "s3_Close d = (None, d)"

definition s3_driver :: "(string \<Rightarrow> string) \<Rightarrow> 's S3Driver Driver" where
  "s3_driver Quote =
     \<lparr>dGet = s3_Get, dPut = s3_Put Quote, dDelete = s3_Delete, dList = s3_List, dClose = s3_Close\<rparr>"

lemma s3_driver_simps [simp]:
  "dGet (s3_driver Quote) = s3_Get" "dPut (s3_driver Quote) = s3_Put Quote"
  "dDelete (s3_driver Quote) = s3_Delete" "dList (s3_driver Quote) = s3_List" "dClose (s3_driver Quote) = s3_Close"
  by (simp_all add: s3_driver_def)

section \<open>What the driver relies on\<close>

text \<open>
  The documented behaviour of the service, with \<open>objs s b k\<close> the payload and the entity tag of the
  object \<open>k\<close> of bucket \<open>b\<close>: strong read-after-write consistency, conditional writes, entity tags in
  quotes. Any call may fail, and a failed write or delete may have happened.
\<close>

locale s3_service =
  fixes cl :: "'s S3Client"
    and objs :: "'s \<Rightarrow> string \<Rightarrow> string \<Rightarrow> (bytes \<times> string) option"
    and svc_ok :: "'s \<Rightarrow> bool"
  assumes get_keeps: "svc_ok s \<Longrightarrow> GetObject cl s b k = (r, s') \<Longrightarrow> svc_ok s' \<and> objs s' = objs s"
    and get_object: "svc_ok s \<Longrightarrow> GetObject cl s b k = (Inr out, s') \<Longrightarrow>
      \<exists>v e. objs s b k = Some (v, e) \<and> go_ETag out = Some e \<and> (\<forall>data. go_Body out = Inr data \<longrightarrow> data = v)"
    and put_keeps: "svc_ok s \<Longrightarrow> PutObject cl s i = (pr, s') \<Longrightarrow> svc_ok s'"
    and put_others: "svc_ok s \<Longrightarrow> PutObject cl s i = (pr, s') \<Longrightarrow> (b, k) \<noteq> (pi_Bucket i, pi_Key i) \<Longrightarrow>
      objs s' b k = objs s b k"
    and put_success: "svc_ok s \<Longrightarrow> PutObject cl s i = (Inr etag, s') \<Longrightarrow>
      \<exists>e. etag = Some e \<and> objs s' (pi_Bucket i) (pi_Key i) = Some (pi_Body i, e)"
    and put_failure: "svc_ok s \<Longrightarrow> PutObject cl s i = (Inl err, s') \<Longrightarrow>
      objs s' (pi_Bucket i) (pi_Key i) = objs s (pi_Bucket i) (pi_Key i) \<or>
      (\<exists>e. objs s' (pi_Bucket i) (pi_Key i) = Some (pi_Body i, e))"
    and put_if_match: "svc_ok s \<Longrightarrow> PutObject cl s i = (Inr etag, s') \<Longrightarrow> pi_IfMatch i = Some e \<Longrightarrow>
      \<exists>v. objs s (pi_Bucket i) (pi_Key i) = Some (v, e)"
    and put_if_none_match: "svc_ok s \<Longrightarrow> PutObject cl s i = (Inr etag, s') \<Longrightarrow> pi_IfNoneMatch i = Some ''*'' \<Longrightarrow>
      objs s (pi_Bucket i) (pi_Key i) = None"
    and delete_keeps: "svc_ok s \<Longrightarrow> DeleteObject cl s b k = (dr, s') \<Longrightarrow> svc_ok s'"
    and delete_others: "svc_ok s \<Longrightarrow> DeleteObject cl s b k = (dr, s') \<Longrightarrow> (b', k') \<noteq> (b, k) \<Longrightarrow>
      objs s' b' k' = objs s b' k'"
    and delete_result: "svc_ok s \<Longrightarrow> DeleteObject cl s b k = (dr, s') \<Longrightarrow>
      objs s' b k = None \<or> (dr \<noteq> None \<and> objs s' b k = objs s b k)"
    and entity_tags: "svc_ok s \<Longrightarrow> objs s b k = Some (v, e) \<Longrightarrow> \<exists>t. e = quoted t \<and> CHR 0x22 \<notin> set t"

text \<open>The documents of a driver; a key with a leading slash is another name of the key without it.\<close>

definition s3_good :: "string \<Rightarrow> bool" where
  "s3_good k \<longleftrightarrow> \<not> HasPrefix k ''/''"

definition s3_stored :: "('s \<Rightarrow> string \<Rightarrow> string \<Rightarrow> (bytes \<times> string) option) \<Rightarrow> 's S3Driver \<Rightarrow> string \<Rightarrow> doc option" where
  "s3_stored objs d k = (if s3_good k then objs (s3_remote d) (s3_bucket d) (resolveKey d k) else None)"

definition s3_ok :: "'s S3Client \<Rightarrow> ('s \<Rightarrow> bool) \<Rightarrow> 's S3Driver \<Rightarrow> bool" where
  "s3_ok cl svc_ok d \<longleftrightarrow> s3_client d = cl \<and> svc_ok (s3_remote d)"

lemma resolveKey_inject:
  "s3_good k \<Longrightarrow> s3_good k' \<Longrightarrow> resolveKey d k = resolveKey d k' \<longleftrightarrow> k = k'"
  by (simp add: s3_good_def resolveKey_def TrimPrefix_def Let_def)

lemma resolveKey_remote [simp]:
  "resolveKey (d\<lparr>s3_remote := r\<rparr>) = resolveKey d" "resolveKey (d\<lparr>s3_ticks := n\<rparr>) = resolveKey d"
  by (simp_all add: resolveKey_def fun_eq_iff Let_def)

lemma s3_now_simps [simp]: "s3_now d = (s3_clock d (s3_ticks d), d\<lparr>s3_ticks := s3_ticks d + 1\<rparr>)"
  by (simp add: s3_now_def)

lemma s3_update_simps [simp]:
  "s3_ok cl svc_ok (d\<lparr>s3_ticks := n\<rparr>) = s3_ok cl svc_ok d"
  "s3_stored objs (d\<lparr>s3_ticks := n\<rparr>) = s3_stored objs d"
  by (simp_all add: s3_ok_def s3_stored_def fun_eq_iff)

lemma Trim_quoted: "CHR 0x22 \<notin> set t \<Longrightarrow> Trim (quoted t) (CHR 0x22) = t"
proof -
  assume "CHR 0x22 \<notin> set t"
  then have "dropWhile (\<lambda>x. x = CHR 0x22) (t @ [CHR 0x22]) = (if t = [] then [] else t @ [CHR 0x22])"
    by (cases t) auto
  moreover have "dropWhile (\<lambda>x. x = CHR 0x22) (rev t) = rev t"
    using \<open>CHR 0x22 \<notin> set t\<close> by (cases "rev t") (auto dest: arg_cong [of _ _ set])
  ultimately show ?thesis by (auto simp: Trim_def quoted_def)
qed

lemma s3_etag_quoted: "CHR 0x22 \<notin> set t \<Longrightarrow> s3_etag (Some (quoted t)) = quoted t"
  by (simp add: s3_etag_def Trim_quoted)

context s3_service
begin

lemma etag_kept: "svc_ok s \<Longrightarrow> objs s b k = Some (v, e) \<Longrightarrow> s3_etag (Some e) = e"
  using entity_tags s3_etag_quoted by blast

lemma s3_get:
  assumes "s3_ok cl svc_ok d" and "s3_Get d k = (r, d')"
  shows "s3_ok cl svc_ok d'" "s3_stored objs d' = s3_stored objs d"
    "s3_good k \<Longrightarrow> r = Inr (Some obj) \<Longrightarrow> oKey obj = k \<and> s3_stored objs d k = Some (doc_of obj)"
proof -
  obtain g remote where g: "GetObject cl (s3_remote d) (s3_bucket d) (resolveKey d k) = (g, remote)" by fastforce
  have ok: "svc_ok (s3_remote d)" "s3_client d = cl" using assms(1) by (simp_all add: s3_ok_def)
  note keeps = get_keeps [OF ok(1) g]
  have d': "d' = d\<lparr>s3_remote := remote\<rparr> \<or> d' = d\<lparr>s3_remote := remote, s3_ticks := s3_ticks d + 1\<rparr>"
    using assms(2) g ok(2) by (auto simp: s3_Get_def Let_def split: sum.splits)
  then show "s3_ok cl svc_ok d'" "s3_stored objs d' = s3_stored objs d"
    using keeps ok(2) by (auto simp: s3_ok_def s3_stored_def fun_eq_iff)
  show "oKey obj = k \<and> s3_stored objs d k = Some (doc_of obj)" if good: "s3_good k" and r: "r = Inr (Some obj)"
  proof -
    obtain out data where out: "g = Inr out" "go_Body out = Inr data" "oKey obj = k" "oValue obj = data"
        "oETag obj = s3_etag (go_ETag out)"
      using assms(2) g ok(2) r by (auto simp: s3_Get_def Let_def split: sum.splits)
    from get_object [OF ok(1) g [unfolded out(1)]] obtain v e where
      v: "objs (s3_remote d) (s3_bucket d) (resolveKey d k) = Some (v, e)" "go_ETag out = Some e" "data = v"
      using out(2) by blast
    with etag_kept [OF ok(1) v(1)] good out show ?thesis by (simp add: s3_stored_def doc_of_def)
  qed
qed

lemma s3_put:
  assumes "s3_ok cl svc_ok d" and "s3_good k" and "s3_Put Quote d k v e = (r, d')"
  shows "s3_ok cl svc_ok d'" "k' \<noteq> k \<Longrightarrow> s3_stored objs d' k' = s3_stored objs d k'"
    "s3_stored objs d' k = s3_stored objs d k \<or> (\<exists>etag. s3_stored objs d' k = Some (v, etag))"
    "r = Inr (Some obj) \<Longrightarrow> oKey obj = k \<and> oValue obj = v \<and> s3_stored objs d' k = Some (doc_of obj)"
    "r = Inr (Some obj) \<Longrightarrow> e = MatchAnyETag \<Longrightarrow> s3_stored objs d k = None"
    "r = Inr (Some obj) \<Longrightarrow> e \<noteq> MatchAnyETag \<Longrightarrow> e \<noteq> [] \<Longrightarrow>
      \<exists>w. s3_stored objs d k = Some (w, quoted (Trim e (CHR 0x22)))"
proof -
  let ?i = "s3_put_input d k v e"
  obtain p remote where p: "PutObject cl (s3_remote d) ?i = (p, remote)" by fastforce
  have ok: "svc_ok (s3_remote d)" "s3_client d = cl" using assms(1) by (simp_all add: s3_ok_def)
  have i: "pi_Bucket ?i = s3_bucket d" "pi_Key ?i = resolveKey d k" "pi_Body ?i = v" by (simp_all add: s3_put_input_def)
  have d': "d' = d\<lparr>s3_remote := remote\<rparr> \<or> d' = d\<lparr>s3_remote := remote, s3_ticks := s3_ticks d + 1\<rparr>"
    using assms(3) p ok(2) by (auto simp: s3_Put_def Let_def split: sum.splits)
  then have stored': "s3_stored objs d' q = (if s3_good q then objs remote (s3_bucket d) (resolveKey d q) else None)" for q
    by (auto simp: s3_stored_def)
  have before: "s3_stored objs d q = (if s3_good q then objs (s3_remote d) (s3_bucket d) (resolveKey d q) else None)" for q
    by (simp add: s3_stored_def)
  show "s3_ok cl svc_ok d'" using d' put_keeps [OF ok(1) p] ok(2) by (auto simp: s3_ok_def)
  show "s3_stored objs d' k' = s3_stored objs d k'" if "k' \<noteq> k"
    using put_others [OF ok(1) p, of "s3_bucket d" "resolveKey d k'"] resolveKey_inject [of k' k d] assms(2) that
    by (auto simp: stored' before i)
  show "s3_stored objs d' k = s3_stored objs d k \<or> (\<exists>etag. s3_stored objs d' k = Some (v, etag))"
    using p assms(2)
    by (cases p) (auto simp: stored' before i dest!: put_success [OF ok(1)] put_failure [OF ok(1)])
  assume r: "r = Inr (Some obj)"
  then obtain et where et: "p = Inr et" "oKey obj = k" "oValue obj = v" "oETag obj = s3_etag et"
    using assms(3) p ok(2) by (auto simp: s3_Put_def Let_def split: sum.splits)
  note p' = p [unfolded et(1)]
  from put_success [OF ok(1) p'] obtain e' where e': "et = Some e'" "objs remote (s3_bucket d) (resolveKey d k) = Some (v, e')"
    by (auto simp: i)
  from etag_kept [OF put_keeps [OF ok(1) p] e'(2)] e' et assms(2)
  show "oKey obj = k \<and> oValue obj = v \<and> s3_stored objs d' k = Some (doc_of obj)" by (simp add: stored' doc_of_def)
  show "s3_stored objs d k = None" if "e = MatchAnyETag"
    using put_if_none_match [OF ok(1) p'] that by (simp add: s3_stored_def s3_put_input_def)
  show "\<exists>w. s3_stored objs d k = Some (w, quoted (Trim e (CHR 0x22)))" if "e \<noteq> MatchAnyETag" "e \<noteq> []"
    using put_if_match [OF ok(1) p'] that assms(2) by (simp add: s3_stored_def s3_put_input_def)
qed

lemma s3_delete:
  assumes "s3_ok cl svc_ok d" and "s3_good k" and "s3_Delete d k e = (de, d')"
  shows "s3_ok cl svc_ok d'" "k' \<noteq> k \<Longrightarrow> s3_stored objs d' k' = s3_stored objs d k'"
    "s3_stored objs d' k = None \<or> (de \<noteq> None \<and> s3_stored objs d' k = s3_stored objs d k)"
proof -
  obtain p remote where p: "DeleteObject cl (s3_remote d) (s3_bucket d) (resolveKey d k) = (p, remote)" by fastforce
  have ok: "svc_ok (s3_remote d)" "s3_client d = cl" using assms(1) by (simp_all add: s3_ok_def)
  have d': "d' = d\<lparr>s3_remote := remote\<rparr>" and de: "de = None \<longleftrightarrow> p = None"
    using assms(3) p ok(2) by (auto simp: s3_Delete_def split: option.splits)
  show "s3_ok cl svc_ok d'" using d' delete_keeps [OF ok(1) p] ok(2) by (simp add: s3_ok_def)
  show "s3_stored objs d' k' = s3_stored objs d k'" if "k' \<noteq> k"
    using delete_others [OF ok(1) p, of "s3_bucket d" "resolveKey d k'"] resolveKey_inject [of k' k d] assms(2) that
    by (auto simp: d' s3_stored_def)
  show "s3_stored objs d' k = None \<or> (de \<noteq> None \<and> s3_stored objs d' k = s3_stored objs d k)"
    using delete_result [OF ok(1) p] assms(2) de by (auto simp: d' s3_stored_def)
qed

end

sublocale s3_service \<subseteq> s3: keyed_driver "s3_driver Quote" "s3_stored objs" "s3_ok cl svc_ok" s3_good for Quote
proof (unfold_locales, goal_cases)
  case (1 s k r s')
  then show ?case using s3_get(1,2) [of s k r s'] by simp
next
  case (2 s k obj s')
  then show ?case using s3_get(3) [of s k "Inr (Some obj)" s' obj] by simp
next
  case (3 s k v e r s')
  then show ?case using s3_put(1) [of s k Quote v e r s'] by simp
next
  case (4 s k v e r s' k')
  then show ?case using s3_put(2) [of s k Quote v e r s' k'] by simp
next
  case (5 s k v e r s')
  then show ?case using s3_put(3) [of s k Quote v e r s'] by simp
next
  case (6 s k v e obj s')
  then show ?case using s3_put(4) [of s k Quote v e "Inr (Some obj)" s' obj] by simp
next
  case (7 s k e de s')
  then show ?case using s3_delete(1) [of s k e de s'] by simp
next
  case (8 s k e de s' k')
  then show ?case using s3_delete(2) [of s k e de s' k'] by simp
next
  case (9 s k e de s')
  then show ?case using s3_delete(3) [of s k e de s'] by auto
qed

context s3_service
begin

lemma s3_calls:
  assumes "s3_ok cl svc_ok d" and "\<forall>c \<in> set calls. s3_good (call_key c)"
  shows "s3_ok cl svc_ok (run_calls (s3_driver Quote) calls d) \<and>
    traceable calls k (s3_stored objs d k) (s3_stored objs (run_calls (s3_driver Quote) calls d) k)"
  using assms by (rule s3.calls_traceable)

end

section \<open>A bucket in memory\<close>

text \<open>
  A service that behaves as documented: objects by bucket and key, entity tags that depend on the
  payload, conditional writes. It shows that the assumptions on the service can be met.
\<close>

type_synonym bucket = "(string \<times> string, bytes \<times> string) gomap"

definition mem_etag :: "bytes \<Rightarrow> string" where
  "mem_etag v = quoted (hex_of_bytes v)"

definition bucket_Get :: "bucket \<Rightarrow> string \<Rightarrow> string \<Rightarrow> (s3_error + GetObjectOutput) \<times> bucket" where
  "bucket_Get s b k = (case map_of s (b, k) of
     None \<Rightarrow> (Inl (NoSuchKey (ErrorMsg ''NoSuchKey'')), s)
   | Some (v, e) \<Rightarrow> (Inr \<lparr>go_Body = Inr v, go_ETag = Some e, go_LastModified = None\<rparr>, s))"

definition bucket_Put :: "bucket \<Rightarrow> PutObjectInput \<Rightarrow> (s3_error + string option) \<times> bucket" where
  "bucket_Put s i =
     (let cur = map_of s (pi_Bucket i, pi_Key i); e = mem_etag (pi_Body i);
          holds = (case pi_IfMatch i of None \<Rightarrow> True | Some t \<Rightarrow> map_option snd cur = Some t) \<and>
                  (pi_IfNoneMatch i = None \<or> cur = None)
      in if holds then (Inr (Some e), AList.update (pi_Bucket i, pi_Key i) (pi_Body i, e) s)
         else (Inl (APIError ''PreconditionFailed'' (ErrorMsg ''PreconditionFailed'')), s))"

definition bucket_Delete :: "bucket \<Rightarrow> string \<Rightarrow> string \<Rightarrow> s3_error option \<times> bucket" where
  "bucket_Delete s b k = (None, AList.delete (b, k) s)"

definition bucket_List :: "bucket \<Rightarrow> ListInput \<Rightarrow> (s3_error + ListOutput) \<times> bucket" where
  "bucket_List s i =
     (let keys = sort (filter (\<lambda>k. HasPrefix k (li_Prefix i) \<and> (case li_Token i of None \<Rightarrow> True | Some t \<Rightarrow> t < k))
            (map (snd \<circ> fst) (filter (\<lambda>x. fst (fst x) = li_Bucket i) s)));
          n = (case li_MaxKeys i of None \<Rightarrow> 1000 | Some m \<Rightarrow> nat m);
          entry = (\<lambda>k. \<lparr>so_Key = Some k, so_Size = map_option (int \<circ> length \<circ> fst) (map_of s (li_Bucket i, k)),
            so_ETag = map_option snd (map_of s (li_Bucket i, k)), so_LastModified = None\<rparr>)
      in (Inr \<lparr>lo_Contents = map entry (take n keys),
            lo_NextToken = (if 0 < n \<and> n < length keys then Some (keys ! (n - 1)) else None)\<rparr>, s))"

definition bucket_client :: "bucket S3Client" where
  "bucket_client = \<lparr>GetObject = bucket_Get, PutObject = bucket_Put, DeleteObject = bucket_Delete, ListObjectsV2 = bucket_List\<rparr>"

definition bucket_objs :: "bucket \<Rightarrow> string \<Rightarrow> string \<Rightarrow> (bytes \<times> string) option" where
  "bucket_objs s b k = map_of s (b, k)"

definition bucket_ok :: "bucket \<Rightarrow> bool" where
  "bucket_ok s \<longleftrightarrow> (\<forall>x v e. map_of s x = Some (v, e) \<longrightarrow> e = mem_etag v)"

lemma hexdigit_not_quote: "n < 16 \<Longrightarrow> hexdigit n \<noteq> CHR 0x22"
proof -
  assume "n < 16"
  then have "(of_char (hexdigit n) :: nat) \<noteq> 34" by (simp add: hexdigit_def)
  then show ?thesis by auto
qed

lemma hex_no_quote: "CHR 0x22 \<notin> set (hex_of_bytes bs)"
proof -
  have "unat b < 256" for b :: byte
    using unsigned_less [of b] by simp
  then have "unat b div 16 < 16" for b :: byte
    by (simp add: div_less_iff_less_mult)
  then show ?thesis
    using hexdigit_not_quote [THEN not_sym] by (auto simp: hex_of_bytes_def)
qed

interpretation bucket: s3_service bucket_client bucket_objs bucket_ok
proof (unfold_locales, goal_cases)
  case (12 s b k v e)
  then have "e = quoted (hex_of_bytes v)" by (simp add: bucket_ok_def bucket_objs_def mem_etag_def)
  then show ?case using hex_no_quote by blast
qed (auto simp: bucket_client_def bucket_Get_def bucket_Put_def bucket_Delete_def bucket_objs_def bucket_ok_def Let_def
    split: option.splits if_splits)

section \<open>Properties\<close>

text \<open>
  Over a service with the documented behaviour, whatever calls fail, a sequence of calls on
  the S3 driver leaves at every key the document that was there, or a payload some \<open>Put\<close> of that
  key wrote, or nothing after a \<open>Delete\<close> of that key; what a \<open>Get\<close> returns is the document.
\<close>

theorem s3_writes_traceable:
  assumes "s3_service cl objs svc_ok" and "s3_ok cl svc_ok d" and "\<forall>c \<in> set calls. s3_good (call_key c)"
  shows "let d' = run_calls (s3_driver Quote) calls d in
    s3_ok cl svc_ok d' \<and> (\<forall>k. traceable calls k (s3_stored objs d k) (s3_stored objs d' k)) \<and>
    (\<forall>k obj. s3_good k \<and> fst (s3_Get d' k) = Inr (Some obj) \<longrightarrow> s3_stored objs d' k = Some (doc_of obj))"
proof -
  let ?d' = "run_calls (s3_driver Quote) calls d"
  note runs = s3_service.s3_calls [OF assms]
  have ok: "s3_ok cl svc_ok ?d'" using runs by blast
  have "s3_stored objs ?d' k = Some (doc_of obj)" if "s3_good k" "fst (s3_Get ?d' k) = Inr (Some obj)" for k obj
    using s3_service.s3_get(3) [OF assms(1) ok prod.collapse [symmetric] that] by blast
  with runs show ?thesis by (simp add: Let_def)
qed

theorem s3_writes_traceable_witness:
  "let d = \<lparr>s3_client = bucket_client, s3_bucket = ''b'', s3_prefix = ''p'', s3_remote = [], s3_clock = (\<lambda>n. 0), s3_ticks = 0\<rparr>;
       calls = [CallPut ''k'' [1] [], CallDelete ''k'' []];
       d' = run_calls (s3_driver (\<lambda>s. s)) calls d
   in \<forall>k. traceable calls k (s3_stored bucket_objs d k) (s3_stored bucket_objs d' k)"
proof -
  let ?d = "\<lparr>s3_client = bucket_client, s3_bucket = ''b'', s3_prefix = ''p'', s3_remote = [], s3_clock = (\<lambda>n. 0), s3_ticks = 0\<rparr>"
  have "s3_ok bucket_client bucket_ok ?d" by (simp add: s3_ok_def bucket_ok_def)
  from s3_writes_traceable [OF bucket.s3_service_axioms this, of "[CallPut ''k'' [1] [], CallDelete ''k'' []]" "\<lambda>s. s"]
  show ?thesis by (simp add: Let_def s3_good_def HasPrefix_def)
qed

text \<open>
  C36: a conditional write through S3 never overwrites another version: a create-only \<open>Put\<close> that
  succeeds found no document, and a \<open>Put\<close> with an expected ETag that succeeds found exactly that
  version; after it, a second writer that still holds the old ETag is not successful, unless the
  new version has the same ETag.
\<close>

theorem s3_no_lost_update:
  assumes "s3_service cl objs svc_ok" and "s3_ok cl svc_ok d" and "s3_good k"
    and "s3_Put Quote d k v e = (Inr (Some obj), d')" and "e \<noteq> []"
  shows "(if e = MatchAnyETag then s3_stored objs d k = None
      else \<exists>w. s3_stored objs d k = Some (w, quoted (Trim e (CHR 0x22))))
    \<and> s3_stored objs d' k = Some (v, oETag obj)
    \<and> (e \<noteq> MatchAnyETag \<and> oETag obj \<noteq> quoted (Trim e (CHR 0x22)) \<longrightarrow>
        (\<forall>w. \<exists>err. fst (s3_Put Quote d' k w e) = Inl err))"
proof -
  note put = s3_service.s3_put [OF assms(1-4)]
  have stored': "s3_stored objs d' k = Some (v, oETag obj)" using put(4) by (simp add: doc_of_def)
  have "\<exists>err. fst (s3_Put Quote d' k w e) = Inl err"
    if "e \<noteq> MatchAnyETag" and "oETag obj \<noteq> quoted (Trim e (CHR 0x22))" for w
  proof (cases "fst (s3_Put Quote d' k w e)" rule: go_result_cases)
    case nilobj
    then show ?thesis by (auto simp: s3_Put_def Let_def split: prod.splits sum.splits)
  next
    case (found obj')
    then have "s3_Put Quote d' k w e = (Inr (Some obj'), snd (s3_Put Quote d' k w e))" by (simp add: prod_eq_iff)
    from s3_service.s3_put(6) [OF assms(1) put(1) assms(3) this refl that(1) assms(5)] stored' that(2)
    show ?thesis by simp
  qed blast
  moreover have "if e = MatchAnyETag then s3_stored objs d k = None
      else \<exists>w. s3_stored objs d k = Some (w, quoted (Trim e (CHR 0x22)))"
    using put(5,6) assms(5) by simp
  ultimately show ?thesis using stored' by blast
qed

theorem s3_no_lost_update_witness:
  "let d = \<lparr>s3_client = bucket_client, s3_bucket = ''b'', s3_prefix = [], s3_remote = [((''b'', ''k''), [1], mem_etag [1])],
       s3_clock = (\<lambda>n. 0), s3_ticks = 0\<rparr>;
       d' = snd (s3_Put (\<lambda>s. s) d ''k'' [2] (mem_etag [1]))
   in s3_stored bucket_objs d' ''k'' = Some ([2], mem_etag [2]) \<and>
      (\<exists>err. fst (s3_Put (\<lambda>s. s) d' ''k'' [3] (mem_etag [1])) = Inl err)"
proof -
  let ?d = "\<lparr>s3_client = bucket_client, s3_bucket = ''b'', s3_prefix = [], s3_remote = [((''b'', ''k''), [1 :: byte], mem_etag [1])],
       s3_clock = (\<lambda>n. 0), s3_ticks = 0\<rparr>"
  have tag: "mem_etag [1] = quoted ''01''" "mem_etag [2] = quoted ''02''"
    by code_simp+
  have trim: "Trim (mem_etag [1]) (CHR 0x22) = ''01''" "Trim (quoted ''01'') (CHR 0x22) = ''01''" "Trim (quoted ''02'') (CHR 0x22) = ''02''"
    by (simp_all add: tag Trim_quoted)
  have ok: "s3_ok bucket_client bucket_ok ?d" by (simp add: s3_ok_def bucket_ok_def)
  have e: "mem_etag [1] \<noteq> []" "mem_etag [1] \<noteq> MatchAnyETag" by (simp_all add: tag quoted_def MatchAnyETag_def)
  have put: "s3_Put (\<lambda>s. s) ?d ''k'' [2] (mem_etag [1]) =
      (Inr (Some \<lparr>oKey = ''k'', oValue = [2], oETag = mem_etag [2], oModTime = 0, oMetadata = []\<rparr>),
       snd (s3_Put (\<lambda>s. s) ?d ''k'' [2] (mem_etag [1])))"
    using e by (simp add: s3_Put_def s3_put_input_def bucket_client_def bucket_Put_def Let_def resolveKey_def
        TrimPrefix_def HasPrefix_def trim s3_etag_def) (simp add: tag trim)
  have "s3_good ''k''" by (simp add: s3_good_def HasPrefix_def)
  from s3_no_lost_update [OF bucket.s3_service_axioms ok this put e(1)] e(2) show ?thesis
    by (simp add: Let_def trim) (simp add: tag quoted_def)
qed

text \<open>
  C37: how the S3 driver reports a failed write. ErrVersionMismatch means that the service answered
  with a failed precondition to a write that is not create-only, so a missing permission never looks
  like a concurrent writer; ErrAlreadyExists means a create-only write that was refused by its
  precondition or by the permissions; every other failure keeps its cause.
\<close>

theorem s3_put_errors:
  assumes "PutObject (s3_client d) (s3_remote d) (s3_put_input d k v e) = (Inl err, remote)"
  shows "\<exists>ge. s3_Put Quote d k v e = (Inl ge, d\<lparr>s3_remote := remote\<rparr>)
    \<and> (ge = ErrVersionMismatch \<longleftrightarrow> e \<noteq> MatchAnyETag \<and> ErrorCode err \<in> {Some ''PreconditionFailed'', Some ''412''})
    \<and> (ge = ErrAlreadyExists \<longleftrightarrow>
        e = MatchAnyETag \<and> ErrorCode err \<in> {Some ''PreconditionFailed'', Some ''412'', Some ''AccessDenied''})
    \<and> (ge = ErrVersionMismatch \<or> ge = ErrAlreadyExists \<or> (\<exists>m. ge = Wrapped m (s3_cause err)))"
  using assms by (auto simp: s3_Put_def s3_put_error_def Let_def split: option.splits)

theorem s3_put_errors_witness:
  "let cl = bucket_client\<lparr>PutObject := (\<lambda>s i. (Inl (APIError ''AccessDenied'' (ErrorMsg ''denied'')), s))\<rparr>;
       d = \<lparr>s3_client = cl, s3_bucket = ''b'', s3_prefix = [], s3_remote = [], s3_clock = (\<lambda>n. 0), s3_ticks = 0\<rparr>
   in \<exists>ge. s3_Put (\<lambda>s. s) d ''k'' [1] ''e'' = (Inl ge, d) \<and> ge \<noteq> ErrVersionMismatch"
proof -
  let ?cl = "bucket_client\<lparr>PutObject := (\<lambda>s i. (Inl (APIError ''AccessDenied'' (ErrorMsg ''denied'')), s))\<rparr>"
  let ?d = "\<lparr>s3_client = ?cl, s3_bucket = ''b'', s3_prefix = [], s3_remote = [], s3_clock = (\<lambda>n. 0), s3_ticks = 0\<rparr>"
  have "PutObject (s3_client ?d) (s3_remote ?d) (s3_put_input ?d ''k'' [1] ''e'') =
      (Inl (APIError ''AccessDenied'' (ErrorMsg ''denied'')), [])" by simp
  from s3_put_errors [OF this, of "\<lambda>s. s"] show ?thesis by (auto simp: Let_def)
qed

text \<open>
  \<open>Delete\<close> with an expected ETag is unconditional: a client that deletes the version it read removes
  the newer version another client wrote in between, and is told that it succeeded.
\<close>

theorem s3_delete_removes_newer:
  "let d = \<lparr>s3_client = bucket_client, s3_bucket = ''b'', s3_prefix = [], s3_remote = [((''b'', ''k''), [2], mem_etag [2])],
       s3_clock = (\<lambda>n. 0), s3_ticks = 0\<rparr>
   in s3_stored bucket_objs d ''k'' = Some ([2], mem_etag [2]) \<and>
      delete_precondition (mem_etag [1]) (s3_stored bucket_objs d ''k'') = Some ErrVersionMismatch \<and>
      fst (s3_Delete d ''k'' (mem_etag [1])) = None \<and>
      s3_stored bucket_objs (snd (s3_Delete d ''k'' (mem_etag [1]))) ''k'' = None"
  by (simp add: Let_def s3_stored_def s3_good_def HasPrefix_def bucket_objs_def resolveKey_def TrimPrefix_def
      delete_precondition_def s3_Delete_def bucket_client_def bucket_Delete_def mem_etag_def quoted_def MatchAnyETag_def
      hex_of_bytes_def hexdigit_def)

text \<open>The limit of a listing is converted to 32 bits: a limit of 2^32 asks the service for 0 keys.\<close>

theorem s3_limit_wraps: "li_MaxKeys (s3_list_input d p (page_opts (2 ^ 32) c)) = Some 0"
  by (simp add: s3_list_input_def page_opts_def)

end
