(* ===== verification/Metrics.thy ===== *)
theory Metrics
  imports JayPrelude Complex_Main
begin

text \<open>
  pkg/metrics/metrics.go: the metrics of the process and the collector that syncs the running totals
  of the caches into Prometheus counters. The Prometheus client is not part of the repository: what
  the code does with it is recorded as the list of the calls on its metrics. \<open>Conv n\<close> is the
  conversion float64(n) of an integer; float64 arguments that are only passed on have type \<open>'f\<close>.
\<close>

section \<open>The metrics\<close>

datatype metric =
    CacheHits | CacheMisses | CacheSingleflightHits | CacheSize | CacheItems | CacheEvictions
  | CacheSkippedLarge | CacheBudgetUsed | CacheBudgetLimit | CachePurgedOwnership
  | ObjectSize | StorageOpsTotal | StorageOpDuration | StorageBytesTransferred
  | HTTPRequestsTotal | HTTPRequestDuration | HTTPRequestSize | HTTPResponseSize
  | ClusterNodes | ClusterForwardedRequests | ClusterMeshConnections
  | DBOperationsTotal | DBOperationDuration | CASConflicts | KeyDistribution

datatype metric_kind = Counter | Gauge | Histogram

text \<open>Kind, name and labels, as registered.\<close>

fun metric_desc :: "metric \<Rightarrow> metric_kind \<times> string \<times> string list" where
  "metric_desc CacheHits = (Counter, ''jaydb_cache_hits_total'', [])"
| "metric_desc CacheMisses = (Counter, ''jaydb_cache_misses_total'', [])"
| "metric_desc CacheSingleflightHits = (Counter, ''jaydb_cache_singleflight_hits_total'', [])"
| "metric_desc CacheSize = (Gauge, ''jaydb_cache_size_bytes'', [])"
| "metric_desc CacheItems = (Gauge, ''jaydb_cache_items'', [])"
| "metric_desc CacheEvictions = (Counter, ''jaydb_cache_evictions_total'', [])"
| "metric_desc CacheSkippedLarge = (Counter, ''jaydb_cache_skipped_large_total'', [])"
| "metric_desc CacheBudgetUsed = (Gauge, ''jaydb_cache_budget_used_bytes'', [])"
| "metric_desc CacheBudgetLimit = (Gauge, ''jaydb_cache_budget_limit_bytes'', [])"
| "metric_desc CachePurgedOwnership = (Counter, ''jaydb_cache_purged_ownership_total'', [])"
| "metric_desc ObjectSize = (Histogram, ''jaydb_object_size_bytes'', [])"
| "metric_desc StorageOpsTotal = (Counter, ''jaydb_storage_operations_total'', [''operation'', ''status''])"
| "metric_desc StorageOpDuration = (Histogram, ''jaydb_storage_operation_duration_seconds'', [''operation''])"
| "metric_desc StorageBytesTransferred = (Counter, ''jaydb_storage_bytes_total'', [''operation''])"
| "metric_desc HTTPRequestsTotal = (Counter, ''jaydb_http_requests_total'', [''method'', ''path_prefix'', ''status''])"
| "metric_desc HTTPRequestDuration = (Histogram, ''jaydb_http_request_duration_seconds'', [''method'', ''path_prefix''])"
| "metric_desc HTTPRequestSize = (Histogram, ''jaydb_http_request_size_bytes'', [])"
| "metric_desc HTTPResponseSize = (Histogram, ''jaydb_http_response_size_bytes'', [])"
| "metric_desc ClusterNodes = (Gauge, ''jaydb_cluster_nodes'', [])"
| "metric_desc ClusterForwardedRequests = (Counter, ''jaydb_cluster_forwarded_requests_total'', [''target_node'', ''status''])"
| "metric_desc ClusterMeshConnections = (Gauge, ''jaydb_cluster_mesh_connections'', [])"
| "metric_desc DBOperationsTotal = (Counter, ''jaydb_db_operations_total'', [''operation'', ''status''])"
| "metric_desc DBOperationDuration = (Histogram, ''jaydb_db_operation_duration_seconds'', [''operation''])"
| "metric_desc CASConflicts = (Counter, ''jaydb_cas_conflicts_total'', [''operation''])"
| "metric_desc KeyDistribution = (Histogram, ''jaydb_key_distribution'', [''shard''])"

text \<open>The buckets of a histogram: listed, computed by the client from a start, a factor and a count, or its default.\<close>

datatype bucket_spec = Buckets "rat list" | ExponentialBuckets rat rat nat | DefBuckets

fun metric_buckets :: "metric \<Rightarrow> bucket_spec option" where
  "metric_buckets ObjectSize = Some (ExponentialBuckets 256 4 8)"
| "metric_buckets StorageOpDuration = Some DefBuckets"
| "metric_buckets HTTPRequestDuration = Some (Buckets [1 / 1000, 5 / 1000, 1 / 100, 25 / 1000, 5 / 100, 1 / 10, 25 / 100, 5 / 10, 1, 25 / 10, 5, 10])"
| "metric_buckets HTTPRequestSize = Some (ExponentialBuckets 100 10 8)"
| "metric_buckets HTTPResponseSize = Some (ExponentialBuckets 100 10 8)"
| "metric_buckets DBOperationDuration = Some (Buckets [1 / 10000, 5 / 10000, 1 / 1000, 25 / 10000, 5 / 1000, 1 / 100, 25 / 1000, 5 / 100, 1 / 10, 25 / 100, 5 / 10, 1])"
| "metric_buckets KeyDistribution = Some (Buckets [1, 2, 3, 4, 5, 6, 7, 8, 9, 10])"
| "metric_buckets m = None"

fun metric_help :: "metric \<Rightarrow> string" where
  "metric_help CacheHits =
     ''Total number of cache hits''"
| "metric_help CacheMisses =
     ''Total number of cache misses''"
| "metric_help CacheSingleflightHits =
     ''Total number of coalesced requests (singleflight hits)''"
| "metric_help CacheSize =
     ''Current cache size in bytes''"
| "metric_help CacheItems =
     ''Current number of items in cache''"
| "metric_help CacheEvictions =
     ''Total number of cache entries evicted to stay within the byte budget''"
| "metric_help CacheSkippedLarge =
     ''Total number of objects not cached because they exceeded the per-object size cap''"
| "metric_help CacheBudgetUsed =
     ''Bytes currently accounted for against the shared cache byte budget''"
| "metric_help CacheBudgetLimit =
     ''Configured shared cache byte budget; 0 means unbounded''"
| "metric_help CachePurgedOwnership =
     ''Total number of cache entries dropped because the ring moved their key to another node''"
| "metric_help ObjectSize =
     ''Size of documents read from or written to storage, in bytes''"
| "metric_help StorageOpsTotal =
     ''Total number of storage operations by type and status''"
| "metric_help StorageOpDuration =
     ''Duration of storage operations in seconds''"
| "metric_help StorageBytesTransferred =
     ''Total bytes transferred to/from storage backend''"
| "metric_help HTTPRequestsTotal =
     ''Total number of HTTP requests by method, path prefix, and status''"
| "metric_help HTTPRequestDuration =
     ''Duration of HTTP requests in seconds''"
| "metric_help HTTPRequestSize =
     ''Size of HTTP request bodies in bytes''"
| "metric_help HTTPResponseSize =
     ''Size of HTTP response bodies in bytes''"
| "metric_help ClusterNodes =
     ''Current number of nodes in the cluster''"
| "metric_help ClusterForwardedRequests =
     ''Total number of forwarded requests by status''"
| "metric_help ClusterMeshConnections =
     ''Current number of active cluster mesh TCP connections''"
| "metric_help DBOperationsTotal =
     ''Total number of database operations by type and status''"
| "metric_help DBOperationDuration =
     ''Duration of database operations in seconds''"
| "metric_help CASConflicts =
     ''Total number of CAS (compare-and-swap) conflicts by operation''"
| "metric_help KeyDistribution =
     ''Distribution of key path depths''"

datatype 'f num = Conv int | Flt 'f

datatype 'f event =
    Add metric "string list" "'f num"
  | Inc metric "string list"
  | SetTo metric "string list" "'f num"
  | Observe metric "string list" "'f num"

fun event_metric :: "'f event \<Rightarrow> metric" where
  "event_metric (Add m ls x) = m"
| "event_metric (Inc m ls) = m"
| "event_metric (SetTo m ls x) = m"
| "event_metric (Observe m ls x) = m"

fun event_labels :: "'f event \<Rightarrow> string list" where
  "event_labels (Add m ls x) = ls"
| "event_labels (Inc m ls) = ls"
| "event_labels (SetTo m ls x) = ls"
| "event_labels (Observe m ls x) = ls"

section \<open>The collector\<close>

text \<open>The functions of the collector read a state \<open>'s\<close> of the process, each may be nil.\<close>

type_synonym totals = "64 word \<times> 64 word \<times> 64 word"

record 's Collector =
  getStats :: "('s \<Rightarrow> totals) option"
  getSize :: "('s \<Rightarrow> int \<times> int) option"
  running :: "32 word"
  getEvictionStats :: "('s \<Rightarrow> totals) option"
  getBudget :: "('s \<Rightarrow> int \<times> int) option"
  lastHits :: "64 word"
  lastMisses :: "64 word"
  lastSfHits :: "64 word"
  lastEvictions :: "64 word"
  lastSkippedLarge :: "64 word"
  lastPurged :: "64 word"

definition NewCollector :: "('s \<Rightarrow> totals) option \<Rightarrow> ('s \<Rightarrow> int \<times> int) option \<Rightarrow> 's Collector" where
  "NewCollector stats sizes =
     \<lparr>getStats = stats, getSize = sizes, running = 0, getEvictionStats = None, getBudget = None,
      lastHits = 0, lastMisses = 0, lastSfHits = 0, lastEvictions = 0, lastSkippedLarge = 0, lastPurged = 0\<rparr>"

definition WithEvictionStats :: "('s \<Rightarrow> totals) option \<Rightarrow> 's Collector \<Rightarrow> 's Collector" where
  "WithEvictionStats f c = c\<lparr>getEvictionStats := f\<rparr>"

text \<open>The argument is an interface value with methods \<open>Used\<close> and \<open>Limit\<close>, or nil.\<close>

definition WithBudget :: "(('s \<Rightarrow> int) \<times> ('s \<Rightarrow> int)) option \<Rightarrow> 's Collector \<Rightarrow> 's Collector" where
  "WithBudget b c = (case b of None \<Rightarrow> c | Some (used, limit) \<Rightarrow> c\<lparr>getBudget := Some (\<lambda>s. (used s, limit s))\<rparr>)"

text \<open>\<open>delta\<close>: the increment and the new value of the variable that holds the last one.\<close>

definition delta :: "64 word \<Rightarrow> 64 word \<Rightarrow> 64 word \<times> 64 word" where
  "delta lst current = (if current < lst then (0, current) else (current - lst, current))"

definition conv_delta :: "64 word \<Rightarrow> 64 word \<Rightarrow> 'f num" where
  "conv_delta lst current = Conv (uint (fst (delta lst current)))"

definition sync_stats :: "'s Collector \<Rightarrow> 's \<Rightarrow> 'f event list \<times> 's Collector" where
  "sync_stats c s =
     (case getStats c of
        None \<Rightarrow> ([], c)
      | Some f \<Rightarrow>
          let (hits, misses, sfHits) = f s in
          ([Add CacheHits [] (conv_delta (lastHits c) hits),
            Add CacheMisses [] (conv_delta (lastMisses c) misses),
            Add CacheSingleflightHits [] (conv_delta (lastSfHits c) sfHits)],
           c\<lparr>lastHits := snd (delta (lastHits c) hits), lastMisses := snd (delta (lastMisses c) misses),
             lastSfHits := snd (delta (lastSfHits c) sfHits)\<rparr>))"

definition sync_evictions :: "'s Collector \<Rightarrow> 's \<Rightarrow> 'f event list \<times> 's Collector" where
  "sync_evictions c s =
     (case getEvictionStats c of
        None \<Rightarrow> ([], c)
      | Some f \<Rightarrow>
          let (evictions, skippedLarge, purged) = f s in
          ([Add CacheEvictions [] (conv_delta (lastEvictions c) evictions),
            Add CacheSkippedLarge [] (conv_delta (lastSkippedLarge c) skippedLarge),
            Add CachePurgedOwnership [] (conv_delta (lastPurged c) purged)],
           c\<lparr>lastEvictions := snd (delta (lastEvictions c) evictions),
             lastSkippedLarge := snd (delta (lastSkippedLarge c) skippedLarge),
             lastPurged := snd (delta (lastPurged c) purged)\<rparr>))"

definition UpdateCacheMetrics :: "'s Collector \<Rightarrow> 's \<Rightarrow> 'f event list \<times> 's Collector" where
  "UpdateCacheMetrics c s =
     (let (ev1, c1) = sync_stats c s;
          ev2 = (case getSize c1 of None \<Rightarrow> []
            | Some f \<Rightarrow> let (items, bytes) = f s in
                [SetTo CacheItems [] (Conv items), SetTo CacheSize [] (Conv bytes)]);
          (ev3, c2) = sync_evictions c1 s;
          ev4 = (case getBudget c2 of None \<Rightarrow> []
            | Some f \<Rightarrow> let (used, limit) = f s in
                [SetTo CacheBudgetUsed [] (Conv used), SetTo CacheBudgetLimit [] (Conv limit)])
      in (ev1 @ ev2 @ ev3 @ ev4, c2))"

definition Start :: "'s Collector \<Rightarrow> 's Collector" where
  "Start c = (if running c = 0 then c\<lparr>running := 1\<rparr> else c)"

definition Stop :: "'s Collector \<Rightarrow> 's Collector" where
  "Stop c = c\<lparr>running := 0\<rparr>"

section \<open>Recording functions\<close>

definition RecordStorageOp :: "string \<Rightarrow> string \<Rightarrow> 'f \<Rightarrow> int \<Rightarrow> 'f event list" where
  "RecordStorageOp operation status durationSecs bytes =
     [Inc StorageOpsTotal [operation, status], Observe StorageOpDuration [operation] (Flt durationSecs)] @
     (if bytes > 0 then [Add StorageBytesTransferred [operation] (Conv bytes)] else [])"

definition RecordHTTPRequest :: "string \<Rightarrow> string \<Rightarrow> string \<Rightarrow> 'f \<Rightarrow> int \<Rightarrow> int \<Rightarrow> 'f event list" where
  "RecordHTTPRequest method pathPrefix status durationSecs reqSize respSize =
     [Inc HTTPRequestsTotal [method, pathPrefix, status],
      Observe HTTPRequestDuration [method, pathPrefix] (Flt durationSecs)] @
     (if reqSize > 0 then [Observe HTTPRequestSize [] (Conv reqSize)] else []) @
     (if respSize > 0 then [Observe HTTPResponseSize [] (Conv respSize)] else [])"

definition RecordDBOperation :: "string \<Rightarrow> string \<Rightarrow> 'f \<Rightarrow> 'f event list" where
  "RecordDBOperation operation status durationSecs =
     [Inc DBOperationsTotal [operation, status], Observe DBOperationDuration [operation] (Flt durationSecs)]"

definition ObserveObjectSize :: "int \<Rightarrow> 'f event list" where
  "ObserveObjectSize bytes = (if bytes > 0 then [Observe ObjectSize [] (Conv bytes)] else [])"

section \<open>Runs of the collector\<close>

text \<open>A sequence of scrapes, each in a state of the process; the updates are serialised by the lock.\<close>

fun scrapes :: "'s Collector \<Rightarrow> 's list \<Rightarrow> 'f event list \<times> 's Collector" where
  "scrapes c [] = ([], c)"
| "scrapes c (s # ss) =
     (let (ev, c1) = UpdateCacheMetrics c s; (evs, c2) = scrapes c1 ss in (ev @ evs, c2))"

text \<open>What the calls add to a counter without labels.\<close>

fun added :: "metric \<Rightarrow> 'f event list \<Rightarrow> int" where
  "added m [] = 0"
| "added m (Add m' ls (Conv n) # evs) = (if m' = m \<and> ls = [] then n else 0) + added m evs"
| "added m (e # evs) = added m evs"

text \<open>The reference: how far a counter of the source advanced, counting nothing when it goes back.\<close>

fun advance :: "int \<Rightarrow> int list \<Rightarrow> int" where
  "advance p [] = 0"
| "advance p (x # xs) = max 0 (x - p) + advance x xs"

lemma added_Cons: "added m (e # evs) = added m [e] + added m evs"
proof (cases e)
  case (Add m' ls x)
  then show ?thesis by (cases x) simp_all
qed simp_all

lemma added_append [simp]: "added m (a @ b) = added m a + added m b"
proof (induction a)
  case (Cons e a)
  then show ?case using added_Cons [of m e "a @ b"] added_Cons [of m e a] by simp
qed simp

lemma delta_value: "uint (fst (delta l x)) = max 0 (uint x - uint l)" "snd (delta l x) = x"
proof -
  show "uint (fst (delta l x)) = max 0 (uint x - uint l)"
  proof (cases "x < l")
    case True
    then show ?thesis by (simp add: delta_def word_less_def)
  next
    case False
    then have "uint (x - l) = uint x - uint l" by (simp add: uint_sub_if' word_less_def not_less)
    with False show ?thesis by (simp add: delta_def word_less_def)
  qed
qed (simp add: delta_def)

lemma advance_sorted: "sorted (p # xs) \<Longrightarrow> advance p xs = last (p # xs) - p"
proof (induction xs arbitrary: p)
  case (Cons x xs)
  then have "advance x xs = last (x # xs) - x" "p \<le> x" by simp_all
  then show ?case by simp
qed simp

lemma update_getters:
  assumes "UpdateCacheMetrics c s = (ev, c')"
  shows "getStats c' = getStats c" "getEvictionStats c' = getEvictionStats c"
  using assms
  by (auto simp: UpdateCacheMetrics_def sync_stats_def sync_evictions_def Let_def split: option.splits prod.splits)

lemma update_stats:
  assumes "UpdateCacheMetrics c s = (ev, c')" and "getStats c = Some f"
  shows "added CacheHits ev = max 0 (uint (fst (f s)) - uint (lastHits c))" "lastHits c' = fst (f s)"
    "added CacheMisses ev = max 0 (uint (fst (snd (f s))) - uint (lastMisses c))" "lastMisses c' = fst (snd (f s))"
    "added CacheSingleflightHits ev = max 0 (uint (snd (snd (f s))) - uint (lastSfHits c))" "lastSfHits c' = snd (snd (f s))"
  using assms
  by (auto simp: UpdateCacheMetrics_def sync_stats_def sync_evictions_def conv_delta_def delta_value Let_def
      split: option.splits prod.splits)

lemma update_evictions:
  assumes "UpdateCacheMetrics c s = (ev, c')" and "getEvictionStats c = Some g"
  shows "added CacheEvictions ev = max 0 (uint (fst (g s)) - uint (lastEvictions c))" "lastEvictions c' = fst (g s)"
    "added CacheSkippedLarge ev = max 0 (uint (fst (snd (g s))) - uint (lastSkippedLarge c))"
    "lastSkippedLarge c' = fst (snd (g s))"
    "added CachePurgedOwnership ev = max 0 (uint (snd (snd (g s))) - uint (lastPurged c))" "lastPurged c' = snd (snd (g s))"
  using assms
  by (auto simp: UpdateCacheMetrics_def sync_stats_def sync_evictions_def conv_delta_def delta_value Let_def
      split: option.splits prod.splits)

lemma scrapes_Cons:
  assumes "scrapes c (s # ss) = (evs, c')"
  obtains ev c1 evs1 where "UpdateCacheMetrics c s = (ev, c1)" "scrapes c1 ss = (evs1, c')" "evs = ev @ evs1"
  using assms by (auto simp: Let_def split: prod.splits)

lemma scrapes_stats:
  assumes "scrapes c ss = (evs, c')" and "getStats c = Some f"
  shows "added CacheHits evs = advance (uint (lastHits c)) (map (\<lambda>s. uint (fst (f s))) ss)
    \<and> added CacheMisses evs = advance (uint (lastMisses c)) (map (\<lambda>s. uint (fst (snd (f s)))) ss)
    \<and> added CacheSingleflightHits evs = advance (uint (lastSfHits c)) (map (\<lambda>s. uint (snd (snd (f s)))) ss)"
  using assms
proof (induction ss arbitrary: c evs)
  case (Cons s ss)
  from Cons.prems(1) obtain ev c1 evs1 where
    u: "UpdateCacheMetrics c s = (ev, c1)" "scrapes c1 ss = (evs1, c')" "evs = ev @ evs1" by (rule scrapes_Cons)
  have "getStats c1 = Some f" using update_getters(1) [OF u(1)] Cons.prems(2) by simp
  from Cons.IH [OF u(2) this] update_stats [OF u(1) Cons.prems(2)] u(3) show ?case by simp
qed simp

lemma scrapes_evictions:
  assumes "scrapes c ss = (evs, c')" and "getEvictionStats c = Some g"
  shows "added CacheEvictions evs = advance (uint (lastEvictions c)) (map (\<lambda>s. uint (fst (g s))) ss)
    \<and> added CacheSkippedLarge evs = advance (uint (lastSkippedLarge c)) (map (\<lambda>s. uint (fst (snd (g s)))) ss)
    \<and> added CachePurgedOwnership evs = advance (uint (lastPurged c)) (map (\<lambda>s. uint (snd (snd (g s)))) ss)"
  using assms
proof (induction ss arbitrary: c evs)
  case (Cons s ss)
  from Cons.prems(1) obtain ev c1 evs1 where
    u: "UpdateCacheMetrics c s = (ev, c1)" "scrapes c1 ss = (evs1, c')" "evs = ev @ evs1" by (rule scrapes_Cons)
  have "getEvictionStats c1 = Some g" using update_getters(2) [OF u(1)] Cons.prems(2) by simp
  from Cons.IH [OF u(2) this] update_evictions [OF u(1) Cons.prems(2)] u(3) show ?case by simp
qed simp

section \<open>Properties\<close>

text \<open>
  C39: the counters never over-report. Over any sequence of scrapes, what a new collector adds to each
  cache counter is how far the running total of the cache advanced, with nothing added and nothing
  subtracted where the total goes backwards; as long as the totals only grow, the counter equals the
  total of the last scrape, however many scrapes there were.
\<close>

theorem collector_counters_exact:
  fixes f :: "'s \<Rightarrow> totals" and g :: "'s \<Rightarrow> totals" and ss :: "'s list"
  shows "let evs = fst (scrapes (WithEvictionStats (Some g) (NewCollector (Some f) sizes)) ss) :: 'f event list;
       total = (\<lambda>m s. uint (case m of CacheHits \<Rightarrow> fst (f s) | CacheMisses \<Rightarrow> fst (snd (f s))
         | CacheSingleflightHits \<Rightarrow> snd (snd (f s)) | CacheEvictions \<Rightarrow> fst (g s)
         | CacheSkippedLarge \<Rightarrow> fst (snd (g s)) | _ \<Rightarrow> snd (snd (g s))))
   in \<forall>m \<in> {CacheHits, CacheMisses, CacheSingleflightHits, CacheEvictions, CacheSkippedLarge, CachePurgedOwnership}.
        added m evs = advance 0 (map (total m) ss)
        \<and> (sorted (map (total m) ss) \<and> ss \<noteq> [] \<longrightarrow> added m evs = total m (last ss))"
proof -
  let ?c = "WithEvictionStats (Some g) (NewCollector (Some f) sizes)"
  obtain evs :: "'f event list" and c' where run: "scrapes ?c ss = (evs, c')" by fastforce
  have c: "getStats ?c = Some f" "getEvictionStats ?c = Some g" "lastHits ?c = 0" "lastMisses ?c = 0" "lastSfHits ?c = 0"
    "lastEvictions ?c = 0" "lastSkippedLarge ?c = 0" "lastPurged ?c = 0"
    by (simp_all add: WithEvictionStats_def NewCollector_def)
  have mono: "advance 0 (map t ss) = t (last ss)"
    if "sorted (map t ss)" "ss \<noteq> []" "\<And>s. 0 \<le> t s" for t :: "'s \<Rightarrow> int"
  proof -
    have "sorted (0 # map t ss)" using that by auto
    from advance_sorted [OF this] that(2) show ?thesis by (simp add: last_map)
  qed
  show ?thesis
    using scrapes_stats [OF run c(1)] scrapes_evictions [OF run c(2)] mono run c(3-8)
    by (simp add: Let_def)
qed

theorem collector_counters_exact_witness:
  "let evs = fst (scrapes (WithEvictionStats (Some (\<lambda>n. (0, 0, 0))) (NewCollector (Some (\<lambda>n. (n, n, 0))) None)) [3, 5 :: 64 word])
         :: unit event list
   in added CacheHits evs = 5"
  using collector_counters_exact [where 'f = unit and g = "\<lambda>n. (0, 0, 0)" and f = "\<lambda>n :: 64 word. (n, n, 0)"
      and sizes = None and ss = "[3, 5]"]
  by (simp add: Let_def)

fun event_ok :: "'f event \<Rightarrow> bool" where
  "event_ok (Add m ls x) \<longleftrightarrow> fst (metric_desc m) = Counter \<and> length ls = length (snd (snd (metric_desc m))) \<and>
     (case x of Conv n \<Rightarrow> 0 \<le> n | Flt f \<Rightarrow> True)"
| "event_ok (Inc m ls) \<longleftrightarrow> fst (metric_desc m) = Counter \<and> length ls = length (snd (snd (metric_desc m)))"
| "event_ok (SetTo m ls x) \<longleftrightarrow> fst (metric_desc m) = Gauge \<and> length ls = length (snd (snd (metric_desc m)))"
| "event_ok (Observe m ls x) \<longleftrightarrow> fst (metric_desc m) = Histogram \<and> length ls = length (snd (snd (metric_desc m)))"

lemma sync_events_ok: "list_all event_ok (fst (sync_stats c s))" "list_all event_ok (fst (sync_evictions c s))"
  by (auto simp: sync_stats_def sync_evictions_def conv_delta_def Let_def split: option.splits prod.splits)

lemma gauge_events_ok:
  "list_all event_ok (case h of None \<Rightarrow> [] | Some f \<Rightarrow> let (a, b) = f s in
     [SetTo CacheItems [] (Conv a), SetTo CacheSize [] (Conv b)])"
  "list_all event_ok (case h of None \<Rightarrow> [] | Some f \<Rightarrow> let (a, b) = f s in
     [SetTo CacheBudgetUsed [] (Conv a), SetTo CacheBudgetLimit [] (Conv b)])"
  by (auto simp: Let_def split: option.splits prod.splits)

lemma update_events_ok: "list_all event_ok (fst (UpdateCacheMetrics c s))"
  unfolding UpdateCacheMetrics_def
  by (simp add: Let_def [where f = "case_prod _"] Let_def [where s = "case _ of None \<Rightarrow> _ | Some f \<Rightarrow> _ f"]
      case_prod_beta sync_events_ok)
    (simp add: gauge_events_ok)

lemma recorded_events_ok:
  "list_all event_ok (RecordStorageOp oper status dur bytes)"
  "list_all event_ok (RecordHTTPRequest meth pathPrefix status dur reqSize respSize)"
  "list_all event_ok (RecordDBOperation oper status dur)" "list_all event_ok (ObserveObjectSize bytes)"
  by (simp_all add: RecordStorageOp_def RecordHTTPRequest_def RecordDBOperation_def ObserveObjectSize_def)

definition all_metrics :: "metric list" where
  "all_metrics = [CacheHits, CacheMisses, CacheSingleflightHits, CacheSize, CacheItems, CacheEvictions,
     CacheSkippedLarge, CacheBudgetUsed, CacheBudgetLimit, CachePurgedOwnership, ObjectSize, StorageOpsTotal,
     StorageOpDuration, StorageBytesTransferred, HTTPRequestsTotal, HTTPRequestDuration, HTTPRequestSize,
     HTTPResponseSize, ClusterNodes, ClusterForwardedRequests, ClusterMeshConnections, DBOperationsTotal,
     DBOperationDuration, CASConflicts, KeyDistribution]"

lemma metric_in_all: "m \<in> set all_metrics"
  by (cases m) (simp_all add: all_metrics_def)

lemma metric_names_distinct: "distinct (map (\<lambda>m. fst (snd (metric_desc m))) all_metrics)"
  by code_simp

text \<open>
  What the client demands of the buckets at registration: listed ones are strictly increasing, computed
  ones have a positive start, a factor above one and at least one bucket.
\<close>

fun buckets_ok :: "bucket_spec \<Rightarrow> bool" where
  "buckets_ok (Buckets xs) \<longleftrightarrow> sorted_wrt (<) xs"
| "buckets_ok (ExponentialBuckets start factor n) \<longleftrightarrow> 0 < start \<and> 1 < factor \<and> 1 \<le> n"
| "buckets_ok DefBuckets \<longleftrightarrow> True"

definition registration_ok :: "metric \<Rightarrow> bool" where
  "registration_ok m \<longleftrightarrow>
     (case metric_buckets m of
        None \<Rightarrow> fst (metric_desc m) \<noteq> Histogram
      | Some b \<Rightarrow> fst (metric_desc m) = Histogram \<and> buckets_ok b) \<and>
     distinct (snd (snd (metric_desc m))) \<and> metric_help m \<noteq> []"

lemma registrations_ok: "registration_ok m"
  by (cases m) (simp_all add: registration_ok_def)


end
