(* ===== verification/Flight.thy ===== *)
theory Flight
  imports Main
begin

text \<open>
  Coalescing of calls, as both caches do it: the first goroutine that misses a key registers a call in
  a table and leads it, later ones wait for the call. A leader works, takes its call out of the
  table and then closes it by publishing the result. The locale states what this takes of the
  goroutines, whatever else they do, and shows that the table stays consistent.
\<close>

locale coalescing =
  fixes leads :: "'g \<Rightarrow> ('k \<times> nat) option" and owes :: "'g \<Rightarrow> nat option" and awaits :: "'g \<Rightarrow> nat option"
  assumes leader_owes: "leads g = Some (k, c) \<Longrightarrow> owes g = Some c"
begin

text \<open>
  \<open>ok sf dn nx thr\<close>: the table \<open>sf\<close> has exactly the calls that are led; a call that somebody has to
  close is open and nobody else's; whoever waits, waits for a closed call or one that will be.
\<close>

definition ok :: "('k \<Rightarrow> nat option) \<Rightarrow> (nat \<Rightarrow> 'r option) \<Rightarrow> nat \<Rightarrow> (nat \<Rightarrow> 'g) \<Rightarrow> bool" where
  "ok sf dn nx thr \<longleftrightarrow>
     (\<forall>k c. sf k = Some c \<longleftrightarrow> (\<exists>t. leads (thr t) = Some (k, c))) \<and>
     (\<forall>t c. owes (thr t) = Some c \<longrightarrow> c < nx \<and> dn c = None) \<and>
     (\<forall>t t' c. owes (thr t) = Some c \<and> owes (thr t') = Some c \<longrightarrow> t = t') \<and>
     (\<forall>t c. awaits (thr t) = Some c \<longrightarrow> c < nx \<and> (dn c \<noteq> None \<or> (\<exists>t'. owes (thr t') = Some c)))"

lemma okD:
  assumes "ok sf dn nx thr"
  shows "sf k = Some c \<longleftrightarrow> (\<exists>t. leads (thr t) = Some (k, c))"
    "owes (thr t) = Some c \<Longrightarrow> c < nx" "owes (thr t) = Some c \<Longrightarrow> dn c = None"
    "owes (thr t) = Some c \<Longrightarrow> owes (thr t') = Some c \<Longrightarrow> t = t'"
    "awaits (thr t) = Some c \<Longrightarrow> c < nx"
    "awaits (thr t) = Some c \<Longrightarrow> dn c = None \<Longrightarrow> \<exists>t'. owes (thr t') = Some c"
  using assms unfolding ok_def by blast+

lemma okI:
  assumes "\<And>k c. sf k = Some c \<Longrightarrow> \<exists>t. leads (thr t) = Some (k, c)"
    and "\<And>t k c. leads (thr t) = Some (k, c) \<Longrightarrow> sf k = Some c"
    and "\<And>t c. owes (thr t) = Some c \<Longrightarrow> c < nx \<and> dn c = None"
    and "\<And>t t' c. owes (thr t) = Some c \<Longrightarrow> owes (thr t') = Some c \<Longrightarrow> t = t'"
    and "\<And>t c. awaits (thr t) = Some c \<Longrightarrow> c < nx"
    and "\<And>t c. awaits (thr t) = Some c \<Longrightarrow> dn c = None \<Longrightarrow> \<exists>t'. owes (thr t') = Some c"
  shows "ok sf dn nx thr"
  unfolding ok_def using assms by (intro conjI allI impI iffI; blast)

lemma ok_start: "(\<And>t. leads (thr t) = None \<and> owes (thr t) = None \<and> awaits (thr t) = None) \<Longrightarrow> ok (\<lambda>_. None) dn nx thr"
  by (simp add: ok_def)

text \<open>Two goroutines that lead a call for one key are one.\<close>

lemma one_leader:
  assumes ok: "ok sf dn nx thr" and "leads (thr t) = Some (k, c)" and "leads (thr u) = Some (k, c')"
  shows "t = u \<and> c = c' \<and> sf k = Some c"
proof -
  have "sf k = Some c" "sf k = Some c'" using okD(1) [OF ok] assms(2,3) by blast+
  then show ?thesis using okD(4) [OF ok leader_owes [OF assms(2)], of u] leader_owes [OF assms(3)] by auto
qed

text \<open>A step that leaves the goroutine with the same duties.\<close>

lemma ok_local:
  assumes ok: "ok sf dn nx thr" and g: "leads g = leads (thr t)" "owes g = owes (thr t)"
    and wait: "awaits g = None \<or> awaits g = awaits (thr t)"
  shows "ok sf dn nx (thr(t := g))"
proof -
  have l: "leads ((thr(t := g)) u) = leads (thr u)" "owes ((thr(t := g)) u) = owes (thr u)"
    "awaits ((thr(t := g)) u) = None \<or> awaits ((thr(t := g)) u) = awaits (thr u)" for u
    using g wait by auto
  show ?thesis
  proof (rule okI, goal_cases)
    case (1 k c)
    then show ?case using okD(1) [OF ok] l(1) by simp
  next
    case (2 u k c)
    then have "\<exists>v. leads (thr v) = Some (k, c)" using l(1) by metis
    then show ?case using okD(1) [OF ok] by simp
  next
    case (3 u c)
    then show ?case using okD(2,3) [OF ok, of u c] l(2) by simp
  next
    case (4 u v c)
    then show ?case using okD(4) [OF ok, of u c v] l(2) by simp
  next
    case (5 u c)
    then show ?case using okD(5) [OF ok, of u c] l(3) [of u] by auto
  next
    case (6 u c)
    then show ?case using okD(6) [OF ok, of u c] l(2) l(3) [of u] by auto
  qed
qed

lemma ok_register:
  assumes ok: "ok sf dn nx thr" and free: "sf k = None" and t: "leads (thr t) = None" "owes (thr t) = None"
    and g: "leads g = Some (k, nx)" "awaits g = None"
  shows "ok (sf(k \<mapsto> nx)) (dn(nx := None)) (nx + 1) (thr(t := g))"
proof -
  have o: "owes g = Some nx" by (rule leader_owes [OF g(1)])
  have fresh: "owes (thr u) \<noteq> Some nx" "awaits (thr u) \<noteq> Some nx" for u
    using okD(2,5) [OF ok] by blast+
  have free': "leads (thr u) \<noteq> Some (k, c)" for u c using okD(1) [OF ok, of k] free by fastforce
  show ?thesis
  proof (rule okI, goal_cases)
    case (1 k' c)
    show ?case
    proof (cases "k' = k")
      case True
      then show ?thesis using 1 g by (intro exI [of _ t]) simp
    next
      case False
      then obtain u where u: "leads (thr u) = Some (k', c)" using 1 okD(1) [OF ok, of k'] by auto
      then have "u \<noteq> t" using t(1) by auto
      with u show ?thesis by (intro exI [of _ u]) simp
    qed
  next
    case (2 u k' c)
    then show ?case using g okD(1) [OF ok, of k' c] free' [of u c] by (cases "u = t"; cases "k' = k") auto
  next
    case (3 u c)
    then show ?case using o okD(2,3) [OF ok, of u c] by (cases "u = t") auto
  next
    case (4 u v c)
    then show ?case using o okD(4) [OF ok, of u c v] fresh(1) by (cases "u = t"; cases "v = t") auto
  next
    case (5 u c)
    then show ?case using g okD(5) [OF ok, of u c] by (cases "u = t") auto
  next
    case (6 u c)
    then have "u \<noteq> t" "awaits (thr u) = Some c" "c \<noteq> nx" using fresh(2) g by (auto split: if_splits)
    with 6 obtain v where v: "owes (thr v) = Some c" using okD(6) [OF ok, of u c] by auto
    then have "v \<noteq> t" using t(2) by auto
    with v show ?case by (intro exI [of _ v]) simp
  qed
qed

lemma ok_follow:
  assumes ok: "ok sf dn nx thr" and sf: "sf k = Some c" and t: "leads (thr t) = None" "owes (thr t) = None"
    and g: "leads g = None" "owes g = None" "awaits g = Some c"
  shows "ok sf dn nx (thr(t := g))"
proof -
  have l: "leads ((thr(t := g)) u) = leads (thr u)" "owes ((thr(t := g)) u) = owes (thr u)" for u
    using t g by auto
  obtain u where u: "owes (thr u) = Some c" using sf okD(1) [OF ok] leader_owes by blast
  show ?thesis
  proof (rule okI, goal_cases)
    case (1 k c)
    then show ?case using okD(1) [OF ok] l(1) by simp
  next
    case (2 u k c)
    then have "\<exists>v. leads (thr v) = Some (k, c)" using l(1) by metis
    then show ?case using okD(1) [OF ok] by simp
  next
    case (3 u c)
    then show ?case using okD(2,3) [OF ok, of u c] l(2) by simp
  next
    case (4 u v c)
    then show ?case using okD(4) [OF ok, of u c v] l(2) by simp
  next
    case (5 v e)
    then show ?case using okD(5) [OF ok, of v e] okD(2) [OF ok u] g by (cases "v = t") auto
  next
    case (6 v e)
    then show ?case using okD(6) [OF ok, of v e] u l(2) g by (cases "v = t") auto
  qed
qed

lemma ok_unregister:
  assumes ok: "ok sf dn nx thr" and t: "leads (thr t) = Some (k, c)"
    and g: "leads g = None" "owes g = Some c" "awaits g = None"
  shows "ok (sf(k := None)) dn nx (thr(t := g))"
proof -
  have mine: "owes (thr t) = Some c" by (rule leader_owes [OF t])
  have o: "owes ((thr(t := g)) u) = owes (thr u)" "awaits ((thr(t := g)) u) = None \<or> awaits ((thr(t := g)) u) = awaits (thr u)" for u
    using g mine by auto
  have other: "u = t" if "leads (thr u) = Some (k, c')" for u c' using one_leader [OF ok t that] by simp
  show ?thesis
  proof (rule okI, goal_cases)
    case (1 k' c')
    then have "k' \<noteq> k" "sf k' = Some c'" by (auto split: if_splits)
    then obtain u where u: "leads (thr u) = Some (k', c')" using okD(1) [OF ok] by blast
    with t \<open>k' \<noteq> k\<close> have "u \<noteq> t" by auto
    with u show ?case by (intro exI [of _ u]) simp
  next
    case (2 u k' c')
    then have u: "u \<noteq> t" "leads (thr u) = Some (k', c')" using g by (auto split: if_splits)
    then have "k' \<noteq> k" using other by blast
    with u show ?case using okD(1) [OF ok, of k' c'] by auto
  next
    case (3 u c')
    then show ?case using okD(2,3) [OF ok, of u c'] o(1) by simp
  next
    case (4 u v c')
    then show ?case using okD(4) [OF ok, of u c' v] o(1) by simp
  next
    case (5 u c')
    then show ?case using okD(5) [OF ok, of u c'] o(2) [of u] by auto
  next
    case (6 u c')
    then show ?case using okD(6) [OF ok, of u c'] o(1) o(2) [of u] by auto
  qed
qed

lemma ok_close:
  assumes ok: "ok sf dn nx thr" and t: "leads (thr t) = None" "owes (thr t) = Some c"
    and g: "leads g = None" "owes g = None" "awaits g = None"
  shows "ok sf (dn(c \<mapsto> r)) nx (thr(t := g))"
proof -
  have l: "leads ((thr(t := g)) u) = leads (thr u)" for u using t g by simp
  show ?thesis
  proof (rule okI, goal_cases)
    case (1 k' c')
    then show ?case using okD(1) [OF ok] l by simp
  next
    case (2 u k' c')
    then have "\<exists>v. leads (thr v) = Some (k', c')" using l by metis
    then show ?case using okD(1) [OF ok] by simp
  next
    case (3 u c')
    then have u: "u \<noteq> t" "owes (thr u) = Some c'" using g by (auto split: if_splits)
    then have "c' \<noteq> c" using okD(4) [OF ok, of u c t] t(2) by blast
    with u show ?case using okD(2,3) [OF ok, of u c'] by simp
  next
    case (4 u v c')
    then show ?case using okD(4) [OF ok, of u c' v] g by (auto split: if_splits)
  next
    case (5 u c')
    then show ?case using okD(5) [OF ok, of u c'] g by (auto split: if_splits)
  next
    case (6 u c')
    then have u: "awaits (thr u) = Some c'" "c' \<noteq> c" "dn c' = None" using g by (auto split: if_splits)
    then obtain v where v: "owes (thr v) = Some c'" using okD(6) [OF ok] by blast
    with t(2) u(2) have "v \<noteq> t" by auto
    with v show ?case by (intro exI [of _ v]) simp
  qed
qed

end

end
