(* ===== verification/SingleFlight.thy ===== *)
theory SingleFlight
  imports CacheRuns Flight
begin

text \<open>
  Overlapping operations on one cache Manager (pkg/cache/cache.go): \<open>Get\<close> with its single-flight
  table, \<open>Put\<close> and \<open>Delete\<close>, as goroutines that interleave at the points where the code gives up
  its locks. One step is a critical section of a shard with the accounting that goes with it, an
  operation of the sync.Map, a call of the driver, or the closing of a call's channel. A
  goroutine that waits for the leader of its key takes no step until the channel is closed or
  its context is done.
\<close>

section \<open>Goroutines and steps\<close>

type_synonym fetched = "gerror + Object option"

datatype goroutine =
    Idle
  | GetStart string
  | GetMissed string
  | GetLead string nat
  | GetFetched string nat fetched
  | GetAdmitted string nat fetched
  | GetClosing string nat fetched
  | GetWait string nat
  | PutStart string bytes string
  | PutStored string fetched
  | DelStart string string
  | DelRemoved string "gerror option"
  | Finished fetched

text \<open>
  The calls are numbered: \<open>w_sf\<close> is the sync.Map of the Manager, \<open>w_done\<close> the results of the calls
  whose channel is closed.
\<close>

record 's sf_world =
  w_cs :: cache_state
  w_drv :: 's
  w_sf :: "string \<Rightarrow> nat option"
  w_done :: "nat \<Rightarrow> fetched option"
  w_next :: nat
  w_thr :: "nat \<Rightarrow> goroutine"

definition set_mgr :: "nat \<Rightarrow> Manager \<Rightarrow> 's sf_world \<Rightarrow> 's sf_world" where
  "set_mgr i m w = w\<lparr>w_cs := (w_cs w)\<lparr>cs_mgrs := (cs_mgrs (w_cs w))(i := m)\<rparr>\<rparr>"

text \<open>The cache update that follows an answer of the driver in \<open>Get\<close> and in \<open>Put\<close>.\<close>

definition settle :: "nat \<Rightarrow> gotime \<Rightarrow> string \<Rightarrow> fetched \<Rightarrow> cache_state \<Rightarrow> cache_state option" where
  "settle i now key r cs =
     (case r of
        Inr (Some obj) \<Rightarrow> admit i now key obj cs
      | Inr None \<Rightarrow> Some cs
      | Inl err \<Rightarrow> Some (Invalidate i key cs))"

text \<open>
  \<open>advance_thread d i now cancelled g w\<close> is the next step of a goroutine in state \<open>g\<close>: its new state and
  the new world, or \<open>None\<close> when it is blocked or has ended. \<open>cancelled\<close> says that the select of
  \<open>awaitCall\<close> takes the branch of the context.
\<close>

fun advance_thread ::
  "'s Driver \<Rightarrow> nat \<Rightarrow> gotime \<Rightarrow> bool \<Rightarrow> goroutine \<Rightarrow> 's sf_world \<Rightarrow> (goroutine \<times> 's sf_world) option" where
  "advance_thread d i now cancelled (GetStart key) w =
     (let (hit, m) = Get_lookup (\<lambda>_. now) key (cs_mgrs (w_cs w) i) in
      Some (case hit of Some obj \<Rightarrow> Finished (Inr (Some obj)) | None \<Rightarrow> GetMissed key, set_mgr i m w))"
| "advance_thread d i now cancelled (GetMissed key) w =
     (case w_sf w key of
        Some c \<Rightarrow>
          (let m = cs_mgrs (w_cs w) i in Some (GetWait key c, set_mgr i (m\<lparr>m_sfHits := m_sfHits m + 1\<rparr>) w))
      | None \<Rightarrow>
          Some (GetLead key (w_next w),
            w\<lparr>w_sf := (w_sf w)(key \<mapsto> w_next w), w_done := (w_done w)(w_next w := None), w_next := w_next w + 1\<rparr>))"
| "advance_thread d i now cancelled (GetLead key c) w =
     (let (r, s) = dGet d (w_drv w) key in Some (GetFetched key c r, w\<lparr>w_drv := s\<rparr>))"
| "advance_thread d i now cancelled (GetFetched key c r) w =
     map_option (\<lambda>cs. (GetAdmitted key c r, w\<lparr>w_cs := cs\<rparr>)) (settle i now key r (w_cs w))"
| "advance_thread d i now cancelled (GetAdmitted key c r) w =
     Some (GetClosing key c r, w\<lparr>w_sf := (w_sf w)(key := None)\<rparr>)"
| "advance_thread d i now cancelled (GetClosing key c r) w =
     Some (Finished r, w\<lparr>w_done := (w_done w)(c \<mapsto> r)\<rparr>)"
| "advance_thread d i now cancelled (GetWait key c) w =
     (if cancelled then Some (Finished (Inl ContextDone), w)
      else map_option (\<lambda>r. (Finished r, w)) (w_done w c))"
| "advance_thread d i now cancelled (PutStart key value expectedETag) w =
     (let (r, s) = dPut d (w_drv w) key value expectedETag in Some (PutStored key r, w\<lparr>w_drv := s\<rparr>))"
| "advance_thread d i now cancelled (PutStored key r) w =
     map_option (\<lambda>cs. (Finished r, w\<lparr>w_cs := cs\<rparr>)) (settle i now key r (w_cs w))"
| "advance_thread d i now cancelled (DelStart key expectedETag) w =
     (let (err, s) = dDelete d (w_drv w) key expectedETag in Some (DelRemoved key err, w\<lparr>w_drv := s\<rparr>))"
| "advance_thread d i now cancelled (DelRemoved key err) w =
     Some (Finished (case err of None \<Rightarrow> Inr None | Some e \<Rightarrow> Inl e), w\<lparr>w_cs := Invalidate i key (w_cs w)\<rparr>)"
| "advance_thread d i now cancelled Idle w = None"
| "advance_thread d i now cancelled (Finished r) w = None"

fun is_call :: "goroutine \<Rightarrow> bool" where
  "is_call (GetStart k) = True"
| "is_call (PutStart k v e) = True"
| "is_call (DelStart k e) = True"
| "is_call g = False"

text \<open>A schedule: goroutines start calls and take steps, in any order.\<close>

datatype sf_event = Begin nat goroutine | Step nat gotime bool

fun sf_exec :: "'s Driver \<Rightarrow> nat \<Rightarrow> sf_event \<Rightarrow> 's sf_world \<Rightarrow> 's sf_world option" where
  "sf_exec d i (Begin t g) w =
     (if w_thr w t = Idle \<and> is_call g then Some (w\<lparr>w_thr := (w_thr w)(t := g)\<rparr>) else None)"
| "sf_exec d i (Step t now cancelled) w =
     map_option (\<lambda>(g, w'). w'\<lparr>w_thr := (w_thr w)(t := g)\<rparr>) (advance_thread d i now cancelled (w_thr w t) w)"

fun sf_run :: "'s Driver \<Rightarrow> nat \<Rightarrow> sf_event list \<Rightarrow> 's sf_world \<Rightarrow> 's sf_world option" where
  "sf_run d i [] w = Some w"
| "sf_run d i (e # es) w = (case sf_exec d i e w of None \<Rightarrow> None | Some w' \<Rightarrow> sf_run d i es w')"

definition sf_init :: "cache_state \<Rightarrow> 's \<Rightarrow> 's sf_world" where
  "sf_init cs s = \<lparr>w_cs = cs, w_drv = s, w_sf = (\<lambda>_. None), w_done = (\<lambda>_. None), w_next = 0, w_thr = (\<lambda>_. Idle)\<rparr>"

inductive sf_reach :: "'s Driver \<Rightarrow> nat \<Rightarrow> 's sf_world \<Rightarrow> 's sf_world \<Rightarrow> bool"
  for d :: "'s Driver" and i :: nat and w0 :: "'s sf_world" where
  start: "sf_reach d i w0 w0"
| step: "sf_reach d i w0 w \<Longrightarrow> sf_exec d i e w = Some w' \<Longrightarrow> sf_reach d i w0 w'"

section \<open>Leaders and followers\<close>

text \<open>The key and the call that a goroutine has registered, and the call it has to close.\<close>

fun leads :: "goroutine \<Rightarrow> (string \<times> nat) option" where
  "leads (GetLead k c) = Some (k, c)"
| "leads (GetFetched k c r) = Some (k, c)"
| "leads (GetAdmitted k c r) = Some (k, c)"
| "leads g = None"

fun owes :: "goroutine \<Rightarrow> nat option" where
  "owes (GetLead k c) = Some c"
| "owes (GetFetched k c r) = Some c"
| "owes (GetAdmitted k c r) = Some c"
| "owes (GetClosing k c r) = Some c"
| "owes g = None"

fun awaits :: "goroutine \<Rightarrow> nat option" where
  "awaits (GetWait k c) = Some c"
| "awaits g = None"

interpretation gets: coalescing leads owes awaits
proof
  show "leads g = Some (k, c) \<Longrightarrow> owes g = Some c" for g k c by (cases g) auto
qed

definition sf_ok :: "'s sf_world \<Rightarrow> bool" where
  "sf_ok w \<longleftrightarrow> gets.ok (w_sf w) (w_done w) (w_next w) (w_thr w)"

lemma sf_ok_init: "sf_ok (sf_init cs s)"
  unfolding sf_ok_def sf_init_def by (simp add: gets.ok_start)

text \<open>The table stays consistent, whatever the interleaving.\<close>

lemma sf_exec_ok:
  assumes "sf_ok w" and ex: "sf_exec d i e w = Some w'"
  shows "sf_ok w'"
proof (cases e)
  note ok = assms(1) [unfolded sf_ok_def]
  case (Begin t g)
  with ex have "w_thr w t = Idle" "is_call g" "w' = w\<lparr>w_thr := (w_thr w)(t := g)\<rparr>" by (auto split: if_splits)
  then show ?thesis using gets.ok_local [OF ok, of g t] by (cases g) (simp_all add: sf_ok_def)
next
  note ok = assms(1) [unfolded sf_ok_def]
  case (Step t now cancelled)
  from ex Step obtain g w1 where adv: "advance_thread d i now cancelled (w_thr w t) w = Some (g, w1)"
    and w': "w' = w1\<lparr>w_thr := (w_thr w)(t := g)\<rparr>" by auto
  show ?thesis
  proof (cases "w_thr w t")
    case (GetMissed k)
    show ?thesis
    proof (cases "w_sf w k")
      case None
      then show ?thesis
        using gets.ok_register [OF ok None, of t "GetLead k (w_next w)"] adv w' GetMissed by (auto simp: sf_ok_def)
    next
      case (Some c)
      then show ?thesis
        using gets.ok_follow [OF ok Some, of t "GetWait k c"] adv w' GetMissed
        by (auto simp: sf_ok_def set_mgr_def Let_def)
    qed
  next
    case (GetAdmitted k c r)
    then show ?thesis
      using gets.ok_unregister [OF ok, of t k c "GetClosing k c r"] adv w' by (auto simp: sf_ok_def)
  next
    case (GetClosing k c r)
    then show ?thesis
      using gets.ok_close [OF ok, of t c "Finished r" r] adv w' by (auto simp: sf_ok_def)
  qed (use gets.ok_local [OF ok, of g t] adv w' in
      \<open>auto simp: sf_ok_def set_mgr_def Let_def split: option.splits prod.splits if_splits\<close>)
qed

definition sf_inv :: "nat \<Rightarrow> 's sf_world \<Rightarrow> bool" where
  "sf_inv i w \<longleftrightarrow> sf_ok w \<and> cs_ok 0 (w_cs w) \<and> live i (w_cs w)"

lemma settle_laws:
  assumes "cs_ok 0 cs" and "live i cs"
  shows "\<exists>cs'. settle i now key r cs = Some cs' \<and> cs_ok 0 cs' \<and> live i cs' \<and>
    (if r = Inr None then cs' = cs
     else cache_step i key (case r of Inr (Some obj) \<Rightarrow> Some obj | _ \<Rightarrow> None) cs cs')"
proof (cases r rule: go_result_cases)
  case (failed err)
  then show ?thesis
    using Invalidate_laws(1,2) [OF assms, of key] cache_step_live assms(2) by (auto simp: settle_def)
next
  case (found obj)
  then show ?thesis
    using admit_laws [OF assms, of now key obj] cache_step_live assms(2) by (auto simp: settle_def)
qed (use assms in \<open>simp add: settle_def\<close>)

lemma set_mgr_lookup:
  assumes "cs_ok 0 (w_cs w)" and "Get_lookup clk key (cs_mgrs (w_cs w) i) = (r, m)"
  shows "cs_ok 0 (w_cs (set_mgr i m w))" "live j (w_cs (set_mgr i m w)) = live j (w_cs w)"
    "cached_obj (w_cs (set_mgr i m w)) = cached_obj (w_cs w)"
  using Get_lookup_state [OF assms] by (simp_all add: set_mgr_def)

lemma set_mgr_sfHits:
  fixes w :: "'s sf_world" and n :: "64 word"
  assumes "cs_ok 0 (w_cs w)"
  shows "cs_ok 0 (w_cs (set_mgr i ((cs_mgrs (w_cs w) i)\<lparr>m_sfHits := n\<rparr>) w))"
    "live j (w_cs (set_mgr i ((cs_mgrs (w_cs w) i)\<lparr>m_sfHits := n\<rparr>) w)) = live j (w_cs w)"
    "cached_obj (w_cs (set_mgr i ((cs_mgrs (w_cs w) i)\<lparr>m_sfHits := n\<rparr>) w)) = cached_obj (w_cs w)"
  using cs_ok_counters [OF assms(1), of "(cs_mgrs (w_cs w) i)\<lparr>m_sfHits := n\<rparr>" i]
  by (auto simp: set_mgr_def live_def cached_obj_def shards_cached_def fun_eq_iff)

text \<open>The caches along a step: untouched, or one settled answer, or one entry dropped.\<close>

lemma advance_cache:
  assumes cs: "cs_ok 0 (w_cs w)" "live i (w_cs w)" and adv: "advance_thread d i now cancelled g w = Some (g', w1)"
  shows "cs_ok 0 (w_cs w1) \<and> live i (w_cs w1)"
proof (cases g)
  case (GetStart k)
  obtain hit m where l: "Get_lookup (\<lambda>_. now) k (cs_mgrs (w_cs w) i) = (hit, m)" by fastforce
  with adv GetStart set_mgr_lookup [OF cs(1) l] cs show ?thesis by auto
next
  case (GetMissed k)
  with adv set_mgr_sfHits [OF cs(1)] cs show ?thesis by (auto simp: Let_def split: option.splits)
next
  case (GetFetched k c r)
  with adv settle_laws [OF cs, of now k r] show ?thesis by auto
next
  case (PutStored k r)
  with adv settle_laws [OF cs, of now k r] show ?thesis by auto
next
  case (DelRemoved k err)
  with adv Invalidate_laws(1,2) [OF cs, of k] cache_step_live cs(2) show ?thesis by auto
qed (use adv cs in \<open>auto simp: Let_def split: prod.splits if_splits\<close>)

lemma sf_exec_inv:
  assumes inv: "sf_inv i w" and ex: "sf_exec d i e w = Some w'"
  shows "sf_inv i w'"
proof -
  have cs: "cs_ok 0 (w_cs w)" "live i (w_cs w)" using inv by (simp_all add: sf_inv_def)
  have "cs_ok 0 (w_cs w') \<and> live i (w_cs w')"
  proof (cases e)
    case (Begin t g)
    with ex cs show ?thesis by (auto split: if_splits)
  next
    case (Step t now cancelled)
    with ex obtain g w1 where "advance_thread d i now cancelled (w_thr w t) w = Some (g, w1)" "w_cs w' = w_cs w1" by auto
    with advance_cache [OF cs] show ?thesis by simp
  qed
  with sf_exec_ok [OF _ ex] inv show ?thesis by (simp add: sf_inv_def)
qed

lemma sf_reach_inv:
  assumes "sf_reach d i (sf_init cs s) w" and "cs_ok 0 cs" and "live i cs"
  shows "sf_inv i w"
  using assms(1)
proof induction
  case start
  then show ?case using assms(2,3) sf_ok_init by (auto simp: sf_inv_def sf_init_def)
next
  case (step w e w')
  then show ?case using sf_exec_inv by blast
qed

lemma sf_run_append: "sf_run d i (xs @ ys) w = Option.bind (sf_run d i xs w) (sf_run d i ys)"
  by (induction xs arbitrary: w) (auto split: option.splits)

lemma sf_run_reach: "sf_run d i es w = Some w' \<Longrightarrow> sf_reach d i w0 w \<Longrightarrow> sf_reach d i w0 w'"
  by (induction es arbitrary: w) (auto split: option.splits intro: sf_reach.step)

section \<open>No waiter is left behind\<close>

text \<open>The leader of a call can always finish: at most four steps of its own close the channel.\<close>

lemma closes_next:
  assumes "w_thr w t = GetClosing k c r"
  shows "\<exists>w'. sf_run d i [Step t now False] w = Some w' \<and> w_done w' c = Some r \<and> (\<forall>u. u \<noteq> t \<longrightarrow> w_thr w' u = w_thr w u)"
  using assms by simp

lemma closes_admitted:
  assumes "w_thr w t = GetAdmitted k c r"
  shows "\<exists>n w'. sf_run d i (replicate n (Step t now False)) w = Some w' \<and> w_done w' c = Some r \<and>
    (\<forall>u. u \<noteq> t \<longrightarrow> w_thr w' u = w_thr w u)"
  using assms by (intro exI [of _ 2]) (simp add: numeral_2_eq_2)

lemma closes_fetched:
  assumes inv: "sf_inv i w" and g: "w_thr w t = GetFetched k c r"
  shows "\<exists>n w'. sf_run d i (replicate n (Step t now False)) w = Some w' \<and> w_done w' c = Some r \<and>
    (\<forall>u. u \<noteq> t \<longrightarrow> w_thr w' u = w_thr w u)"
proof -
  obtain cs' where "settle i now k r (w_cs w) = Some cs'"
    using settle_laws [of "w_cs w" i now k r] inv by (auto simp: sf_inv_def)
  with g show ?thesis by (intro exI [of _ 3]) (simp add: numeral_3_eq_3)
qed

lemma closes_lead:
  assumes inv: "sf_inv i w" and g: "w_thr w t = GetLead k c"
  shows "\<exists>n w' r. sf_run d i (replicate n (Step t now False)) w = Some w' \<and> w_done w' c = Some r \<and>
    (\<forall>u. u \<noteq> t \<longrightarrow> w_thr w' u = w_thr w u)"
proof -
  obtain r s where get: "dGet d (w_drv w) k = (r, s)" by fastforce
  let ?w1 = "w\<lparr>w_drv := s, w_thr := (w_thr w)(t := GetFetched k c r)\<rparr>"
  have ex: "sf_exec d i (Step t now False) w = Some ?w1" using g get by simp
  obtain n w' where n: "sf_run d i (replicate n (Step t now False)) ?w1 = Some w'" "w_done w' c = Some r"
      "\<forall>u. u \<noteq> t \<longrightarrow> w_thr w' u = w_thr ?w1 u"
    using closes_fetched [OF sf_exec_inv [OF inv ex], of t k c r d now] by auto
  have "sf_run d i (replicate (Suc n) (Step t now False)) w = Some w'" using ex n(1) by (simp del: sf_exec.simps)
  moreover have "\<forall>u. u \<noteq> t \<longrightarrow> w_thr w' u = w_thr w u" using n(3) by simp
  ultimately show ?thesis using n(2) by blast
qed

lemma owner_closes:
  assumes "sf_inv i w" and "owes (w_thr w t) = Some c"
  shows "\<exists>n w' r. sf_run d i (replicate n (Step t now False)) w = Some w' \<and> w_done w' c = Some r \<and>
    (\<forall>u. u \<noteq> t \<longrightarrow> w_thr w' u = w_thr w u)"
proof (cases "w_thr w t")
  case (GetLead k c')
  then show ?thesis using assms(2) closes_lead [OF assms(1) GetLead] by simp
next
  case (GetFetched k c' r)
  then show ?thesis using assms(2) closes_fetched [OF assms(1) GetFetched, of d now] by auto
next
  case (GetAdmitted k c' r)
  then show ?thesis using assms(2) closes_admitted [OF GetAdmitted, of d i now] by auto
next
  case (GetClosing k c' r)
  then show ?thesis using assms(2) by (intro exI [of _ 1]) auto
qed (use assms(2) in simp_all)

section \<open>Overlapping writes\<close>

text \<open>
  A goroutine between its driver call and its cache update. The Manager's comment promises
  key-level locking; \<open>locked\<close> is what a lock of the key from the driver call to the cache update would
  give: no goroutine calls the driver for a key while another one is in that section for the key.
\<close>

fun in_flight :: "goroutine \<Rightarrow> string option" where
  "in_flight (GetFetched k c r) = Some k"
| "in_flight (PutStored k r) = Some k"
| "in_flight (DelRemoved k err) = Some k"
| "in_flight g = None"

fun calls_driver :: "goroutine \<Rightarrow> string option" where
  "calls_driver (GetLead k c) = Some k"
| "calls_driver (PutStart k v e) = Some k"
| "calls_driver (DelStart k e) = Some k"
| "calls_driver g = None"

definition locked :: "sf_event \<Rightarrow> 's sf_world \<Rightarrow> bool" where
  "locked e w \<longleftrightarrow>
     (case e of
        Begin t g \<Rightarrow> True
      | Step t now cancelled \<Rightarrow>
          (case calls_driver (w_thr w t) of None \<Rightarrow> True | Some k \<Rightarrow> \<forall>u. in_flight (w_thr w u) \<noteq> Some k))"

inductive sf_reach_locked :: "'s Driver \<Rightarrow> nat \<Rightarrow> 's sf_world \<Rightarrow> 's sf_world \<Rightarrow> bool"
  for d :: "'s Driver" and i :: nat and w0 :: "'s sf_world" where
  start: "sf_reach_locked d i w0 w0"
| step: "sf_reach_locked d i w0 w \<Longrightarrow> locked e w \<Longrightarrow> sf_exec d i e w = Some w' \<Longrightarrow> sf_reach_locked d i w0 w'"

text \<open>The answer of the driver that a goroutine is about to put into the cache.\<close>

fun pending :: "goroutine \<Rightarrow> (string \<times> Object) option" where
  "pending (GetFetched k c (Inr (Some obj))) = Some (k, obj)"
| "pending (PutStored k (Inr (Some obj))) = Some (k, obj)"
| "pending g = None"

fun writing :: "goroutine \<Rightarrow> string option" where
  "writing (PutStored k r) = Some k"
| "writing (DelRemoved k err) = Some k"
| "writing g = None"

definition sf_coherent :: "nat \<Rightarrow> (string \<Rightarrow> doc option) \<Rightarrow> 's sf_world \<Rightarrow> bool" where
  "sf_coherent i st w \<longleftrightarrow>
     (\<forall>t u k. in_flight (w_thr w t) = Some k \<and> in_flight (w_thr w u) = Some k \<longrightarrow> t = u) \<and>
     (\<forall>t k. w_thr w t \<noteq> PutStored k (Inr None)) \<and>
     (\<forall>t k obj. pending (w_thr w t) = Some (k, obj) \<longrightarrow> st k = Some (doc_of obj)) \<and>
     (\<forall>k obj. (\<forall>t. writing (w_thr w t) \<noteq> Some k) \<longrightarrow> cached_obj (w_cs w) i k = Some obj \<longrightarrow> st k = Some (doc_of obj))"

lemma sf_coherentD:
  assumes "sf_coherent i st w"
  shows "in_flight (w_thr w t) = Some k \<Longrightarrow> in_flight (w_thr w u) = Some k \<Longrightarrow> t = u"
    "pending (w_thr w t) = Some (k, obj) \<Longrightarrow> st k = Some (doc_of obj)"
    "(\<And>t. writing (w_thr w t) \<noteq> Some k) \<Longrightarrow> cached_obj (w_cs w) i k = Some obj \<Longrightarrow> st k = Some (doc_of obj)"
    "w_thr w t \<noteq> PutStored k (Inr None)"
  using assms unfolding sf_coherent_def by blast+

lemma sf_coherentI:
  assumes "\<And>t u k. in_flight (w_thr w t) = Some k \<Longrightarrow> in_flight (w_thr w u) = Some k \<Longrightarrow> t = u"
    and "\<And>t k obj. pending (w_thr w t) = Some (k, obj) \<Longrightarrow> st k = Some (doc_of obj)"
    and "\<And>k obj. (\<And>t. writing (w_thr w t) \<noteq> Some k) \<Longrightarrow> cached_obj (w_cs w) i k = Some obj \<Longrightarrow> st k = Some (doc_of obj)"
    and "\<And>t k. w_thr w t \<noteq> PutStored k (Inr None)"
  shows "sf_coherent i st w"
  unfolding sf_coherent_def using assms by (intro conjI allI impI; blast)

lemma pending_in_flight: "pending g = Some (k, obj) \<Longrightarrow> in_flight g = Some k"
  by (cases g rule: pending.cases) auto

lemma writing_in_flight: "writing g = Some k \<Longrightarrow> in_flight g = Some k"
  by (cases g) auto

text \<open>A step outside the section between driver call and cache update.\<close>

lemma writing_None: "in_flight g = None \<Longrightarrow> writing g = None"
  by (cases g) auto

lemma sf_coherent_quiet:
  assumes coh: "sf_coherent i st w" and thr: "w_thr w' = (w_thr w)(t := g)" "in_flight g = None" "writing (w_thr w t) = None"
    and cache: "cached_obj (w_cs w') = cached_obj (w_cs w)"
  shows "sf_coherent i st w'"
proof -
  have wr: "writing (w_thr w' u) = writing (w_thr w u)" for u
    using thr writing_None [OF thr(2)] by (cases "u = t") simp_all
  show ?thesis
  proof (rule sf_coherentI, goal_cases)
    case (1 a b k)
    then show ?case using sf_coherentD(1) [OF coh, of a k b] thr by (auto split: if_splits)
  next
    case (2 a k obj)
    then have "a \<noteq> t" using thr pending_in_flight by fastforce
    with 2 show ?case using sf_coherentD(2) [OF coh, of a] thr by simp
  next
    case (3 k obj)
    then show ?case using sf_coherentD(3) [OF coh, of k obj] wr cache by simp
  next
    case (4 a k)
    then show ?case using sf_coherentD(4) [OF coh, of a k] thr by auto
  qed
qed

text \<open>The driver call of a goroutine, with the lock of its key free.\<close>

lemma sf_coherent_call:
  assumes coh: "sf_coherent i st w" and free: "\<And>u. in_flight (w_thr w u) \<noteq> Some k"
    and thr: "w_thr w' = (w_thr w)(t := g)" "in_flight g = Some k" "in_flight (w_thr w t) = None"
    and st: "\<And>k'. k' \<noteq> k \<Longrightarrow> st' k' = st k'" "writing g = None \<Longrightarrow> st' = st"
    and pend: "\<And>q obj. pending g = Some (q, obj) \<Longrightarrow> st' q = Some (doc_of obj)" "\<And>q. g \<noteq> PutStored q (Inr None)"
    and cache: "w_cs w' = w_cs w"
  shows "sf_coherent i st' w'"
proof (rule sf_coherentI, goal_cases)
  case (1 a b q)
  then show ?case using sf_coherentD(1) [OF coh, of a q b] free thr by (auto split: if_splits)
next
  case (2 a q obj)
  show ?case
  proof (cases "a = t")
    case True
    then show ?thesis using 2 pend(1) thr by simp
  next
    case False
    then have p: "pending (w_thr w a) = Some (q, obj)" using 2 thr by simp
    then have "q \<noteq> k" using free pending_in_flight by blast
    then show ?thesis using sf_coherentD(2) [OF coh p] st by simp
  qed
next
  case (3 q obj)
  have "writing (w_thr w u) \<noteq> Some q" for u
  proof (cases "u = t")
    case True
    then show ?thesis using thr(3) writing_in_flight by fastforce
  next
    case False
    then show ?thesis using 3(1) [of u] thr by simp
  qed
  from sf_coherentD(3) [OF coh this] 3(2) cache have old: "st q = Some (doc_of obj)" by simp
  show ?case
  proof (cases "q = k")
    case True
    then have "writing g \<noteq> Some k" using 3(1) [of t] thr by simp
    then have "writing g = None" using writing_in_flight thr(2) by (metis option.exhaust option.inject)
    then show ?thesis using st(2) old by simp
  qed (use st(1) old in simp)
next
  case (4 a q)
  then show ?case using sf_coherentD(4) [OF coh, of a q] thr pend(2) by simp
qed

text \<open>The cache update of a goroutine.\<close>

lemma sf_coherent_settle:
  assumes coh: "sf_coherent i st w" and thr: "w_thr w' = (w_thr w)(t := g)" "in_flight g = None" "in_flight (w_thr w t) = Some k"
    and v: "\<And>obj. v = Some obj \<Longrightarrow> st k = Some (doc_of obj)" and step: "cache_step i k v (w_cs w) (w_cs w')"
  shows "sf_coherent i st w'"
proof (rule sf_coherentI, goal_cases)
  case (1 a b q)
  then show ?case using sf_coherentD(1) [OF coh, of a q b] thr by (auto split: if_splits)
next
  case (2 a q obj)
  then have "a \<noteq> t" using thr pending_in_flight by fastforce
  with 2 show ?case using sf_coherentD(2) [OF coh, of a] thr by simp
next
  case (3 q obj)
  show ?case
  proof (cases "q = k")
    case True
    then have "v = Some obj" using step 3(2) unfolding cache_step_def by (metis (full_types))
    then show ?thesis using v True by simp
  next
    case False
    then have c: "cached_obj (w_cs w) i q = Some obj" using step 3(2) unfolding cache_step_def by (metis (full_types))
    have "writing (w_thr w u) \<noteq> Some q" for u
    proof (cases "u = t")
      case True
      then show ?thesis using thr(3) False writing_in_flight by fastforce
    next
      case False
      then show ?thesis using 3(1) [of u] thr by simp
    qed
    from sf_coherentD(3) [OF coh this c] show ?thesis .
  qed
next
  case (4 a q)
  then show ?case using sf_coherentD(4) [OF coh, of a q] thr by auto
qed

context driver
begin

lemma sf_locked_exec:
  assumes inv: "sf_inv i w" and dok: "drv_ok (w_drv w)" and coh: "sf_coherent i (stored (w_drv w)) w"
    and lock: "locked e w" and ex: "sf_exec d i e w = Some w'"
  shows "drv_ok (w_drv w') \<and> sf_coherent i (stored (w_drv w')) w'"
proof (cases e)
  case (Begin t g)
  with ex have g: "w_thr w t = Idle" "is_call g" "w' = w\<lparr>w_thr := (w_thr w)(t := g)\<rparr>" by (auto split: if_splits)
  have "sf_coherent i (stored (w_drv w)) w'"
    by (rule sf_coherent_quiet [OF coh, of w' t g]) (use g in \<open>simp_all, cases g, simp_all\<close>)
  with g dok show ?thesis by simp
next
  case (Step t now cancelled)
  from ex Step obtain g w1 where adv: "advance_thread d i now cancelled (w_thr w t) w = Some (g, w1)"
    and w': "w' = w1\<lparr>w_thr := (w_thr w)(t := g)\<rparr>" by auto
  have cs: "cs_ok 0 (w_cs w)" "live i (w_cs w)" using inv by (simp_all add: sf_inv_def)
  have free: "in_flight (w_thr w u) \<noteq> Some k" if "calls_driver (w_thr w t) = Some k" for u k
    using lock Step that by (simp add: locked_def)
  have quiet: ?thesis if "w_drv w1 = w_drv w" "in_flight g = None" "writing (w_thr w t) = None"
      "cached_obj (w_cs w1) = cached_obj (w_cs w)"
    using sf_coherent_quiet [OF coh, of w' t g] that w' dok by simp
  have settled: ?thesis if "w_drv w1 = w_drv w" "in_flight g = None" "in_flight (w_thr w t) = Some k"
      "\<And>obj. v = Some obj \<Longrightarrow> stored (w_drv w) k = Some (doc_of obj)" "cache_step i k v (w_cs w) (w_cs w1)" for k v
    using sf_coherent_settle [OF coh, of w' t g k v] that w' dok by simp
  show ?thesis
  proof (cases "w_thr w t")
    case (GetStart k)
    obtain hit m where l: "Get_lookup (\<lambda>_. now) k (cs_mgrs (w_cs w) i) = (hit, m)" by fastforce
    show ?thesis
      by (rule quiet) (use adv GetStart l set_mgr_lookup(3) [OF cs(1) l] in \<open>auto simp: set_mgr_def split: option.splits\<close>)
  next
    case (GetMissed k)
    show ?thesis
      by (rule quiet) (use adv GetMissed set_mgr_sfHits(3) [OF cs(1)] in \<open>auto simp: set_mgr_def Let_def split: option.splits\<close>)
  next
    case (GetLead k c)
    obtain r s where get: "dGet d (w_drv w) k = (r, s)" by fastforce
    note fr = get_frame [OF dok get]
    have "sf_coherent i (stored s) w'"
    proof (rule sf_coherent_call [OF coh, of k w' t g])
      show "stored s q = Some (doc_of obj)" if "pending g = Some (q, obj)" for q obj
        using that adv GetLead get get_result [OF dok] fr by (cases r rule: go_result_cases) auto
    qed (use free adv w' GetLead get fr in auto)
    with adv w' GetLead get fr show ?thesis by auto
  next
    case (GetFetched k c r)
    obtain cs' where st: "settle i now k r (w_cs w) = Some cs'"
      "if r = Inr None then cs' = w_cs w else cache_step i k (case r of Inr (Some obj) \<Rightarrow> Some obj | _ \<Rightarrow> None) (w_cs w) cs'"
      using settle_laws [OF cs, of now k r] by blast
    have w1: "g = GetAdmitted k c r" "w1 = w\<lparr>w_cs := cs'\<rparr>" using adv GetFetched st(1) by auto
    show ?thesis
    proof (cases "r = Inr None")
      case True
      then show ?thesis using st(2) w1 GetFetched by (intro quiet) simp_all
    next
      case False
      show ?thesis
        by (rule settled [of k "case r of Inr (Some obj) \<Rightarrow> Some obj | _ \<Rightarrow> None"])
          (use False st(2) w1 GetFetched sf_coherentD(2) [OF coh, of t] in
            \<open>auto split: sum.splits option.splits\<close>)
    qed
  next
    case (PutStart k v ex')
    obtain r s where put: "dPut d (w_drv w) k v ex' = (r, s)" by fastforce
    have "sf_coherent i (stored s) w'"
    proof (rule sf_coherent_call [OF coh, of k w' t g])
      show "stored s q = Some (doc_of obj)" if "pending g = Some (q, obj)" for q obj
        using that adv PutStart put put_result [OF dok] by (cases r rule: go_result_cases) auto
      show "stored s k' = stored (w_drv w) k'" if "k' \<noteq> k" for k'
        using put_frame [OF dok put that] .
      show "g \<noteq> PutStored q (Inr None)" for q using adv PutStart put put_some [OF dok] by auto
    qed (use free adv w' PutStart put in auto)
    with adv w' PutStart put put_ok [OF dok put] show ?thesis by auto
  next
    case (PutStored k r)
    obtain cs' where st: "settle i now k r (w_cs w) = Some cs'"
      "if r = Inr None then cs' = w_cs w else cache_step i k (case r of Inr (Some obj) \<Rightarrow> Some obj | _ \<Rightarrow> None) (w_cs w) cs'"
      using settle_laws [OF cs, of now k r] by blast
    have w1: "g = Finished r" "w1 = w\<lparr>w_cs := cs'\<rparr>" using adv PutStored st(1) by auto
    have "r \<noteq> Inr None" using sf_coherentD(4) [OF coh, of t k] PutStored by auto
    then show ?thesis
      by (intro settled [of k "case r of Inr (Some obj) \<Rightarrow> Some obj | _ \<Rightarrow> None"])
        (use st(2) w1 PutStored sf_coherentD(2) [OF coh, of t] in \<open>auto split: sum.splits option.splits\<close>)
  next
    case (DelStart k ex')
    obtain r s where del: "dDelete d (w_drv w) k ex' = (r, s)" by fastforce
    have "sf_coherent i (stored s) w'"
    proof (rule sf_coherent_call [OF coh, of k w' t g])
      show "stored s k' = stored (w_drv w) k'" if "k' \<noteq> k" for k'
        using delete_frame [OF dok del that] .
    qed (use free adv w' DelStart del in auto)
    with adv w' DelStart del delete_ok [OF dok del] show ?thesis by auto
  next
    case (DelRemoved k err)
    show ?thesis
      by (rule settled [of k None]) (use adv DelRemoved Invalidate_laws(2) [OF cs, of k] in auto)
  next
    case (GetWait k c)
    show ?thesis by (rule quiet) (use adv GetWait in \<open>auto split: if_splits\<close>)
  qed (use adv quiet in auto)
qed

lemma sf_locked_coherent:
  assumes "sf_reach_locked d i (sf_init cs s) w" and "cs_ok 0 cs" and "live i cs" and "drv_ok s" and "coherent i (stored s) cs"
  shows "sf_inv i w \<and> drv_ok (w_drv w) \<and> sf_coherent i (stored (w_drv w)) w"
  using assms(1)
proof induction
  case start
  have "sf_inv i (sf_init cs s)" using assms(2,3) sf_ok_init by (auto simp: sf_inv_def sf_init_def)
  moreover have "sf_coherent i (stored s) (sf_init cs s)"
    using assms(5) by (simp add: sf_coherent_def sf_init_def coherent_def)
  ultimately show ?case using assms(4) by (simp add: sf_init_def)
next
  case (step w e w')
  then show ?case using sf_exec_inv sf_locked_exec by blast
qed

end

section \<open>A concrete Manager\<close>

text \<open>A Manager without a budget over an in-memory driver that holds the document \<open>[1]\<close> at \<open>k\<close>.\<close>

definition race_cache :: cache_state where
  "race_cache = NewManagerWithConfig 0 \<lparr>cfg_TTL = 0, cfg_MaxObjectSize = 0, cfg_Budget = False\<rparr> (init_cache 0)"

definition race_store :: MemDriver where
  "race_store = snd (mem_Put (\<lambda>bs. bs) (mem_NewDriver (\<lambda>n. int n)) ''k'' [1] [])"

definition race_schedule :: "sf_event list" where
  "race_schedule =
     [Begin 0 (GetStart ''k''), Begin 1 (PutStart ''k'' [2] []),
      Step 0 1 False, Step 0 2 False, Step 0 3 False,
      Step 1 4 False, Step 1 5 False,
      Step 0 6 False, Step 0 7 False, Step 0 8 False,
      Begin 2 (GetStart ''k''), Step 2 9 False]"

text \<open>One reader leads a call for \<open>k\<close>, another one waits for it.\<close>

definition wait_schedule :: "sf_event list" where
  "wait_schedule =
     [Begin 0 (GetStart ''k''), Begin 1 (GetStart ''k''), Step 0 1 False, Step 1 2 False,
      Step 0 3 False, Step 1 4 False]"

fun answer :: "goroutine \<Rightarrow> Object option" where
  "answer (Finished (Inr r)) = r"
| "answer g = None"

lemma answer_Some: "answer g = Some obj \<longleftrightarrow> g = Finished (Inr (Some obj))"
  by (cases g rule: answer.cases) auto

lemma race_facts:
  "cs_ok 0 race_cache" "live 0 race_cache" "mem_ok race_store" "coherent 0 st race_cache"
proof -
  have empty: "0 \<notin> set (b_evictors (cs_budget (init_cache 0)))" by (simp add: NewBudget_def)
  show "cs_ok 0 race_cache" "coherent 0 st race_cache"
    using New_ok(1,2) [OF init_ok empty] by (simp_all add: race_cache_def coherent_def)
  show "live 0 race_cache" by (simp add: live_def race_cache_def NewManagerWithConfig_def Let_def Register_def)
  show "mem_ok race_store"
    using mem.put_ok [OF mem_ok_NewDriver, of "\<lambda>bs. bs" _ "''k''" "[1]" "[]"] prod.collapse
    by (metis race_store_def mem_driver_simps(2))
qed

lemma wait_facts:
  obtains w where "sf_run (mem_driver (\<lambda>bs. bs)) 0 wait_schedule (sf_init race_cache race_store) = Some w"
    and "w_thr w 0 = GetLead ''k'' 0" and "w_thr w 1 = GetWait ''k'' 0"
proof -
  have "map_option (\<lambda>w. (w_thr w 0, w_thr w 1))
    (sf_run (mem_driver (\<lambda>bs. bs)) 0 wait_schedule (sf_init race_cache race_store)) =
    Some (GetLead ''k'' 0, GetWait ''k'' 0)"
    by code_simp
  then show ?thesis using that by auto
qed

text \<open>A goroutine that is alone needs no lock.\<close>

fun ev_thread :: "sf_event \<Rightarrow> nat" where
  "ev_thread (Begin t g) = t"
| "ev_thread (Step t now cancelled) = t"

lemma sf_run_alone:
  assumes "sf_run d i es w = Some w'" and "\<forall>e\<in>set es. ev_thread e = t"
    and "\<forall>u. u \<noteq> t \<longrightarrow> w_thr w u = Idle" and "sf_reach_locked d i w0 w"
  shows "sf_reach_locked d i w0 w' \<and> (\<forall>u. u \<noteq> t \<longrightarrow> w_thr w' u = Idle)"
  using assms
proof (induction es arbitrary: w)
  case (Cons e es)
  then obtain v where v: "sf_exec d i e w = Some v" "sf_run d i es v = Some w'" by (auto split: option.splits)
  have e: "ev_thread e = t" using Cons.prems(2) by simp
  have self: "calls_driver g = Some k \<Longrightarrow> in_flight g \<noteq> Some k" for g k by (cases g) auto
  have idle: "\<forall>u. u \<noteq> t \<longrightarrow> w_thr v u = Idle"
    using v(1) e Cons.prems(3) by (cases e) (auto split: if_splits)
  have "locked e w"
  proof (cases e)
    case (Step u now cancelled)
    have "in_flight (w_thr w x) \<noteq> Some k" if "calls_driver (w_thr w t) = Some k" for x k
      using self [OF that] Cons.prems(3) by (cases "x = t") auto
    then show ?thesis using Step e by (simp add: locked_def split: option.splits)
  qed (simp add: locked_def)
  then have "sf_reach_locked d i w0 v" using Cons.prems(4) v(1) sf_reach_locked.step by metis
  then show ?case using Cons.IH [OF v(2) _ idle] Cons.prems(2) by simp
qed simp

section \<open>Properties\<close>

text \<open>
  C9: no goroutine waits in vain. In every reachable state of overlapping operations on a Manager, a
  goroutine that is neither waiting nor done can take its next step, and for one that waits for the
  leader of its key there are steps of that leader alone, without anyone's context being
  cancelled, after which the waiting \<open>Get\<close> returns what the leader got.
\<close>

theorem sf_waiter_served:
  assumes "sf_reach d i (sf_init cs s) w" and "cs_ok 0 cs" and "live i cs"
  shows "(w_thr w t \<noteq> Idle \<and> (\<forall>r. w_thr w t \<noteq> Finished r) \<and> awaits (w_thr w t) = None \<longrightarrow>
      (\<exists>w'. sf_exec d i (Step t now False) w = Some w'))
    \<and> (\<forall>c. awaits (w_thr w t) = Some c \<longrightarrow>
      (\<exists>u n w' r. sf_run d i (replicate n (Step u now False) @ [Step t now False]) w = Some w'
        \<and> w_done w' c = Some r \<and> w_thr w' t = Finished r))"
proof (intro conjI impI allI)
  note inv = sf_reach_inv [OF assms]
  have cs: "cs_ok 0 (w_cs w)" "live i (w_cs w)" using inv by (simp_all add: sf_inv_def)
  assume t: "w_thr w t \<noteq> Idle \<and> (\<forall>r. w_thr w t \<noteq> Finished r) \<and> awaits (w_thr w t) = None"
  have "settle i now k r (w_cs w) \<noteq> None" for k r using settle_laws [OF cs, of now k r] by auto
  with t show "\<exists>w'. sf_exec d i (Step t now False) w = Some w'"
    by (cases "w_thr w t") (auto simp: Let_def split: option.splits prod.splits)
next
  fix c
  note inv = sf_reach_inv [OF assms]
  assume a: "awaits (w_thr w t) = Some c"
  then obtain k where g: "w_thr w t = GetWait k c" by (cases "w_thr w t") auto
  show "\<exists>u n w' r. sf_run d i (replicate n (Step u now False) @ [Step t now False]) w = Some w'
        \<and> w_done w' c = Some r \<and> w_thr w' t = Finished r"
  proof (cases "w_done w c")
    case (Some r)
    then show ?thesis using g by (intro exI [of _ t] exI [of _ 0]) simp
  next
    case None
    then obtain u where u: "owes (w_thr w u) = Some c"
      using gets.okD(6) [of "w_sf w" "w_done w" "w_next w" "w_thr w" t c] a inv by (auto simp: sf_inv_def sf_ok_def)
    then have "u \<noteq> t" using g by auto
    from owner_closes [OF inv u, of d now] obtain n w1 r where
      n: "sf_run d i (replicate n (Step u now False)) w = Some w1" "w_done w1 c = Some r" "w_thr w1 t = w_thr w t"
      using \<open>u \<noteq> t\<close> by metis
    then have "sf_run d i (replicate n (Step u now False) @ [Step t now False]) w = Some (w1\<lparr>w_thr := (w_thr w1)(t := Finished r)\<rparr>)"
      using g by (simp add: sf_run_append)
    then show ?thesis using n(2) by (intro exI [of _ u] exI [of _ n] exI [of _ "w1\<lparr>w_thr := (w_thr w1)(t := Finished r)\<rparr>"]) simp
  qed
qed

theorem sf_waiter_served_witness:
  "\<exists>w. sf_run (mem_driver (\<lambda>bs. bs)) 0 wait_schedule (sf_init race_cache race_store) = Some w
     \<and> awaits (w_thr w 1) = Some 0
     \<and> (\<exists>u n w' r. sf_run (mem_driver (\<lambda>bs. bs)) 0 (replicate n (Step u 5 False) @ [Step 1 5 False]) w = Some w'
        \<and> w_done w' 0 = Some r \<and> w_thr w' 1 = Finished r)"
proof -
  obtain w where w: "sf_run (mem_driver (\<lambda>bs. bs)) 0 wait_schedule (sf_init race_cache race_store) = Some w"
    "w_thr w 1 = GetWait ''k'' 0" by (rule wait_facts)
  have "sf_reach (mem_driver (\<lambda>bs. bs)) 0 (sf_init race_cache race_store) w"
    by (rule sf_run_reach [OF w(1) sf_reach.start])
  from sf_waiter_served [OF this race_facts(1,2), of 1 5] w show ?thesis by simp
qed

text \<open>
  Cold reads are coalesced. In every reachable state two goroutines that lead a call for the same
  key, from its registration in the single-flight table to the removal from it, are one goroutine
  and the registered call is theirs, so no key is fetched twice at the same time.
\<close>

theorem sf_single_fetch:
  assumes "sf_reach d i (sf_init cs s) w" and "cs_ok 0 cs" and "live i cs"
    and "leads (w_thr w t) = Some (k, c)" and "leads (w_thr w u) = Some (k, c')"
  shows "t = u \<and> c = c' \<and> w_sf w k = Some c"
proof -
  have "gets.ok (w_sf w) (w_done w) (w_next w) (w_thr w)"
    using sf_reach_inv [OF assms(1-3)] by (simp add: sf_inv_def sf_ok_def)
  then show ?thesis by (rule gets.one_leader [OF _ assms(4,5)])
qed

theorem sf_single_fetch_witness:
  "\<exists>w. sf_run (mem_driver (\<lambda>bs. bs)) 0 wait_schedule (sf_init race_cache race_store) = Some w
     \<and> leads (w_thr w 0) = Some (''k'', 0) \<and> w_sf w ''k'' = Some 0"
proof -
  obtain w where w: "sf_run (mem_driver (\<lambda>bs. bs)) 0 wait_schedule (sf_init race_cache race_store) = Some w"
    "w_thr w 0 = GetLead ''k'' 0" by (rule wait_facts)
  have "sf_reach (mem_driver (\<lambda>bs. bs)) 0 (sf_init race_cache race_store) w"
    by (rule sf_run_reach [OF w(1) sf_reach.start])
  from sf_single_fetch [OF this race_facts(1,2), of 0 "''k''" 0 0 0] w show ?thesis by simp
qed



text \<open>
  C11: without such a lock, which the code does not have, a read that overlaps a write leaves the old
  document in the cache. The reader fetches the old document, the writer stores the new one and
  caches it, then the reader caches the old one over it; the write has returned, and every later
  \<open>Get\<close> is answered with the old document until its entry expires.
\<close>

theorem sf_stale_after_write:
  "\<exists>w. sf_run (mem_driver (\<lambda>bs. bs)) 0 race_schedule (sf_init race_cache race_store) = Some w
     \<and> (\<exists>obj. w_thr w 1 = Finished (Inr (Some obj)) \<and> mem_stored (w_drv w) ''k'' = Some (doc_of obj) \<and> oValue obj = [2])
     \<and> (\<exists>old. w_thr w 2 = Finished (Inr (Some old)) \<and> oValue old = [1])"
proof -
  have "map_option (\<lambda>w. (mem_stored (w_drv w) ''k'' = map_option doc_of (answer (w_thr w 1)),
      map_option oValue (answer (w_thr w 1)), map_option oValue (answer (w_thr w 2))))
    (sf_run (mem_driver (\<lambda>bs. bs)) 0 race_schedule (sf_init race_cache race_store)) = Some (True, Some [2], Some [1])"
    by code_simp
  then show ?thesis by (auto simp: answer_Some)
qed

end
