(* ===== verification/GoText.thy ===== *)
theory GoText
  imports JayPrelude
begin

text \<open>
  The parts of Go's standard library that read numbers and text from outside: \<open>strconv.ParseInt\<close>
  and \<open>Atoi\<close> in base ten for 64 bits, \<open>strings.TrimSpace\<close> and \<open>Fields\<close> with the white space of
  Unicode in UTF-8, the lines of a \<open>bufio.Scanner\<close>, and \<open>net.SplitHostPort\<close>.
\<close>

section \<open>Package strconv\<close>

datatype num_error = ErrSyntax | ErrRange

definition is_digit :: "char \<Rightarrow> bool" where
  "is_digit c \<longleftrightarrow> 48 \<le> (of_char c :: nat) \<and> (of_char c :: nat) \<le> 57"

text \<open>The loop of \<open>ParseUint\<close>: it stops at the first digit that overflows 64 bits.\<close>

fun read_digits :: "nat \<Rightarrow> string \<Rightarrow> num_error + nat" where
  "read_digits acc [] = Inr acc"
| "read_digits acc (c # cs) =
     (if \<not> is_digit c then Inl ErrSyntax
      else let n = acc * 10 + (of_char c - 48) in
        if n > 2 ^ 64 - 1 then Inl ErrRange else read_digits n cs)"

definition ParseInt :: "string \<Rightarrow> num_error + int" where
  "ParseInt s =
     (let (neg, ds) = (case s of
          [] \<Rightarrow> (False, [])
        | c # cs \<Rightarrow> if c = CHR ''-'' then (True, cs) else if c = CHR ''+'' then (False, cs) else (False, s))
      in if ds = [] then Inl ErrSyntax
         else case read_digits 0 ds of
           Inl err \<Rightarrow> Inl err
         | Inr n \<Rightarrow>
             if \<not> neg \<and> n \<ge> 2 ^ 63 then Inl ErrRange
             else if neg \<and> n > 2 ^ 63 then Inl ErrRange
             else Inr (if neg then - int n else int n))"

fun num_error_text :: "num_error \<Rightarrow> string" where
  "num_error_text ErrSyntax = ''invalid syntax''"
| "num_error_text ErrRange = ''value out of range''"

text \<open>\<open>Atoi\<close> with the text of its error; \<open>quote\<close> is \<open>strconv.Quote\<close>.\<close>

definition Atoi :: "(string \<Rightarrow> string) \<Rightarrow> string \<Rightarrow> string + int" where
  "Atoi quote s =
     (case ParseInt s of
        Inl err \<Rightarrow> Inl (''strconv.Atoi: parsing '' @ quote s @ '': '' @ num_error_text err)
      | Inr n \<Rightarrow> Inr n)"

section \<open>Package strings\<close>

text \<open>The white space characters of Unicode, in UTF-8.\<close>

definition spaces :: "string list" where
  "spaces = map (map char_of)
     ([[9], [10], [11], [12], [13], [32], [194, 133], [194, 160], [225, 154, 128]] @
      map (\<lambda>b. [226, 128, b]) ([128..<139] @ [168, 169, 175]) @ [[226, 129, 159], [227, 128, 128 :: nat]])"

text \<open>The length of the white space character at the start and at the end of a string, 0 for none.\<close>

definition space_len :: "string \<Rightarrow> nat" where
  "space_len s = (case find (\<lambda>w. prefix w s) spaces of None \<Rightarrow> 0 | Some w \<Rightarrow> length w)"

definition space_len_end :: "string \<Rightarrow> nat" where
  "space_len_end s = (case find (\<lambda>w. suffix w s) spaces of None \<Rightarrow> 0 | Some w \<Rightarrow> length w)"

text \<open>The first argument counts the bytes of a white space character that are still to be skipped.\<close>

fun trim_left :: "nat \<Rightarrow> string \<Rightarrow> string" where
  "trim_left k [] = []"
| "trim_left (Suc k) (c # cs) = trim_left k cs"
| "trim_left 0 (c # cs) = (case space_len (c # cs) of 0 \<Rightarrow> c # cs | Suc k \<Rightarrow> trim_left k cs)"

fun trim_right :: "nat \<Rightarrow> string \<Rightarrow> string" where
  "trim_right k [] = []"
| "trim_right (Suc k) (c # cs) = trim_right k cs"
| "trim_right 0 (c # cs) = (case space_len_end (rev (c # cs)) of 0 \<Rightarrow> rev (c # cs) | Suc k \<Rightarrow> trim_right k cs)"

definition TrimSpace :: "string \<Rightarrow> string" where
  "TrimSpace s = trim_right 0 (rev (trim_left 0 s))"

fun fields_from :: "nat \<Rightarrow> string \<Rightarrow> string \<Rightarrow> string list" where
  "fields_from k cur [] = (if cur = [] then [] else [cur])"
| "fields_from (Suc k) cur (c # cs) = fields_from k cur cs"
| "fields_from 0 cur (c # cs) =
     (case space_len (c # cs) of
        0 \<Rightarrow> fields_from 0 (cur @ [c]) cs
      | Suc k \<Rightarrow> (if cur = [] then [] else [cur]) @ fields_from k [] cs)"

definition Fields :: "string \<Rightarrow> string list" where
  "Fields s = fields_from 0 [] s"

section \<open>Package bufio\<close>

text \<open>
  The tokens of a \<open>bufio.Scanner\<close> with its default split function: the lines without their ends. Its
  buffer holds 64 KiB; at a line that does not fit in it, the scan ends.
\<close>

definition drop_cr :: "string \<Rightarrow> string" where
  "drop_cr l = (if l \<noteq> [] \<and> last l = CHR 0x0D then butlast l else l)"

definition ScanLines :: "string \<Rightarrow> string list" where
  "ScanLines s =
     (let ls = Split s (CHR 0x0A); ls = (if last ls = [] then butlast ls else ls)
      in map drop_cr (takeWhile (\<lambda>l. length l < 65536) ls))"

section \<open>Package net\<close>

definition addr_error :: "string \<Rightarrow> string \<Rightarrow> string" where
  "addr_error a why = ''address '' @ a @ '': '' @ why"

text \<open>The last position of a character.\<close>

fun last_index :: "char \<Rightarrow> string \<Rightarrow> nat option" where
  "last_index c [] = None"
| "last_index c (x # xs) =
     (case last_index c xs of Some i \<Rightarrow> Some (Suc i) | None \<Rightarrow> if x = c then Some 0 else None)"

definition SplitHostPort :: "string \<Rightarrow> string + string \<times> string" where
  "SplitHostPort hostport =
     (case last_index (CHR '':'') hostport of
        None \<Rightarrow> Inl (addr_error hostport ''missing port in address'')
      | Some i \<Rightarrow>
          let finish = (\<lambda>j k host.
            if CHR ''['' \<in> set (drop j hostport) then Inl (addr_error hostport (''unexpected '' @ [CHR 0x27] @ ''['' @ [CHR 0x27] @ '' in address''))
            else if CHR '']'' \<in> set (drop k hostport) then Inl (addr_error hostport (''unexpected '' @ [CHR 0x27] @ '']'' @ [CHR 0x27] @ '' in address''))
            else Inr (host, drop (i + 1) hostport))
          in if hd hostport = CHR ''['' then
               (case Index hostport '']'' of
                  None \<Rightarrow> Inl (addr_error hostport (''missing '' @ [CHR 0x27] @ '']'' @ [CHR 0x27] @ '' in address''))
                | Some e \<Rightarrow>
                    if e + 1 = length hostport then Inl (addr_error hostport ''missing port in address'')
                    else if e + 1 = i then finish 1 (e + 1) (drop 1 (take e hostport))
                    else if hostport ! (e + 1) = CHR '':'' then Inl (addr_error hostport ''too many colons in address'')
                    else Inl (addr_error hostport ''missing port in address''))
             else if CHR '':'' \<in> set (take i hostport) then Inl (addr_error hostport ''too many colons in address'')
             else finish 0 0 (take i hostport))"

section \<open>Reading what was printed\<close>

lemma read_digits_append:
  "read_digits acc (xs @ ys) = (case read_digits acc xs of Inl e \<Rightarrow> Inl e | Inr n \<Rightarrow> read_digits n ys)"
  by (induction acc xs rule: read_digits.induct) (simp_all add: Let_def)

lemma read_digits_show_nat: "n < 2 ^ 64 \<Longrightarrow> read_digits 0 (show_nat n) = Inr n"
proof (induction n rule: show_nat.induct)
  case (1 n)
  have d: "is_digit (digit k)" "(of_char (digit k) :: nat) - 48 = k" if "k < 10" for k
    using of_char_digit [OF that] that by (simp_all add: is_digit_def)
  show ?case
  proof (cases "n < 10")
    case True
    then show ?thesis using d [OF True] by (subst show_nat.simps) simp
  next
    case False
    with 1 have "read_digits 0 (show_nat (n div 10)) = Inr (n div 10)" by simp
    then show ?thesis using False d [of "n mod 10"] "1.prems"
      by (subst show_nat.simps) (simp add: read_digits_append)
  qed
qed

lemma show_nat_hd: "hd (show_nat n) \<noteq> CHR ''-''" "hd (show_nat n) \<noteq> CHR ''+''"
  using show_nat_chars [OF hd_in_set [OF show_nat_not_Nil], of n] by auto

lemma ParseInt_show_int:
  assumes "- (2 ^ 63) \<le> i" and "i < 2 ^ 63"
  shows "ParseInt (show_int i) = Inr i"
proof (cases "i < 0")
  case True
  then have "read_digits 0 (show_nat (nat (- i))) = Inr (nat (- i))" using assms by (intro read_digits_show_nat) simp
  then show ?thesis using True assms by (simp add: ParseInt_def show_int_def)
next
  case False
  then have "read_digits 0 (show_nat (nat i)) = Inr (nat i)" using assms by (intro read_digits_show_nat) simp
  moreover obtain c cs where "show_nat (nat i) = c # cs" "c \<noteq> CHR ''-''" "c \<noteq> CHR ''+''"
    using show_nat_hd [of "nat i"] by (cases "show_nat (nat i)") auto
  ultimately show ?thesis using False assms by (simp add: ParseInt_def show_int_def)
qed

lemma read_digits_bound: "read_digits acc s = Inr n \<Longrightarrow> acc < 2 ^ 64 \<Longrightarrow> n < 2 ^ 64"
  by (induction acc s rule: read_digits.induct) (auto simp: Let_def split: if_splits)

lemma ParseInt_range: "ParseInt s = Inr i \<Longrightarrow> - (2 ^ 63) \<le> i \<and> i < 2 ^ 63"
  by (auto simp: ParseInt_def Let_def split: if_splits sum.splits prod.splits list.splits)

text \<open>Printable ASCII characters are no white space.\<close>

definition graphic :: "char \<Rightarrow> bool" where
  "graphic c \<longleftrightarrow> 33 \<le> (of_char c :: nat) \<and> (of_char c :: nat) \<le> 126"

lemma is_digit_graphic: "is_digit c \<Longrightarrow> graphic c"
  by (simp add: is_digit_def graphic_def)

lemma graphic_not_space:
  assumes "graphic c"
  shows "space_len (c # cs) = 0" "space_len_end (cs @ [c]) = 0"
proof -
  have c: "c \<noteq> char_of n" if "n < 33 \<or> 126 < n" "n < 256" for n :: nat
    using assms that by (auto simp: graphic_def)
  have sp: "w \<in> set spaces \<Longrightarrow> \<exists>a r. (a < 33 \<or> 126 < a) \<and> a < 256 \<and> w = char_of (a :: nat) # r"
    "w \<in> set spaces \<Longrightarrow> \<exists>b r. (b < 33 \<or> 126 < b) \<and> b < 256 \<and> w = r @ [char_of (b :: nat)]" for w
  proof -
    let ?ns = "[[9], [10], [11], [12], [13], [32], [194, 133], [194, 160], [225, 154, 128]] @
      map (\<lambda>b. [226, 128, b]) ([128..<139] @ [168, 169, 175]) @ [[226, 129, 159], [227, 128, 128 :: nat]]"
    have "list_all (\<lambda>n. n \<noteq> [] \<and> (hd n < 33 \<or> 126 < hd n) \<and> hd n < 256 \<and> (last n < 33 \<or> 126 < last n) \<and> last n < 256) ?ns"
      by code_simp
    moreover assume "w \<in> set spaces"
    then obtain n where n: "n \<in> set ?ns" "w = map char_of n" unfolding spaces_def set_map by blast
    ultimately have "n \<noteq> [] \<and> (hd n < 33 \<or> 126 < hd n) \<and> hd n < 256 \<and> (last n < 33 \<or> 126 < last n) \<and> last n < 256"
      unfolding list_all_iff by blast
    then show "\<exists>a r. (a < 33 \<or> 126 < a) \<and> a < 256 \<and> w = char_of (a :: nat) # r"
      "\<exists>b r. (b < 33 \<or> 126 < b) \<and> b < 256 \<and> w = r @ [char_of (b :: nat)]"
      using n(2) by (metis list.collapse list.simps(9), metis append_butlast_last_id map_append list.simps(8,9))
  qed
  have "\<not> prefix w (c # cs)" if "w \<in> set spaces" for w
    using sp(1) [OF that] c by fastforce
  then have "find (\<lambda>w. prefix w (c # cs)) spaces = None" unfolding find_None_iff by blast
  then show "space_len (c # cs) = 0" unfolding space_len_def by (simp only: option.case)
  have "\<not> suffix w (cs @ [c])" if "w \<in> set spaces" for w
    using sp(2) [OF that] c by fastforce
  then have "find (\<lambda>w. suffix w (cs @ [c])) spaces = None" unfolding find_None_iff by blast
  then show "space_len_end (cs @ [c]) = 0" unfolding space_len_end_def by (simp only: option.case)
qed

lemma trim_left_graphic: "graphic c \<Longrightarrow> trim_left 0 (c # cs) = c # cs"
  by (simp add: graphic_not_space(1))

lemma trim_right_graphic: "graphic c \<Longrightarrow> trim_right 0 (c # cs) = rev (c # cs)"
  using graphic_not_space(2) [of c "rev cs"] by simp

lemma spaces_ascii:
  "spaces = [[CHR 0x09], [CHR 0x0A], [CHR 0x0B], [CHR 0x0C], [CHR 0x0D], [CHR '' '']] @ drop 6 spaces"
proof -
  have "take 6 spaces = [[CHR 0x09], [CHR 0x0A], [CHR 0x0B], [CHR 0x0C], [CHR 0x0D], [CHR '' '']]" by code_simp
  then show ?thesis by (metis append_take_drop_id)
qed

lemma newline_space: "space_len_end (cs @ [CHR 0x0A]) = 1"
proof -
  have "find (\<lambda>w. suffix w (cs @ [CHR 0x0A])) spaces = Some [CHR 0x0A]"
    by (subst spaces_ascii) simp
  then show ?thesis by (simp add: space_len_end_def)
qed

text \<open>A word of printable characters, with or without the newline that ends its file.\<close>

lemma TrimSpace_word:
  assumes "w \<noteq> []" and "\<forall>c \<in> set w. graphic c"
  shows "TrimSpace w = w" "TrimSpace (w @ [CHR 0x0A]) = w"
proof -
  obtain c cs where w: "w = c # cs" using assms(1) by (cases w) auto
  obtain l ls where r: "rev w = l # ls" using assms(1) by (cases "rev w") auto
  then have l: "graphic l" "graphic c" using assms(2) w by (metis list.set_intros(1) set_rev, simp)
  have left: "trim_left 0 (w @ ys) = w @ ys" for ys using trim_left_graphic [OF l(2)] w by simp
  have right: "trim_right 0 (rev w) = w" using trim_right_graphic [OF l(1), of ls] r by (metis rev_rev_ident)
  show "TrimSpace w = w" using left [of "[]"] right by (simp add: TrimSpace_def)
  have "trim_right 0 (CHR 0x0A # rev w) = trim_right 0 (rev w)"
    using newline_space [of w] by simp
  then show "TrimSpace (w @ [CHR 0x0A]) = w" using left right by (simp add: TrimSpace_def)
qed

lemma blank_space: "space_len (CHR '' '' # cs) = 1"
proof -
  have "find (\<lambda>w. prefix w (CHR '' '' # cs)) spaces = Some [CHR '' '']"
    by (subst spaces_ascii) simp
  then show ?thesis by (simp add: space_len_def)
qed

lemma fields_from_word:
  "\<forall>c \<in> set w. graphic c \<Longrightarrow> fields_from 0 cur (w @ cs) = fields_from 0 (cur @ w) cs"
  by (induction w arbitrary: cur) (simp_all add: graphic_not_space(1))

lemma fields_from_blanks: "fields_from 0 [] (replicate n (CHR '' '') @ cs) = fields_from 0 [] cs"
  by (induction n) (simp_all add: blank_space)

lemma fields_from_two:
  assumes "\<forall>c \<in> set (w @ v). graphic c" and "w \<noteq> []" and "v \<noteq> []"
  shows "Fields (w @ replicate (Suc n) (CHR '' '') @ v @ CHR '' '' # rest) = w # v # fields_from 0 [] rest"
  using assms by (simp add: Fields_def fields_from_word fields_from_blanks blank_space)

lemma show_nat_graphic: "c \<in> set (show_nat n) \<Longrightarrow> graphic c"
  using show_nat_chars [of c n] by (simp add: graphic_def)

end
