(* ===== verification/SysMem.thy ===== *)
theory SysMem
  imports GoText Budget
begin

text \<open>
  pkg/cache/sysmem.go with sysmem_linux.go, sysmem_darwin.go and sysmem_other.go: the memory of the
  process, from which the default byte budget of the caches is taken. The runtime's memory limit,
  the files of the kernel and the sysctl call are parameters, gathered in \<open>MemHost\<close>.
\<close>

section \<open>Definitions\<close>

text \<open>
  \<open>mh_file\<close> gives what can be read of a file, \<open>None\<close> when it cannot be opened; \<open>mh_sysctl\<close> is the answer
  of \<open>unix.SysctlUint64\<close>.
\<close>

record MemHost =
  mh_memLimit :: int
  mh_file :: "string \<Rightarrow> string option"
  mh_sysctl :: "string \<Rightarrow> 64 word option"

definition MaxInt64 :: int where
  "MaxInt64 = 2 ^ 63 - 1"

text \<open>A product of Go's int64 numbers.\<close>

definition mul64 :: "int \<Rightarrow> int \<Rightarrow> int" where
  "mul64 a b = sint (word_of_int (a * b) :: 64 word)"

definition cgroup2_limit :: "MemHost \<Rightarrow> int option" where
  "cgroup2_limit h =
     (case mh_file h ''/sys/fs/cgroup/memory.max'' of
        None \<Rightarrow> None
      | Some data \<Rightarrow>
          let str = TrimSpace data in
          if str \<noteq> ''max'' \<and> str \<noteq> [] then
            (case ParseInt str of
               Inr limit \<Rightarrow> if limit > 0 \<and> limit < MaxInt64 then Some limit else None
             | Inl _ \<Rightarrow> None)
          else None)"

definition cgroup1_limit :: "MemHost \<Rightarrow> int option" where
  "cgroup1_limit h =
     (case mh_file h ''/sys/fs/cgroup/memory/memory.limit_in_bytes'' of
        None \<Rightarrow> None
      | Some data \<Rightarrow>
          (case ParseInt (TrimSpace data) of
             Inr limit \<Rightarrow> if limit > 0 \<and> limit < 2 ^ 62 then Some limit else None
           | Inl _ \<Rightarrow> None))"

definition readCgroupMemoryLimit :: "MemHost \<Rightarrow> int" where
  "readCgroupMemoryLimit h =
     (case cgroup2_limit h of
        Some limit \<Rightarrow> limit
      | None \<Rightarrow> (case cgroup1_limit h of Some limit \<Rightarrow> limit | None \<Rightarrow> 0))"

fun meminfo_loop :: "string list \<Rightarrow> int" where
  "meminfo_loop [] = 0"
| "meminfo_loop (line # rest) =
     (if HasPrefix line ''MemTotal:'' then
        (let fields = Fields line in
         if length fields \<ge> 2 then
           (case ParseInt (fields ! 1) of
              Inr kb \<Rightarrow> if kb > 0 then mul64 kb 1024 else meminfo_loop rest
            | Inl _ \<Rightarrow> meminfo_loop rest)
         else meminfo_loop rest)
      else meminfo_loop rest)"

definition readProcMeminfo :: "MemHost \<Rightarrow> int" where
  "readProcMeminfo h =
     (case mh_file h ''/proc/meminfo'' of None \<Rightarrow> 0 | Some data \<Rightarrow> meminfo_loop (ScanLines data))"

definition detectOSMemory_linux :: "MemHost \<Rightarrow> int" where
  "detectOSMemory_linux h =
     (let mem = readCgroupMemoryLimit h in
      if mem > 0 then mem
      else let mem = readProcMeminfo h in if mem > 0 then mem else 0)"

definition detectOSMemory_darwin :: "MemHost \<Rightarrow> int" where
  "detectOSMemory_darwin h =
     (case mh_sysctl h ''hw.memsize'' of
        Some mem \<Rightarrow> if uint mem > 0 \<and> uint mem < MaxInt64 then sint mem else 0
      | None \<Rightarrow> 0)"

definition detectOSMemory_other :: "MemHost \<Rightarrow> int" where
  "detectOSMemory_other h = 0"

text \<open>The build picks one of the three.\<close>

datatype platform = Linux | Darwin | OtherPlatform

fun detectOSMemory :: "platform \<Rightarrow> MemHost \<Rightarrow> int" where
  "detectOSMemory Linux = detectOSMemory_linux"
| "detectOSMemory Darwin = detectOSMemory_darwin"
| "detectOSMemory OtherPlatform = detectOSMemory_other"

definition detectAvailableMemory :: "platform \<Rightarrow> MemHost \<Rightarrow> int" where
  "detectAvailableMemory pf h =
     (let gomem = mh_memLimit h in
      if gomem > 0 \<and> gomem < MaxInt64 then gomem
      else let mem = detectOSMemory pf h in
        if mem > 0 then mem else 512 * 2 ^ 20)"

text \<open>The variables of the package: the value that the \<open>sync.Once\<close> has stored, if it has run.\<close>

definition AvailableMemory :: "platform \<Rightarrow> MemHost \<Rightarrow> int option \<Rightarrow> int \<times> int option" where
  "AvailableMemory pf h cachedAvailMem =
     (case cachedAvailMem of
        Some mem \<Rightarrow> (mem, Some mem)
      | None \<Rightarrow> let mem = detectAvailableMemory pf h in (mem, Some mem))"

definition DefaultBudgetLimit :: "platform \<Rightarrow> MemHost \<Rightarrow> int option \<Rightarrow> int \<times> int option" where
  "DefaultBudgetLimit pf h st =
     (let (mem, st1) = AvailableMemory pf h st in
      if mem \<le> 0 then (256 * 2 ^ 20, st1) else (mem div 2, st1))"

section \<open>Lemmas\<close>

lemma meminfo_range: "meminfo_loop ls < 2 ^ 63"
proof (induction ls)
  case (Cons l ls)
  have "mul64 a b < 2 ^ 63" for a b
    using sint_lt [of "word_of_int (a * b) :: 64 word"] by (simp add: mul64_def)
  with Cons show ?case by (auto simp: Let_def split: sum.split)
qed simp

lemma cgroup_range: "readCgroupMemoryLimit h < 2 ^ 63 - 1"
proof -
  have "cgroup2_limit h = Some a \<Longrightarrow> a < 2 ^ 63 - 1" "cgroup1_limit h = Some a \<Longrightarrow> a < 2 ^ 63 - 1" for a
    by (auto simp: cgroup2_limit_def cgroup1_limit_def MaxInt64_def Let_def split: option.splits sum.splits if_splits)
  then show ?thesis by (auto simp: readCgroupMemoryLimit_def split: option.split)
qed

lemma detectOSMemory_range: "0 \<le> detectOSMemory pf h \<and> detectOSMemory pf h < 2 ^ 63"
proof (cases pf)
  case Linux
  have "readCgroupMemoryLimit h < 2 ^ 63" "readProcMeminfo h < 2 ^ 63"
    using cgroup_range [of h] meminfo_range by (auto simp: readProcMeminfo_def split: option.split)
  then show ?thesis using Linux by (auto simp: detectOSMemory_linux_def Let_def)
next
  case Darwin
  have "sint m = uint m" if "uint m < 2 ^ 63 - 1" for m :: "64 word"
    using that by (simp add: sint_uint signed_take_bit_eq_take_bit_shift take_bit_eq_mod)
  then show ?thesis using Darwin by (auto simp: detectOSMemory_darwin_def MaxInt64_def split: option.split)
qed (simp add: detectOSMemory_other_def)

lemma detectAvailableMemory_range: "0 < detectAvailableMemory pf h \<and> detectAvailableMemory pf h < 2 ^ 63"
  using detectOSMemory_range [of pf h] by (auto simp: detectAvailableMemory_def MaxInt64_def Let_def)

text \<open>What the kernel's files say, as the kernel prints it.\<close>

lemma show_nat_no_max: "show_nat n \<noteq> ''max''"
proof
  assume "show_nat n = ''max''"
  then have "CHR ''m'' \<in> set (show_nat n)" by simp
  then show False using show_nat_chars by fastforce
qed

lemma printed_limit:
  assumes "0 < n" and "n < 2 ^ 63"
  shows "TrimSpace (show_int n @ [CHR 0x0A]) = show_int n" "ParseInt (show_int n) = Inr n" "show_int n \<noteq> ''max''" "show_int n \<noteq> []"
proof -
  have s: "show_int n = show_nat (nat n)" using assms by (simp add: show_int_def)
  show "TrimSpace (show_int n @ [CHR 0x0A]) = show_int n"
    unfolding s using show_nat_graphic by (intro TrimSpace_word) auto
  show "ParseInt (show_int n) = Inr n" using assms by (intro ParseInt_show_int) auto
qed (use assms show_nat_no_max in \<open>simp_all add: show_int_def\<close>)

lemma cgroup2_printed:
  assumes "mh_file h ''/sys/fs/cgroup/memory.max'' = Some (show_int n @ [CHR 0x0A])" and "0 < n" and "n < 2 ^ 63 - 1"
  shows "readCgroupMemoryLimit h = n"
  using assms printed_limit [of n] by (simp add: readCgroupMemoryLimit_def cgroup2_limit_def MaxInt64_def)

lemma mul64_exact: "0 < kb \<Longrightarrow> kb < 2 ^ 53 \<Longrightarrow> mul64 kb 1024 = kb * 1024"
  unfolding mul64_def sint_sbintrunc' by (rule signed_take_bit_int_eq_self) simp_all

definition meminfo_line :: "nat \<Rightarrow> int \<Rightarrow> string" where
  "meminfo_line n kb = ''MemTotal:'' @ replicate (Suc n) (CHR '' '') @ show_int kb @ '' kB''"

lemma meminfo_line_fields:
  assumes "0 < kb"
  shows "\<exists>r. Fields (meminfo_line n kb) = ''MemTotal:'' # show_int kb # r"
proof -
  have s: "show_int kb = show_nat (nat kb)" using assms by (simp add: show_int_def)
  have "\<forall>c \<in> set (''MemTotal:'' @ show_nat (nat kb)). graphic c"
    using show_nat_graphic by (auto simp: graphic_def)
  from fields_from_two [OF this, of n "''kB''"] show ?thesis unfolding meminfo_line_def s by simp
qed

lemma meminfo_total:
  assumes "0 < kb" and "kb < 2 ^ 53" and "\<forall>l \<in> set before. \<not> HasPrefix l ''MemTotal:''"
  shows "meminfo_loop (before @ meminfo_line n kb # rest) = kb * 1024"
  using assms(3)
proof (induction before)
  case Nil
  obtain r where f: "Fields (meminfo_line n kb) = ''MemTotal:'' # show_int kb # r"
    using meminfo_line_fields [OF assms(1)] by blast
  have p: "HasPrefix (meminfo_line n kb) ''MemTotal:''" by (simp add: meminfo_line_def HasPrefix_def)
  have "ParseInt (show_int kb) = Inr kb" using assms(1,2) by (intro ParseInt_show_int) auto
  then show ?case using p f assms(1) mul64_exact [OF assms(1,2)] by simp
qed simp

text \<open>The scanner gives back the lines of a text, if each is short and has no line end inside.\<close>

lemma Split_line: "CHR 0x0A \<notin> set l \<Longrightarrow> Split (l @ CHR 0x0A # r) (CHR 0x0A) = l # Split r (CHR 0x0A)"
  by (induction l) auto

lemma Split_lines:
  "\<forall>l \<in> set ls. CHR 0x0A \<notin> set l \<Longrightarrow> Split (concat (map (\<lambda>l. l @ [CHR 0x0A]) ls)) (CHR 0x0A) = ls @ [[]]"
  by (induction ls) (simp_all add: Split_line)

lemma ScanLines_lines:
  assumes "\<forall>l \<in> set ls. CHR 0x0A \<notin> set l \<and> CHR 0x0D \<notin> set l \<and> length l < 65536"
  shows "ScanLines (concat (map (\<lambda>l. l @ [CHR 0x0A]) ls)) = ls"
proof -
  have cr: "drop_cr l = l" if "l \<in> set ls" for l
    using assms that last_in_set [of l] by (metis drop_cr_def)
  have "Split (concat (map (\<lambda>l. l @ [CHR 0x0A]) ls)) (CHR 0x0A) = ls @ [[]]"
    using assms by (intro Split_lines) blast
  moreover have "takeWhile (\<lambda>l. length l < 65536) ls = ls" using assms by (simp only: takeWhile_eq_all_conv) blast
  then have "map drop_cr (takeWhile (\<lambda>l. length l < 65536) ls) = ls" using cr by (simp only: map_idI)
  ultimately show ?thesis by (simp add: ScanLines_def Let_def)
qed

section \<open>Properties\<close>


text \<open>
  Where the memory is read from on Linux, with no limit of the Go runtime set: the limit that cgroup
  v2 prints, and on a host without cgroup files the total of /proc/meminfo, wherever in the file its
  line stands, in bytes.
\<close>

theorem linux_memory_sources:
  assumes "\<not> (0 < mh_memLimit h \<and> mh_memLimit h < MaxInt64)"
  shows "(0 < n \<and> n < 2 ^ 63 - 1 \<and> mh_file h ''/sys/fs/cgroup/memory.max'' = Some (show_int n @ [CHR 0x0A]) \<longrightarrow>
      fst (AvailableMemory Linux h None) = n)
    \<and> (mh_file h ''/sys/fs/cgroup/memory.max'' = None \<and> mh_file h ''/sys/fs/cgroup/memory/memory.limit_in_bytes'' = None \<and>
      mh_file h ''/proc/meminfo'' = Some (concat (map (\<lambda>l. l @ [CHR 0x0A]) (before @ meminfo_line w kb # rest))) \<and>
      (\<forall>l \<in> set (before @ meminfo_line w kb # rest). CHR 0x0A \<notin> set l \<and> CHR 0x0D \<notin> set l \<and> length l < 65536) \<and>
      (\<forall>l \<in> set before. \<not> HasPrefix l ''MemTotal:'') \<and> 0 < kb \<and> kb < 2 ^ 53 \<longrightarrow>
      fst (AvailableMemory Linux h None) = kb * 1024)"
proof (intro conjI)
  have am: "fst (AvailableMemory Linux h None) = (if detectOSMemory_linux h > 0 then detectOSMemory_linux h else 512 * 2 ^ 20)"
    using assms by (auto simp: AvailableMemory_def detectAvailableMemory_def Let_def)
  show "0 < n \<and> n < 2 ^ 63 - 1 \<and> mh_file h ''/sys/fs/cgroup/memory.max'' = Some (show_int n @ [CHR 0x0A]) \<longrightarrow>
      fst (AvailableMemory Linux h None) = n"
    using am cgroup2_printed [of h n] by (simp add: detectOSMemory_linux_def)
  show "mh_file h ''/sys/fs/cgroup/memory.max'' = None \<and> mh_file h ''/sys/fs/cgroup/memory/memory.limit_in_bytes'' = None \<and>
      mh_file h ''/proc/meminfo'' = Some (concat (map (\<lambda>l. l @ [CHR 0x0A]) (before @ meminfo_line w kb # rest))) \<and>
      (\<forall>l \<in> set (before @ meminfo_line w kb # rest). CHR 0x0A \<notin> set l \<and> CHR 0x0D \<notin> set l \<and> length l < 65536) \<and>
      (\<forall>l \<in> set before. \<not> HasPrefix l ''MemTotal:'') \<and> 0 < kb \<and> kb < 2 ^ 53 \<longrightarrow>
      fst (AvailableMemory Linux h None) = kb * 1024"
  proof (intro impI, elim conjE)
    assume files: "mh_file h ''/sys/fs/cgroup/memory.max'' = None" "mh_file h ''/sys/fs/cgroup/memory/memory.limit_in_bytes'' = None"
      "mh_file h ''/proc/meminfo'' = Some (concat (map (\<lambda>l. l @ [CHR 0x0A]) (before @ meminfo_line w kb # rest)))"
      and ls: "\<forall>l \<in> set (before @ meminfo_line w kb # rest). CHR 0x0A \<notin> set l \<and> CHR 0x0D \<notin> set l \<and> length l < 65536"
      "\<forall>l \<in> set before. \<not> HasPrefix l ''MemTotal:''" and kb: "0 < kb" "kb < 2 ^ 53"
    have "readProcMeminfo h = kb * 1024"
      unfolding readProcMeminfo_def files(3) option.case ScanLines_lines [OF ls(1)] by (rule meminfo_total [OF kb ls(2)])
    moreover have "readCgroupMemoryLimit h = 0"
      using files by (simp add: readCgroupMemoryLimit_def cgroup2_limit_def cgroup1_limit_def)
    ultimately show "fst (AvailableMemory Linux h None) = kb * 1024"
      using am kb by (simp add: detectOSMemory_linux_def)
  qed
qed

theorem linux_memory_sources_witness:
  "fst (AvailableMemory Linux \<lparr>mh_memLimit = MaxInt64,
       mh_file = [''/sys/fs/cgroup/memory.max'' \<mapsto> show_int 1024 @ [CHR 0x0A]], mh_sysctl = Map.empty\<rparr> None) = 1024
   \<and> fst (AvailableMemory Linux \<lparr>mh_memLimit = MaxInt64,
       mh_file = [''/proc/meminfo'' \<mapsto> concat (map (\<lambda>l. l @ [CHR 0x0A]) ([] @ meminfo_line 3 7 # [''MemFree: 1 kB'']))],
       mh_sysctl = Map.empty\<rparr> None) = 7 * 1024"
proof
  let ?h = "\<lparr>mh_memLimit = MaxInt64, mh_file = [''/sys/fs/cgroup/memory.max'' \<mapsto> show_int 1024 @ [CHR 0x0A]], mh_sysctl = Map.empty\<rparr>"
  show "fst (AvailableMemory Linux ?h None) = 1024" using linux_memory_sources [of ?h 1024] by simp
  let ?ls = "[] @ meminfo_line 3 7 # [''MemFree: 1 kB'']"
  obtain data where data: "data = concat (map (\<lambda>l. l @ [CHR 0x0A]) ?ls)" by blast
  let ?h = "\<lparr>mh_memLimit = MaxInt64, mh_file = [''/proc/meminfo'' \<mapsto> data], mh_sysctl = Map.empty\<rparr>"
  have ls: "\<forall>l \<in> set ?ls. CHR 0x0A \<notin> set l \<and> CHR 0x0D \<notin> set l \<and> length l < 65536"
    by (simp add: meminfo_line_def show_int_def show_nat.simps [of 7] digit_def char_of_def)
  have lim: "\<not> (0 < mh_memLimit ?h \<and> mh_memLimit ?h < MaxInt64)" by simp
  have files: "mh_file ?h ''/sys/fs/cgroup/memory.max'' = None" "mh_file ?h ''/sys/fs/cgroup/memory/memory.limit_in_bytes'' = None"
    "mh_file ?h ''/proc/meminfo'' = Some data" by simp_all
  have "\<forall>l \<in> set []. \<not> HasPrefix l ''MemTotal:''" "(0 :: int) < 7" "(7 :: int) < 2 ^ 53" by simp_all
  with files ls data linux_memory_sources [OF lim, of _ "[]" 3 7 "[''MemFree: 1 kB'']"]
  have "fst (AvailableMemory Linux ?h None) = 7 * 1024" by blast
  then show "fst (AvailableMemory Linux \<lparr>mh_memLimit = MaxInt64,
       mh_file = [''/proc/meminfo'' \<mapsto> concat (map (\<lambda>l. l @ [CHR 0x0A]) ?ls)], mh_sysctl = Map.empty\<rparr> None) = 7 * 1024"
    unfolding data .
qed

text \<open>
  Half of a memory of one byte is a budget of 0, which \<open>NewBudget\<close> takes for no limit at all: every
  reservation is granted.
\<close>

theorem tiny_memory_unbounded:
  "fst (DefaultBudgetLimit pf \<lparr>mh_memLimit = 1, mh_file = files, mh_sysctl = ctl\<rparr> None) = 0"
  "Reserve ev n (NewBudget 0) hp = Some (True, (NewBudget 0)\<lparr>b_used := max 0 n\<rparr>, hp)"
  by (simp_all add: DefaultBudgetLimit_def AvailableMemory_def detectAvailableMemory_def MaxInt64_def Reserve_def NewBudget_def Let_def)

text \<open>A total that 64 bits cannot hold in bytes wraps to a number that may be tiny.\<close>

theorem meminfo_wraps: "meminfo_loop [meminfo_line 0 (2 ^ 54 + 1)] = 1024"
proof -
  obtain r where f: "Fields (meminfo_line 0 (2 ^ 54 + 1)) = ''MemTotal:'' # show_int (2 ^ 54 + 1) # r"
    using meminfo_line_fields [of "2 ^ 54 + 1" 0] by auto
  have p: "HasPrefix (meminfo_line 0 (2 ^ 54 + 1)) ''MemTotal:''" by (simp add: meminfo_line_def HasPrefix_def)
  have i: "ParseInt (show_int (2 ^ 54 + 1)) = Inr (2 ^ 54 + 1)" by (rule ParseInt_show_int) simp_all
  have "mul64 (2 ^ 54 + 1) 1024 = 1024" by code_simp
  then show ?thesis unfolding meminfo_loop.simps using p f i by (simp del: power_numeral)
qed

end
