(* ===== verification/NodeLifecycle.thy ===== *)
theory NodeLifecycle
  imports Mesh Pool GoText
begin

text \<open>
  pkg/cluster/mesh.go, the life of a node: \<open>NewNode\<close>, the membership callbacks on the real
  connection pool, the accept loop, the accessors and \<open>Close\<close>. The listener and memberlist are
  outside: \<open>Host\<close> gives what they answer, and the callbacks that memberlist makes are explicit
  lists of events. \<open>view\<close> maps a node to the record of the theory \<open>Mesh\<close>, which keeps only the
  addresses of the pool.
\<close>

section \<open>Configuration and surroundings\<close>

text \<open>The fields of \<open>NodeConfig\<close> that only \<open>NewNode\<close> reads.\<close>

record 'h NodeSettings = "'h NodeConfig" +
  nc_NodeName :: string
  nc_BindPort :: int
  nc_MeshPort :: int
  nc_QuicPort :: int
  nc_JoinAddrs :: "string list"
  nc_Ring :: "Ring option"
  nc_PoolSize :: int

text \<open>A node of memberlist, its configuration as far as \<open>NewNode\<close> sets it, and its callbacks.\<close>

record Member =
  mb_Name :: string
  mb_Addr :: string
  mb_Port :: "16 word"
  mb_Meta :: bytes

record MlistConfig =
  ml_Name :: string
  ml_BindAddr :: string
  ml_BindPort :: int
  ml_Meta :: bytes

datatype member_event = Joined (ev_member: Member) | Updated (ev_member: Member) | Departed (ev_member: Member)

datatype net_addr = TCPAddr int | UDPAddr int | OtherAddr string

text \<open>
  \<open>ho_Create\<close> gives the callbacks made before \<open>memberlist.Create\<close> returns, with its error or the port
  of the local node; \<open>ho_Join\<close> the callbacks of \<open>Join\<close>; \<open>ho_Members\<close> the members after it.
\<close>

record Host =
  ho_Listen :: "string \<Rightarrow> gerror + net_addr option"
  ho_Create :: "MlistConfig \<Rightarrow> member_event list \<times> (gerror + 16 word)"
  ho_Join :: "string list \<Rightarrow> member_event list"
  ho_Members :: "Member list"
  ho_fate :: "nat \<Rightarrow> gerror option"
  ho_quote :: "string \<Rightarrow> string"

section \<open>The node\<close>

datatype mlist_state = Active | Down

text \<open>
  \<open>lv_serving\<close> are the accepted connections whose \<open>handleConn\<close> runs; with \<open>lv_accepting\<close> they are the
  WaitGroup. \<open>lv_held\<close> are the connections that requests have taken from the pool.
\<close>

record 'h LiveNode =
  lv_cfg :: "'h NodeSettings"
  lv_meshPort :: int
  lv_bindPort :: int
  lv_handlers :: "(string, 'h) gomap"
  lv_ring :: Ring
  lv_pool :: "MeshPool option"
  lv_net :: Net
  lv_mlist :: "mlist_state option"
  lv_listening :: bool
  lv_accepting :: bool
  lv_serving :: "nat list"
  lv_held :: "nat list"
  lv_cancelled :: bool
  lv_closed :: bool

definition pool_addrs :: "MeshPool option \<Rightarrow> string list" where
  "pool_addrs mp = (case mp of None \<Rightarrow> [] | Some m \<Rightarrow> map fst (mp_peers m))"

definition view :: "'h LiveNode \<Rightarrow> 'h Node" where
  "view n = \<lparr>nd_cfg = NodeConfig.truncate (lv_cfg n), nd_meshPort = lv_meshPort n, nd_handlers = lv_handlers n,
     nd_ring = lv_ring n, nd_peers = pool_addrs (lv_pool n)\<rparr>"

definition self_addr :: "'h LiveNode \<Rightarrow> string" where
  "self_addr n = nc_BindAddr (lv_cfg n) @ '':'' @ show_int (lv_meshPort n)"

definition ev_addr :: "Member \<Rightarrow> string" where
  "ev_addr m = member_addr (mb_Addr m) (mb_Meta m)"

text \<open>The callbacks of \<open>eventDelegate\<close>, on the pool itself.\<close>

definition live_join :: "Member \<Rightarrow> 'h LiveNode \<Rightarrow> 'h LiveNode" where
  "live_join m n =
     (let meshAddr = ev_addr m;
          n1 = n\<lparr>lv_ring := AddNode meshAddr (lv_ring n)\<rparr>
      in if lv_pool n1 \<noteq> None \<and> meshAddr \<noteq> self_addr n1
         then n1\<lparr>lv_pool := map_option (AddPeer meshAddr) (lv_pool n1)\<rparr> else n1)"

definition live_leave :: "Member \<Rightarrow> 'h LiveNode \<Rightarrow> 'h LiveNode" where
  "live_leave m n =
     (let meshAddr = ev_addr m;
          n1 = n\<lparr>lv_ring := RemoveNode meshAddr (lv_ring n)\<rparr>
      in case lv_pool n1 of
           None \<Rightarrow> n1
         | Some mp \<Rightarrow> let (mp1, net1) = RemovePeer meshAddr mp (lv_net n1) in n1\<lparr>lv_pool := Some mp1, lv_net := net1\<rparr>)"

fun deliver :: "member_event \<Rightarrow> 'h LiveNode \<Rightarrow> 'h LiveNode" where
  "deliver (Joined m) n = live_join m n"
| "deliver (Updated m) n = live_join m n"
| "deliver (Departed m) n = live_leave m n"

definition portFromAddr :: "(string \<Rightarrow> string) \<Rightarrow> net_addr option \<Rightarrow> gerror + int" where
  "portFromAddr quote a =
     (case a of
        None \<Rightarrow> Inl (ErrorMsg ''nil listener address'')
      | Some (TCPAddr port) \<Rightarrow> Inr port
      | Some (UDPAddr port) \<Rightarrow> Inr port
      | Some (OtherAddr s) \<Rightarrow>
          (case SplitHostPort s of
             Inl err \<Rightarrow> Inl (Wrapped (''parse '' @ quote s @ '': '') (ErrorMsg err))
           | Inr (host, portStr) \<Rightarrow>
               (case Atoi quote portStr of
                  Inl err \<Rightarrow> Inl (Wrapped (''parse port '' @ quote portStr @ '': '') (ErrorMsg err))
                | Inr port \<Rightarrow>
                    if port < 0 \<or> port > 65535 then Inl (ErrorMsg (''port out of range '' @ quote portStr))
                    else Inr port)))"

definition node_defaults :: "'h NodeSettings \<Rightarrow> 'h NodeSettings" where
  "node_defaults cfg =
     cfg\<lparr>nc_BindAddr := (if nc_BindAddr cfg = [] then ''127.0.0.1'' else nc_BindAddr cfg),
         nc_PoolSize := (if nc_PoolSize cfg \<le> 0 then DefaultPoolSize else nc_PoolSize cfg),
         nc_Ring := Some (case nc_Ring cfg of None \<Rightarrow> NewRing 100 2 | Some r \<Rightarrow> r)\<rparr>"

definition node_meta :: "int \<Rightarrow> bytes" where
  "node_meta port = PutUint16 (word_of_int port)"

text \<open>The copying of the member list into ring and pool at the end of \<open>NewNode\<close>.\<close>

definition sync_member :: "Member \<Rightarrow> 'h LiveNode \<Rightarrow> 'h LiveNode" where
  "sync_member m n =
     (let mAddr = ev_addr m;
          n1 = n\<lparr>lv_ring := AddNode mAddr (lv_ring n)\<rparr>
      in if mAddr \<noteq> self_addr n1 then n1\<lparr>lv_pool := map_option (AddPeer mAddr) (lv_pool n1)\<rparr> else n1)"

definition close_pool :: "'h LiveNode \<Rightarrow> 'h LiveNode" where
  "close_pool n =
     (case lv_pool n of
        None \<Rightarrow> n
      | Some m \<Rightarrow> let (m1, net1) = MeshPool_Close m (lv_net n) in n\<lparr>lv_pool := Some m1, lv_net := net1\<rparr>)"

definition start_gossip :: "Host \<Rightarrow> 'h LiveNode \<Rightarrow> gerror option \<times> 'h LiveNode" where
  "start_gossip host n =
     (let cfg = lv_cfg n;
          mlConfig = \<lparr>ml_Name = nc_NodeName cfg, ml_BindAddr = nc_BindAddr cfg, ml_BindPort = nc_BindPort cfg,
            ml_Meta = node_meta (lv_meshPort n)\<rparr>;
          (evs, r) = ho_Create host mlConfig;
          n1 = fold deliver evs n
      in case r of
           Inl err \<Rightarrow>
             (Some (Wrapped ''memberlist create error: '' err),
              (close_pool (n1\<lparr>lv_listening := False\<rparr>))\<lparr>lv_cancelled := True\<rparr>)
         | Inr port \<Rightarrow>
             let n2 = n1\<lparr>lv_mlist := Some Active, lv_bindPort := uint port\<rparr>;
                 n3 = (if nc_JoinAddrs cfg \<noteq> [] then fold deliver (ho_Join host (nc_JoinAddrs cfg)) n2 else n2)
             in (None, fold sync_member (ho_Members host) n3))"

text \<open>
  \<open>NewNode\<close>: its error, if any, and the node, which on an error is not returned but shows what became
  of the listener, the pool and the ring.
\<close>

definition NewNode :: "Host \<Rightarrow> 'h NodeSettings \<Rightarrow> gerror option \<times> 'h LiveNode" where
  "NewNode host cfg0 =
     (let cfg = node_defaults cfg0;
          meshPort = (if nc_MeshPort cfg = 0 \<and> nc_QuicPort cfg \<noteq> 0 then nc_QuicPort cfg else nc_MeshPort cfg);
          n = \<lparr>lv_cfg = cfg, lv_meshPort = 0, lv_bindPort = 0, lv_handlers = [], lv_ring = the (nc_Ring cfg),
               lv_pool = None, lv_net = \<lparr>nt_fate = ho_fate host, nt_dials = 0, nt_open = []\<rparr>, lv_mlist = None,
               lv_listening = False, lv_accepting = False, lv_serving = [], lv_held = [],
               lv_cancelled = False, lv_closed = False\<rparr>;
          meshAddr = nc_BindAddr cfg @ '':'' @ show_int meshPort
      in case ho_Listen host meshAddr of
           Inl err \<Rightarrow>
             (Some (Wrapped (''mesh tcp listen error on '' @ meshAddr @ '': '') err), n\<lparr>lv_cancelled := True\<rparr>)
         | Inr laddr \<Rightarrow>
             let n = n\<lparr>lv_listening := True\<rparr> in
             (case portFromAddr (ho_quote host) laddr of
                Inl err \<Rightarrow>
                  (Some (Wrapped ''mesh tcp listen: resolve bound port: '' err),
                   n\<lparr>lv_listening := False, lv_cancelled := True\<rparr>)
              | Inr port \<Rightarrow>
                  let n = n\<lparr>lv_meshPort := port,
                        lv_pool := Some (NewMeshPool (nc_PoolSize cfg) (dialTimeout (NodeConfig.truncate cfg))),
                        lv_accepting := True\<rparr>;
                      n = n\<lparr>lv_ring := AddNode (self_addr n) (lv_ring n)\<rparr>
                  in start_gossip host n))"

text \<open>
  One turn of \<open>acceptLoop\<close> with the result of \<open>Accept\<close>: a connection gets a goroutine, an error ends the
  loop once the context is done and is ignored before.
\<close>

definition accept_turn :: "gerror + nat \<Rightarrow> 'h LiveNode \<Rightarrow> 'h LiveNode" where
  "accept_turn r n =
     (case r of
        Inl err \<Rightarrow> (if lv_cancelled n then n\<lparr>lv_accepting := False\<rparr> else n)
      | Inr conn \<Rightarrow> n\<lparr>lv_serving := conn # lv_serving n\<rparr>)"

text \<open>The context of the pool is derived from that of the node, so it is done with it.\<close>

definition cancel_ctx :: "'h LiveNode \<Rightarrow> 'h LiveNode" where
  "cancel_ctx n = n\<lparr>lv_cancelled := True, lv_pool := map_option (\<lambda>m. m\<lparr>mp_done := True\<rparr>) (lv_pool n)\<rparr>"

text \<open>
  \<open>Close\<close> up to its wait; \<open>evs\<close> are the callbacks during \<open>Leave\<close> and \<open>Shutdown\<close>. memberlist panics on a
  \<open>Leave\<close> after \<open>Shutdown\<close>, which is \<open>None\<close>.
\<close>

definition node_Close :: "member_event list \<Rightarrow> 'h LiveNode \<Rightarrow> 'h LiveNode option" where
  "node_Close evs n =
     (if lv_closed n then Some n
      else
        let n1 = cancel_ctx (n\<lparr>lv_closed := True\<rparr>);
            r = (case lv_mlist n1 of
                None \<Rightarrow> Some n1
              | Some Down \<Rightarrow> None
              | Some Active \<Rightarrow> Some ((fold deliver evs n1)\<lparr>lv_mlist := Some Down\<rparr>))
        in map_option (\<lambda>n2. close_pool (n2\<lparr>lv_listening := False\<rparr>)) r)"

text \<open>What the wait at the end of \<open>Close\<close> waits for.\<close>

definition wait_done :: "'h LiveNode \<Rightarrow> bool" where
  "wait_done n \<longleftrightarrow> \<not> lv_accepting n \<and> lv_serving n = []"

section \<open>Accessors\<close>

record MemberInfo =
  mi_Name :: string
  mi_Addr :: string
  mi_GossipPort :: int
  mi_QuicPort :: int
  mi_QuicAddr :: string
  mi_MeshPort :: int
  mi_MeshAddr :: string

definition SelfQuicAddr :: "'h LiveNode \<Rightarrow> string" where
  "SelfQuicAddr n = self_addr n"

definition node_MeshPort :: "'h LiveNode \<Rightarrow> int" where
  "node_MeshPort n = lv_meshPort n"

definition node_QuicPort :: "'h LiveNode \<Rightarrow> int" where
  "node_QuicPort n = lv_meshPort n"

definition node_BindPort :: "'h LiveNode \<Rightarrow> int" where
  "node_BindPort n = lv_bindPort n"

definition GossipAddr :: "'h LiveNode \<Rightarrow> string" where
  "GossipAddr n = nc_BindAddr (lv_cfg n) @ '':'' @ show_int (lv_bindPort n)"

text \<open>\<open>Members\<close> and \<open>MemberCount\<close>, with what memberlist lists at that time.\<close>

definition Members :: "Member list \<Rightarrow> 'h LiveNode \<Rightarrow> MemberInfo list" where
  "Members listed n =
     (if lv_mlist n = None then []
      else map (\<lambda>m. let mPort = getMeshPort (mb_Meta m); mAddr = mb_Addr m @ '':'' @ show_int mPort in
        \<lparr>mi_Name = mb_Name m, mi_Addr = mb_Addr m, mi_GossipPort = uint (mb_Port m), mi_QuicPort = mPort,
         mi_QuicAddr = mAddr, mi_MeshPort = mPort, mi_MeshAddr = mAddr\<rparr>) listed)"

definition MemberCount :: "Member list \<Rightarrow> 'h LiveNode \<Rightarrow> nat" where
  "MemberCount listed n = (if lv_mlist n = None then NodeCount (lv_ring n) else length listed)"

section \<open>Runs of a node\<close>

datatype node_event =
    Gossip member_event
  | Accepted "gerror + nat"
  | ConnEnded nat
  | TakeConn string
  | GiveConn string nat
  | LoseConn string nat
  | WarmUp string "nat \<Rightarrow> gerror option"
  | CloseNode "member_event list"

text \<open>
  An event that can happen and the node after it. \<open>handleConn\<close> of a connection ends when its reads or
  writes fail; requests take connections of the pool and give them back or drop them.
\<close>

fun node_exec :: "node_event \<Rightarrow> 'h LiveNode \<Rightarrow> 'h LiveNode option" where
  "node_exec (Gossip e) n = (if lv_mlist n = Some Active then Some (deliver e n) else None)"
| "node_exec (Accepted r) n =
     (if lv_accepting n \<and> (case r of Inl _ \<Rightarrow> True | Inr c \<Rightarrow> lv_listening n \<and> c \<notin> set (lv_serving n))
      then Some (accept_turn r n) else None)"
| "node_exec (ConnEnded c) n =
     (if c \<in> set (lv_serving n) then Some (n\<lparr>lv_serving := removeAll c (lv_serving n)\<rparr>) else None)"
| "node_exec (TakeConn a) n =
     (case lv_pool n of
        None \<Rightarrow> None
      | Some m \<Rightarrow>
          let (r, m1, net1) = mesh_GetConn a m (lv_net n) in
          Some (n\<lparr>lv_pool := Some m1, lv_net := net1,
            lv_held := (case r of Inr c \<Rightarrow> c # lv_held n | Inl _ \<Rightarrow> lv_held n)\<rparr>))"
| "node_exec (GiveConn a c) n =
     (case lv_pool n of
        None \<Rightarrow> None
      | Some m \<Rightarrow>
          if c \<in> set (lv_held n) then
            let (m1, net1) = mesh_PutConn a c m (lv_net n) in
            Some (n\<lparr>lv_pool := Some m1, lv_net := net1, lv_held := remove1 c (lv_held n)\<rparr>)
          else None)"
| "node_exec (LoseConn a c) n =
     (case lv_pool n of
        None \<Rightarrow> None
      | Some m \<Rightarrow>
          if c \<in> set (lv_held n) then
            Some (n\<lparr>lv_net := mesh_DropConn a c m (lv_net n), lv_held := remove1 c (lv_held n)\<rparr>)
          else None)"
| "node_exec (WarmUp a ctx) n =
     (case lv_pool n of
        None \<Rightarrow> None
      | Some m \<Rightarrow> let (m1, net1) = mesh_warm a ctx m (lv_net n) in Some (n\<lparr>lv_pool := Some m1, lv_net := net1\<rparr>))"
| "node_exec (CloseNode evs) n = node_Close evs n"

fun node_run :: "node_event list \<Rightarrow> 'h LiveNode \<Rightarrow> 'h LiveNode option" where
  "node_run [] n = Some n"
| "node_run (e # es) n = (case node_exec e n of None \<Rightarrow> None | Some n1 \<Rightarrow> node_run es n1)"

lemma node_run_append: "node_run (xs @ ys) n = (case node_run xs n of None \<Rightarrow> None | Some n1 \<Rightarrow> node_run ys n1)"
  by (induction xs arbitrary: n) (auto split: option.splits)

section \<open>Callbacks and the pool\<close>

text \<open>On the part that the theory \<open>Mesh\<close> keeps, the callbacks are the ones defined there.\<close>

lemma self_addr_view [simp]: "SelfMeshAddr (view n) = self_addr n"
  by (simp add: SelfMeshAddr_def view_def self_addr_def NodeConfig.truncate_def)

lemma update_keys: "map fst (AList.update a x xs) = (if a \<in> set (map fst xs) then map fst xs else map fst xs @ [a])"
  by (induction xs) auto

lemma AddPeer_keys:
  "\<not> mp_done m \<Longrightarrow> map fst (mp_peers (AddPeer a m)) = pool_add a (map fst (mp_peers m))"
  by (auto simp: AddPeer_def pool_add_def update_keys map_of_eq_None_iff)

lemma RemovePeer_keys:
  "map fst (mp_peers (fst (RemovePeer a m net))) = removeAll a (map fst (mp_peers m))"
proof (cases "map_of (mp_peers m) a")
  case None
  then have "a \<notin> set (map fst (mp_peers m))" by (simp add: map_of_eq_None_iff)
  then show ?thesis using None by (simp add: RemovePeer_def removeAll_id)
next
  case (Some p)
  have "map fst (AList.delete a ps) = removeAll a (map fst ps)" for ps :: "(string, PeerPool) gomap"
    by (induction ps) auto
  then show ?thesis using Some by (simp add: RemovePeer_def)
qed

lemma deliver_view:
  assumes "lv_pool n = Some m" and "\<not> mp_done m"
  shows "view (live_join mb n) = NotifyJoin (mb_Addr mb) (mb_Meta mb) (view n)"
    "view (live_join mb n) = NotifyUpdate (mb_Addr mb) (mb_Meta mb) (view n)"
    "view (live_leave mb n) = NotifyLeave (mb_Addr mb) (mb_Meta mb) (view n)"
proof -
  have v: "nd_ring (view n) = lv_ring n" "nd_peers (view n) = map fst (mp_peers m)"
    using assms by (simp_all add: view_def pool_addrs_def)
  show j: "view (live_join mb n) = NotifyJoin (mb_Addr mb) (mb_Meta mb) (view n)"
    using assms AddPeer_keys [OF assms(2), of "ev_addr mb"]
    by (simp add: live_join_def NotifyJoin_def Let_def ev_addr_def self_addr_def v)
      (simp add: view_def pool_addrs_def self_addr_def)
  show "view (live_join mb n) = NotifyUpdate (mb_Addr mb) (mb_Meta mb) (view n)"
    unfolding j by (simp add: NotifyJoin_def NotifyUpdate_def)
  show "view (live_leave mb n) = NotifyLeave (mb_Addr mb) (mb_Meta mb) (view n)"
    using assms RemovePeer_keys [of "ev_addr mb" m "lv_net n"]
    by (simp add: live_leave_def NotifyLeave_def Let_def ev_addr_def v case_prod_beta)
      (simp add: view_def pool_addrs_def)
qed

lemma deliver_frame [simp]:
  "lv_cfg (deliver e n) = lv_cfg n" "lv_meshPort (deliver e n) = lv_meshPort n" "lv_mlist (deliver e n) = lv_mlist n"
  "lv_listening (deliver e n) = lv_listening n" "lv_accepting (deliver e n) = lv_accepting n"
  "lv_serving (deliver e n) = lv_serving n" "lv_held (deliver e n) = lv_held n"
  "lv_cancelled (deliver e n) = lv_cancelled n" "lv_closed (deliver e n) = lv_closed n"
  "self_addr (deliver e n) = self_addr n"
  by (cases e; simp add: live_join_def live_leave_def Let_def self_addr_def split: option.split prod.split)+

lemma fold_deliver_frame [simp]:
  "lv_cfg (fold deliver evs n) = lv_cfg n" "lv_meshPort (fold deliver evs n) = lv_meshPort n"
  "lv_mlist (fold deliver evs n) = lv_mlist n"
  "lv_listening (fold deliver evs n) = lv_listening n" "lv_accepting (fold deliver evs n) = lv_accepting n"
  "lv_serving (fold deliver evs n) = lv_serving n" "lv_held (fold deliver evs n) = lv_held n"
  "lv_cancelled (fold deliver evs n) = lv_cancelled n" "lv_closed (fold deliver evs n) = lv_closed n"
  "self_addr (fold deliver evs n) = self_addr n"
  by (induction evs arbitrary: n) simp_all

lemma sync_member_joins: "lv_pool n \<noteq> None \<Longrightarrow> sync_member m n = deliver (Joined m) n"
  by (simp add: sync_member_def live_join_def Let_def)

lemma deliver_pool: "lv_pool n \<noteq> None \<Longrightarrow> lv_pool (deliver e n) \<noteq> None"
  by (cases e) (auto simp: live_join_def live_leave_def Let_def split: option.split prod.split)

lemma fold_sync_joins: "lv_pool n \<noteq> None \<Longrightarrow> fold sync_member ms n = fold deliver (map Joined ms) n"
proof (induction ms arbitrary: n)
  case (Cons m ms)
  then show ?case using sync_member_joins [of n m] deliver_pool [OF Cons.prems, of "Joined m"] by simp
qed simp

text \<open>
  The pool with its connections is sound, whether or not the context of the node is done already,
  and the ring is.
\<close>

definition mesh_part_ok :: "'h LiveNode \<Rightarrow> bool" where
  "mesh_part_ok n \<longleftrightarrow>
     (\<exists>m. lv_pool n = Some m \<and> mesh_ok (mset (lv_held n)) (m\<lparr>mp_done := False\<rparr>) (lv_net n)) \<and> ring_ok (lv_ring n)"

lemma AddPeer_undone:
  "(AddPeer a m)\<lparr>mp_done := False\<rparr> = (if mp_done m then m\<lparr>mp_done := False\<rparr> else AddPeer a (m\<lparr>mp_done := False\<rparr>))"
  by (cases m) (auto simp: AddPeer_def)

lemma RemovePeer_undone:
  "RemovePeer a (m\<lparr>mp_done := False\<rparr>) net = (let (m1, net1) = RemovePeer a m net in (m1\<lparr>mp_done := False\<rparr>, net1))"
  by (simp add: RemovePeer_def split: option.split)

lemma deliver_mesh_part:
  assumes "mesh_part_ok n"
  shows "mesh_part_ok (deliver e n)"
proof -
  obtain m where m: "lv_pool n = Some m" "mesh_ok (mset (lv_held n)) (m\<lparr>mp_done := False\<rparr>) (lv_net n)" "ring_ok (lv_ring n)"
    using assms by (auto simp: mesh_part_ok_def)
  have join: "mesh_part_ok (live_join mb n)" for mb
    using m AddPeer_ok(1) [OF m(2), of "ev_addr mb"]
    by (auto simp: mesh_part_ok_def live_join_def Let_def AddPeer_undone ring_ok_AddNode)
  have leave: "mesh_part_ok (live_leave mb n)" for mb
  proof -
    obtain m1 net1 where r: "RemovePeer (ev_addr mb) m (lv_net n) = (m1, net1)" by fastforce
    then have "RemovePeer (ev_addr mb) (m\<lparr>mp_done := False\<rparr>) (lv_net n) = (m1\<lparr>mp_done := False\<rparr>, net1)"
      by (simp add: RemovePeer_undone)
    with RemovePeer_ok [OF m(2)] r m show ?thesis
      by (auto simp: mesh_part_ok_def live_leave_def Let_def ring_ok_RemoveNode)
  qed
  show ?thesis by (cases e) (simp_all add: join leave)
qed

lemma fold_deliver_mesh_part: "mesh_part_ok n \<Longrightarrow> mesh_part_ok (fold deliver evs n)"
  by (induction evs arbitrary: n) (simp_all add: deliver_mesh_part)

lemma close_pool_frame [simp]:
  "lv_cfg (close_pool n) = lv_cfg n" "lv_mlist (close_pool n) = lv_mlist n" "lv_listening (close_pool n) = lv_listening n"
  "lv_accepting (close_pool n) = lv_accepting n" "lv_serving (close_pool n) = lv_serving n" "lv_held (close_pool n) = lv_held n"
  "lv_cancelled (close_pool n) = lv_cancelled n" "lv_closed (close_pool n) = lv_closed n" "lv_ring (close_pool n) = lv_ring n"
  by (simp_all add: close_pool_def Let_def split: option.split prod.split)

lemma close_pool_ok:
  assumes "mesh_part_ok n"
  shows "\<exists>m. lv_pool (close_pool n) = Some m \<and> mp_done m \<and> mp_peers m = [] \<and>
    mesh_ok (mset (lv_held n)) m (lv_net (close_pool n))"
proof -
  obtain m where m: "lv_pool n = Some m" "mesh_ok (mset (lv_held n)) (m\<lparr>mp_done := False\<rparr>) (lv_net n)"
    using assms by (auto simp: mesh_part_ok_def)
  have "MeshPool_Close (m\<lparr>mp_done := False\<rparr>) (lv_net n) = MeshPool_Close m (lv_net n)" by (simp add: MeshPool_Close_def)
  with MeshPool_Close_ok [OF m(2)] m(1) show ?thesis
    by (cases "MeshPool_Close m (lv_net n)") (auto simp: close_pool_def)
qed

text \<open>The invariant of a node that \<open>NewNode\<close> has returned.\<close>

definition node_ok :: "'h LiveNode \<Rightarrow> bool" where
  "node_ok n \<longleftrightarrow>
     (\<exists>m. lv_pool n = Some m \<and> mesh_ok (mset (lv_held n)) m (lv_net n) \<and> mp_done m = lv_closed n) \<and>
     ring_ok (lv_ring n) \<and> lv_cancelled n = lv_closed n \<and> lv_listening n = (\<not> lv_closed n) \<and>
     lv_mlist n = Some (if lv_closed n then Down else Active) \<and> distinct (lv_serving n)"

lemma mesh_ok_undone: "mesh_ok H m net \<Longrightarrow> mesh_ok H (m\<lparr>mp_done := False\<rparr>) net"
  by (simp add: mesh_ok_def)

lemma mesh_ok_undone_iff: "\<not> mp_done m \<Longrightarrow> mesh_ok H (m\<lparr>mp_done := False\<rparr>) net \<longleftrightarrow> mesh_ok H m net"
  by (simp add: mesh_ok_def)

lemma node_ok_mesh_part: "node_ok n \<Longrightarrow> mesh_part_ok n"
  using mesh_ok_undone by (fastforce simp: node_ok_def mesh_part_ok_def)

lemma deliver_done:
  "lv_pool n = Some m \<Longrightarrow> \<exists>m'. lv_pool (deliver e n) = Some m' \<and> mp_done m' = mp_done m"
  by (cases e) (auto simp: live_join_def live_leave_def Let_def AddPeer_def RemovePeer_def split: option.split)

lemma node_ok_deliver:
  assumes "node_ok n" and "\<not> lv_closed n"
  shows "node_ok (deliver e n)"
proof -
  obtain m where m: "lv_pool n = Some m" "mp_done m = lv_closed n" using assms(1) by (auto simp: node_ok_def)
  obtain m' where m': "lv_pool (deliver e n) = Some m'" "mp_done m' = mp_done m" using deliver_done [OF m(1)] by blast
  show ?thesis
    using assms deliver_mesh_part [OF node_ok_mesh_part [OF assms(1)], of e] m' m
    by (auto simp: node_ok_def mesh_part_ok_def mesh_ok_undone_iff)
qed

lemma node_Close_ok:
  assumes "node_ok n"
  shows "\<exists>n'. node_Close evs n = Some n' \<and> node_ok n' \<and> lv_closed n' \<and> lv_serving n' = lv_serving n \<and>
    lv_accepting n' = lv_accepting n \<and> lv_held n' = lv_held n \<and> node_Close evs' n' = Some n'"
proof (cases "lv_closed n")
  case True
  then show ?thesis using assms by (simp add: node_Close_def)
next
  case False
  let ?n1 = "cancel_ctx (n\<lparr>lv_closed := True\<rparr>)"
  let ?n2 = "((fold deliver evs ?n1)\<lparr>lv_mlist := Some Down\<rparr>)\<lparr>lv_listening := False\<rparr>"
  have "mesh_part_ok ?n1" using node_ok_mesh_part [OF assms] by (auto simp: mesh_part_ok_def cancel_ctx_def)
  then have "mesh_part_ok ?n2" using fold_deliver_mesh_part [of ?n1 evs] by (auto simp: mesh_part_ok_def)
  note c = close_pool_ok [OF this]
  have ring: "ring_ok (lv_ring ?n2)" using \<open>mesh_part_ok ?n2\<close> by (simp add: mesh_part_ok_def)
  have f: "lv_mlist ?n1 = Some Active" "lv_cancelled ?n1" "lv_closed ?n1" "lv_serving ?n1 = lv_serving n"
    "lv_accepting ?n1 = lv_accepting n" "lv_held ?n1 = lv_held n" "distinct (lv_serving n)"
    using assms False by (simp_all add: node_ok_def cancel_ctx_def)
  have r: "node_Close evs n = Some (close_pool ?n2)" using False f by (simp add: node_Close_def)
  have "node_ok (close_pool ?n2)" using c f ring by (auto simp: node_ok_def)
  then show ?thesis using r f by (intro exI [of _ "close_pool ?n2"]) (simp add: node_Close_def)
qed

lemma held_split: "c \<in> set H \<Longrightarrow> mset H = add_mset c (mset (remove1 c H))"
  by simp

lemma node_ok_pool_step:
  assumes "node_ok n" and "lv_pool n = Some m" and "mesh_ok (mset held) m1 net1" and "mp_done m1 = mp_done m"
  shows "node_ok (n\<lparr>lv_pool := Some m1, lv_net := net1, lv_held := held\<rparr>)"
  using assms by (auto simp: node_ok_def)

lemma done_kept:
  "mesh_GetConn a m net = (r, m1, net1) \<Longrightarrow> mp_done m1 = mp_done m"
  "mesh_PutConn a c m net = (m1, net1) \<Longrightarrow> mp_done m1 = mp_done m"
  "mesh_warm a ctx m net = (m1, net1) \<Longrightarrow> mp_done m1 = mp_done m"
  by (auto simp: mesh_GetConn_def mesh_PutConn_def mesh_warm_def AddPeer_def Let_def split: if_splits option.splits prod.splits)

lemma node_ok_exec:
  assumes ok: "node_ok n" and ex: "node_exec e n = Some n'"
  shows "node_ok n'"
proof -
  obtain m where m: "lv_pool n = Some m" "mesh_ok (mset (lv_held n)) m (lv_net n)" using ok by (auto simp: node_ok_def)
  show ?thesis
  proof (cases e)
    case (Gossip ev)
    then have "n' = deliver ev n" "\<not> lv_closed n" using ex ok by (auto simp: node_ok_def split: if_splits)
    then show ?thesis using node_ok_deliver [OF ok] by simp
  next
    case (Accepted r)
    then show ?thesis using ex ok by (auto simp: node_ok_def accept_turn_def split: if_splits sum.splits)
  next
    case (ConnEnded c)
    then show ?thesis using ex ok by (auto simp: node_ok_def distinct_removeAll split: if_splits)
  next
    case (TakeConn a)
    obtain r m1 net1 where g: "mesh_GetConn a m (lv_net n) = (r, m1, net1)" by (metis prod_cases3)
    have "mesh_ok (mset (case r of Inr c \<Rightarrow> c # lv_held n | Inl _ \<Rightarrow> lv_held n)) m1 net1"
      using mesh_GetConn_ok [OF m(2) g] by (simp split: sum.splits)
    from node_ok_pool_step [OF ok m(1) this done_kept(1) [OF g]] show ?thesis
      using ex TakeConn m(1) g by auto
  next
    case (GiveConn a c)
    obtain m1 net1 where g: "mesh_PutConn a c m (lv_net n) = (m1, net1)" by fastforce
    have c: "c \<in> set (lv_held n)" using ex GiveConn m(1) by (auto split: if_splits)
    from node_ok_pool_step [OF ok m(1) mesh_PutConn_ok [OF m(2) [unfolded held_split [OF c]] g] done_kept(2) [OF g]]
    show ?thesis using ex GiveConn m(1) g c by auto
  next
    case (LoseConn a c)
    have c: "c \<in> set (lv_held n)" using ex LoseConn m(1) by (auto split: if_splits)
    have "mesh_ok (mset (remove1 c (lv_held n))) m (mesh_DropConn a c m (lv_net n))"
      using m(2) [unfolded held_split [OF c]] net_Close_ok [of c]
      by (auto simp: mesh_DropConn_def DropConn_def mesh_ok_def split: option.split)
    then show ?thesis using ex ok LoseConn m(1) c by (auto simp: node_ok_def)
  next
    case (WarmUp a ctx)
    obtain m1 net1 where g: "mesh_warm a ctx m (lv_net n) = (m1, net1)" by fastforce
    from node_ok_pool_step [OF ok m(1) mesh_warm_ok [OF m(2) g] done_kept(3) [OF g]]
    show ?thesis using ex WarmUp m(1) g by auto
  next
    case (CloseNode evs)
    then show ?thesis using ex node_Close_ok [OF ok, of evs] by auto
  qed
qed

lemma node_ok_run: "node_ok n \<Longrightarrow> node_run es n = Some n' \<Longrightarrow> node_ok n'"
  by (induction es arbitrary: n) (auto split: option.splits intro: node_ok_exec)

section \<open>Starting a node\<close>

definition cfg_ring :: "'h NodeSettings \<Rightarrow> Ring" where
  "cfg_ring cfg = (case nc_Ring cfg of None \<Rightarrow> NewRing 100 2 | Some r \<Rightarrow> r)"

text \<open>The node before gossip starts, listening on the port \<open>port\<close>.\<close>

definition started :: "Host \<Rightarrow> 'h NodeSettings \<Rightarrow> int \<Rightarrow> 'h LiveNode" where
  "started host cfg0 port =
     (let cfg = node_defaults cfg0;
          n = \<lparr>lv_cfg = cfg, lv_meshPort = port, lv_bindPort = 0, lv_handlers = [], lv_ring = cfg_ring cfg0,
               lv_pool = Some (NewMeshPool (nc_PoolSize cfg) (dialTimeout (NodeConfig.truncate cfg))),
               lv_net = \<lparr>nt_fate = ho_fate host, nt_dials = 0, nt_open = []\<rparr>, lv_mlist = None,
               lv_listening = True, lv_accepting = True, lv_serving = [], lv_held = [],
               lv_cancelled = False, lv_closed = False\<rparr>
      in n\<lparr>lv_ring := AddNode (self_addr n) (lv_ring n)\<rparr>)"

text \<open>The configuration that \<open>NewNode\<close> gives to memberlist.\<close>

definition mlist_config :: "'h NodeSettings \<Rightarrow> int \<Rightarrow> MlistConfig" where
  "mlist_config cfg0 port =
     (let cfg = node_defaults cfg0 in
      \<lparr>ml_Name = nc_NodeName cfg, ml_BindAddr = nc_BindAddr cfg, ml_BindPort = nc_BindPort cfg, ml_Meta = node_meta port\<rparr>)"

text \<open>The callbacks and listed members that a successful \<open>NewNode\<close> has seen.\<close>

definition start_events :: "Host \<Rightarrow> 'h NodeSettings \<Rightarrow> int \<Rightarrow> member_event list" where
  "start_events host cfg0 port =
     fst (ho_Create host (mlist_config cfg0 port)) @
     (if nc_JoinAddrs cfg0 \<noteq> [] then ho_Join host (nc_JoinAddrs cfg0) else []) @ map Joined (ho_Members host)"

lemma defaults_ring [simp]: "nc_Ring (node_defaults cfg) = Some (cfg_ring cfg)"
  by (simp add: node_defaults_def cfg_ring_def)

lemma NewNode_started:
  "NewNode host cfg0 =
     (let cfg = node_defaults cfg0;
          meshPort = (if nc_MeshPort cfg = 0 \<and> nc_QuicPort cfg \<noteq> 0 then nc_QuicPort cfg else nc_MeshPort cfg);
          meshAddr = nc_BindAddr cfg @ '':'' @ show_int meshPort;
          n = (started host cfg0 0)\<lparr>lv_ring := cfg_ring cfg0, lv_pool := None, lv_listening := False, lv_accepting := False,
            lv_cancelled := True\<rparr>
      in case ho_Listen host meshAddr of
           Inl err \<Rightarrow> (Some (Wrapped (''mesh tcp listen error on '' @ meshAddr @ '': '') err), n)
         | Inr laddr \<Rightarrow>
             (case portFromAddr (ho_quote host) laddr of
                Inl err \<Rightarrow> (Some (Wrapped ''mesh tcp listen: resolve bound port: '' err), n)
              | Inr port \<Rightarrow> start_gossip host (started host cfg0 port)))"
  unfolding NewNode_def started_def Let_def self_addr_def defaults_ring option.sel
  by (simp split: sum.split)

lemma started_mesh_part: "ring_ok (cfg_ring cfg) \<Longrightarrow> mesh_part_ok (started host cfg port)"
  by (simp add: mesh_part_ok_def started_def Let_def ring_ok_AddNode mesh_ok_def net_ok_def NewMeshPool_def DefaultPoolSize_def)

lemma deliver_upd:
  "deliver e (n\<lparr>lv_mlist := x, lv_bindPort := y\<rparr>) = (deliver e n)\<lparr>lv_mlist := x, lv_bindPort := y\<rparr>"
  by (cases e) (simp_all add: live_join_def live_leave_def Let_def self_addr_def split: option.split prod.split)

lemma fold_deliver_upd:
  "fold deliver evs (n\<lparr>lv_mlist := x, lv_bindPort := y\<rparr>) = (fold deliver evs n)\<lparr>lv_mlist := x, lv_bindPort := y\<rparr>"
  by (induction evs arbitrary: n) (simp_all only: fold_simps o_apply deliver_upd id_apply)

lemma started_fields [simp]:
  "lv_cfg (started host cfg port) = node_defaults cfg" "lv_meshPort (started host cfg port) = port"
  "lv_mlist (started host cfg port) = None" "lv_listening (started host cfg port)" "lv_accepting (started host cfg port)"
  "lv_serving (started host cfg port) = []" "lv_held (started host cfg port) = []"
  "\<not> lv_cancelled (started host cfg port)" "\<not> lv_closed (started host cfg port)"
  "lv_net (started host cfg port) = \<lparr>nt_fate = ho_fate host, nt_dials = 0, nt_open = []\<rparr>"
  "lv_pool (started host cfg port) = Some (NewMeshPool (nc_PoolSize (node_defaults cfg)) (dialTimeout (NodeConfig.truncate (node_defaults cfg))))"
  by (simp_all add: started_def Let_def)

lemma started_ring: "lv_ring (started host cfg port) = AddNode (self_addr (started host cfg port)) (cfg_ring cfg)"
  by (simp add: started_def Let_def self_addr_def)

lemma fold_deliver_pool: "lv_pool n \<noteq> None \<Longrightarrow> lv_pool (fold deliver evs n) \<noteq> None"
proof (induction evs arbitrary: n)
  case (Cons e evs)
  show ?case using Cons.IH [OF deliver_pool [OF Cons.prems]] by simp
qed simp

lemma defaults_kept [simp]:
  "nc_JoinAddrs (node_defaults cfg) = nc_JoinAddrs cfg" "nc_NodeName (node_defaults cfg) = nc_NodeName cfg"
  "nc_BindPort (node_defaults cfg) = nc_BindPort cfg"
  by (simp_all add: node_defaults_def)

lemma start_gossip_started:
  "start_gossip host (started host cfg port) =
     (case snd (ho_Create host (mlist_config cfg port)) of
        Inl err \<Rightarrow>
          (Some (Wrapped ''memberlist create error: '' err),
           (close_pool ((fold deliver (fst (ho_Create host (mlist_config cfg port))) (started host cfg port))\<lparr>lv_listening := False\<rparr>))\<lparr>lv_cancelled := True\<rparr>)
      | Inr p \<Rightarrow>
          (None, (fold deliver (start_events host cfg port) (started host cfg port))\<lparr>lv_mlist := Some Active, lv_bindPort := uint p\<rparr>))"
proof -
  obtain evs r where c: "ho_Create host (mlist_config cfg port) = (evs, r)" by fastforce
  have mc: "\<lparr>ml_Name = nc_NodeName cfg, ml_BindAddr = nc_BindAddr (node_defaults cfg), ml_BindPort = nc_BindPort cfg,
      ml_Meta = node_meta port\<rparr> = mlist_config cfg port"
    by (simp add: mlist_config_def Let_def)
  let ?join = "if nc_JoinAddrs cfg \<noteq> [] then ho_Join host (nc_JoinAddrs cfg) else []"
  let ?n1 = "fold deliver evs (started host cfg port)"
  have pool: "lv_pool (fold deliver ?join (?n1\<lparr>lv_mlist := x, lv_bindPort := y\<rparr>)) \<noteq> None" for x y
    by (rule fold_deliver_pool) (simp add: fold_deliver_pool)
  have "start_gossip host (started host cfg port) =
     (case r of
        Inl err \<Rightarrow> (Some (Wrapped ''memberlist create error: '' err), (close_pool (?n1\<lparr>lv_listening := False\<rparr>))\<lparr>lv_cancelled := True\<rparr>)
      | Inr p \<Rightarrow> (None, fold sync_member (ho_Members host) (fold deliver ?join (?n1\<lparr>lv_mlist := Some Active, lv_bindPort := uint p\<rparr>))))"
    using c unfolding start_gossip_def Let_def started_fields defaults_kept mc by (simp split: sum.split)
  moreover have "fold sync_member (ho_Members host) (fold deliver ?join (?n1\<lparr>lv_mlist := Some Active, lv_bindPort := y\<rparr>)) =
    (fold deliver (evs @ ?join @ map Joined (ho_Members host)) (started host cfg port))\<lparr>lv_mlist := Some Active, lv_bindPort := y\<rparr>" for y
    by (subst fold_sync_joins [OF pool]) (simp only: fold_deliver_upd fold_append o_apply)
  ultimately show ?thesis unfolding start_events_def c fst_conv snd_conv by (cases r) (simp_all only: sum.case)
qed

lemma NewNode_success:
  assumes "NewNode host cfg = (None, n)"
  obtains p where "n = (fold deliver (start_events host cfg (lv_meshPort n)) (started host cfg (lv_meshPort n)))
    \<lparr>lv_mlist := Some Active, lv_bindPort := uint (p :: 16 word)\<rparr>"
    and "self_addr n = self_addr (started host cfg (lv_meshPort n))"
proof -
  obtain port where g: "start_gossip host (started host cfg port) = (None, n)"
    using assms unfolding NewNode_started Let_def by (auto split: sum.splits)
  then obtain p :: "16 word" where p: "n = (fold deliver (start_events host cfg port) (started host cfg port))
    \<lparr>lv_mlist := Some Active, lv_bindPort := uint p\<rparr>"
    unfolding start_gossip_started by (auto split: sum.splits)
  then have "lv_meshPort n = port" by simp
  moreover have "self_addr n = self_addr (started host cfg port)"
    using p fold_deliver_frame(10) [of "start_events host cfg port" "started host cfg port"] by (simp add: self_addr_def)
  ultimately show ?thesis using that p by blast
qed

lemma NewNode_ok:
  assumes "NewNode host cfg = (None, n)" and "ring_ok (cfg_ring cfg)"
  shows "node_ok n"
proof -
  let ?n0 = "started host cfg (lv_meshPort n)" and ?evs = "start_events host cfg (lv_meshPort n)"
  obtain p :: "16 word" where p: "n = (fold deliver ?evs ?n0)\<lparr>lv_mlist := Some Active, lv_bindPort := uint p\<rparr>"
    using NewNode_success [OF assms(1)] by blast
  have mp: "mesh_part_ok (fold deliver ?evs ?n0)" by (intro fold_deliver_mesh_part started_mesh_part assms(2))
  have d: "\<exists>m. lv_pool (fold deliver es k) = Some m \<and> \<not> mp_done m" if "\<exists>m. lv_pool k = Some m \<and> \<not> mp_done m"
    for es and k :: "'a LiveNode"
    using that
  proof (induction es arbitrary: k)
    case (Cons e es)
    then obtain m where "lv_pool k = Some m" "\<not> mp_done m" by blast
    then have "\<exists>m'. lv_pool (deliver e k) = Some m' \<and> \<not> mp_done m'" using deliver_done [of k m e] by auto
    then show ?case using Cons.IH by simp
  qed simp
  have "\<exists>m. lv_pool (fold deliver ?evs ?n0) = Some m \<and> \<not> mp_done m" by (rule d) (simp add: NewMeshPool_def)
  then show ?thesis using mp unfolding mesh_part_ok_def
    by (subst p) (auto simp: node_ok_def mesh_ok_undone_iff)
qed

section \<open>Membership\<close>

text \<open>The names of the live members, as the callbacks tell them, and the gossip of a run.\<close>

fun live_step :: "member_event \<Rightarrow> string set \<Rightarrow> string set" where
  "live_step (Joined m) S = insert (mb_Name m) S"
| "live_step (Updated m) S = insert (mb_Name m) S"
| "live_step (Departed m) S = S - {mb_Name m}"

fun gossips :: "node_event list \<Rightarrow> member_event list" where
  "gossips [] = []"
| "gossips (Gossip e # es) = e # gossips es"
| "gossips (ev # es) = gossips es"

fun is_close :: "node_event \<Rightarrow> bool" where
  "is_close (CloseNode evs) = True"
| "is_close ev = False"

text \<open>Every member keeps one address.\<close>

definition stable :: "(string \<Rightarrow> string) \<Rightarrow> member_event list \<Rightarrow> bool" where
  "stable addr evs \<longleftrightarrow> (\<forall>e \<in> set evs. ev_addr (ev_member e) = addr (mb_Name (ev_member e)))"

fun ring_event :: "member_event \<Rightarrow> Ring \<Rightarrow> Ring" where
  "ring_event (Departed m) r = RemoveNode (ev_addr m) r"
| "ring_event e r = AddNode (ev_addr (ev_member e)) r"

lemma deliver_ring: "lv_ring (deliver e n) = ring_event e (lv_ring n)"
  by (cases e) (simp_all add: live_join_def live_leave_def Let_def split: option.split prod.split)

lemma fold_deliver_ring: "lv_ring (fold deliver evs n) = fold ring_event evs (lv_ring n)"
  by (induction evs arbitrary: n) (simp_all add: deliver_ring)

lemma ring_event_depth: "partitionDepth (fold ring_event evs r) = partitionDepth r"
proof (induction evs arbitrary: r)
  case (Cons e evs)
  have "partitionDepth (ring_event e r) = partitionDepth r" by (cases e) (simp_all add: AddNode_def RemoveNode_def)
  then show ?case using Cons by simp
qed simp

lemma ring_event_ok: "ring_ok r \<Longrightarrow> ring_ok (fold ring_event evs r)"
proof (induction evs arbitrary: r)
  case (Cons e evs)
  have "ring_ok (ring_event e r)" using Cons.prems by (cases e) (simp_all add: ring_ok_AddNode ring_ok_RemoveNode)
  then show ?case using Cons.IH by simp
qed simp

lemma ring_event_members:
  assumes "inj addr" and "stable addr evs" and "members r = addr ` S"
  shows "members (fold ring_event evs r) = addr ` fold live_step evs S"
  using assms(2,3)
proof (induction evs arbitrary: r S)
  case (Cons e evs)
  then have "ev_addr (ev_member e) = addr (mb_Name (ev_member e))" "stable addr evs" by (simp_all add: stable_def)
  then have "members (ring_event e r) = addr ` live_step e S"
    using Cons.prems(2) assms(1) by (cases e) (auto simp: inj_image_mem_iff dest: injD)
  then show ?case using Cons.IH [OF \<open>stable addr evs\<close>] by simp
qed simp

lemma exec_ring:
  assumes "node_exec e n = Some n'" and "\<not> is_close e"
  shows "lv_ring n' = fold ring_event (gossips [e]) (lv_ring n)" "self_addr n' = self_addr n"
  using assms by (cases e; auto simp: deliver_ring accept_turn_def self_addr_def Let_def
      split: if_splits option.splits prod.splits sum.splits)+

lemma gossips_Cons: "gossips (e # es) = gossips [e] @ gossips es"
  by (cases e) simp_all

lemma run_ring:
  assumes "node_run es n = Some n'" and "\<forall>e \<in> set es. \<not> is_close e"
  shows "lv_ring n' = fold ring_event (gossips es) (lv_ring n)"
  using assms
proof (induction es arbitrary: n)
  case (Cons e es)
  then obtain n1 where n1: "node_exec e n = Some n1" "node_run es n1 = Some n'" by (auto split: option.splits)
  then show ?case using Cons exec_ring(1) [OF n1(1)] by (simp add: gossips_Cons [of e es])
qed simp

text \<open>The pool has every other member of the ring.\<close>

definition covered :: "'h LiveNode \<Rightarrow> bool" where
  "covered n \<longleftrightarrow> (\<exists>m. lv_pool n = Some m \<and> \<not> mp_done m \<and> members (lv_ring n) - {self_addr n} \<subseteq> dom (map_of (mp_peers m)))"

lemma ev_addr_not_Nil: "ev_addr m \<noteq> []"
  by (simp add: ev_addr_def member_addr_def)

lemma AddPeer_dom: "\<not> mp_done m \<Longrightarrow> a \<noteq> [] \<Longrightarrow> dom (map_of (mp_peers (AddPeer a m))) = insert a (dom (map_of (mp_peers m)))"
  by (auto simp: AddPeer_def update_conv')

lemma covered_deliver:
  assumes "covered n"
  shows "covered (deliver e n)"
proof -
  obtain m where m: "lv_pool n = Some m" "\<not> mp_done m" "members (lv_ring n) - {self_addr n} \<subseteq> dom (map_of (mp_peers m))"
    using assms by (auto simp: covered_def)
  have join: "covered (live_join mb n)" for mb
    using m AddPeer_dom [OF m(2) ev_addr_not_Nil, of mb]
    by (auto simp: covered_def live_join_def Let_def self_addr_def AddPeer_def [of _ m])
  have leave: "covered (live_leave mb n)" for mb
    using m by (auto simp: covered_def live_leave_def Let_def self_addr_def RemovePeer_def delete_conv'
        split: option.split)
  show ?thesis by (cases e) (simp_all add: join leave)
qed

lemma AddPeer_grows: "dom (map_of (mp_peers m)) \<subseteq> dom (map_of (mp_peers (AddPeer a m)))"
  by (auto simp: AddPeer_def update_conv')

lemma peers_kept:
  "mesh_GetConn a m net = (r, m1, net1) \<Longrightarrow> dom (map_of (mp_peers m)) \<subseteq> dom (map_of (mp_peers m1))"
  "mesh_PutConn a c m net = (m1, net1) \<Longrightarrow> dom (map_of (mp_peers m)) \<subseteq> dom (map_of (mp_peers m1))"
  "mesh_warm a ctx m net = (m1, net1) \<Longrightarrow> dom (map_of (mp_peers m)) \<subseteq> dom (map_of (mp_peers m1))"
  using AddPeer_grows [of m a]
  by (auto simp: mesh_GetConn_def mesh_PutConn_def mesh_warm_def update_conv' Let_def split: if_splits option.splits prod.splits)

lemma covered_exec:
  assumes c: "covered n" and ex: "node_exec e n = Some n'" and nc: "\<not> is_close e"
  shows "covered n'"
proof -
  obtain m where m: "lv_pool n = Some m" "\<not> mp_done m" "members (lv_ring n) - {self_addr n} \<subseteq> dom (map_of (mp_peers m))"
    using c by (auto simp: covered_def)
  note self = exec_ring [OF ex nc]
  have grow: "covered n'" if "lv_pool n' = Some m1" "mp_done m1 = mp_done m" "dom (map_of (mp_peers m)) \<subseteq> dom (map_of (mp_peers m1))"
    "gossips [e] = []" for m1
    using that m self by (auto simp: covered_def)
  show ?thesis
  proof (cases e)
    case (Gossip ev)
    then show ?thesis using ex covered_deliver [OF c, of ev] by (auto split: if_splits)
  next
    case (TakeConn a)
    obtain r m1 net1 where g: "mesh_GetConn a m (lv_net n) = (r, m1, net1)" by (metis prod_cases3)
    show ?thesis by (rule grow [of m1]) (use ex TakeConn m(1) g done_kept(1) [OF g] peers_kept(1) [OF g] in auto)
  next
    case (GiveConn a d)
    obtain m1 net1 where g: "mesh_PutConn a d m (lv_net n) = (m1, net1)" by fastforce
    show ?thesis by (rule grow [of m1]) (use ex GiveConn m(1) g done_kept(2) [OF g] peers_kept(2) [OF g] in \<open>auto split: if_splits\<close>)
  next
    case (WarmUp a ctx)
    obtain m1 net1 where g: "mesh_warm a ctx m (lv_net n) = (m1, net1)" by fastforce
    show ?thesis by (rule grow [of m1]) (use ex WarmUp m(1) g done_kept(3) [OF g] peers_kept(3) [OF g] in auto)
  next
    case (CloseNode evs)
    then show ?thesis using nc by simp
  qed (rule grow [of m]; use ex m(1) in \<open>auto simp: accept_turn_def split: if_splits sum.splits\<close>)+
qed

lemma covered_run:
  "covered n \<Longrightarrow> node_run es n = Some n' \<Longrightarrow> \<forall>e \<in> set es. \<not> is_close e \<Longrightarrow> covered n' \<and> self_addr n' = self_addr n"
proof (induction es arbitrary: n)
  case (Cons e es)
  then obtain n1 where n1: "node_exec e n = Some n1" "node_run es n1 = Some n'" by (auto split: option.splits)
  have "covered n1" "self_addr n1 = self_addr n"
    using covered_exec [OF Cons.prems(1) n1(1)] exec_ring(2) [OF n1(1)] Cons.prems(3) by simp_all
  then show ?case using Cons.IH [OF _ n1(2)] Cons.prems(3) by simp
qed simp

lemma fold_covered: "covered n \<Longrightarrow> covered (fold deliver evs n)"
  by (induction evs arbitrary: n) (simp_all add: covered_deliver)

lemma NewNode_covered:
  assumes "NewNode host cfg = (None, n)" and "members (cfg_ring cfg) = {}"
  shows "covered n"
    "lv_ring n = fold ring_event (start_events host cfg (lv_meshPort n)) (AddNode (self_addr n) (cfg_ring cfg))"
proof -
  let ?n0 = "started host cfg (lv_meshPort n)" and ?evs = "start_events host cfg (lv_meshPort n)"
  obtain p :: "16 word" where p: "n = (fold deliver ?evs ?n0)\<lparr>lv_mlist := Some Active, lv_bindPort := uint p\<rparr>"
    "self_addr n = self_addr ?n0"
    using NewNode_success [OF assms(1)] by blast
  have "covered ?n0" using assms(2) by (simp add: covered_def started_ring NewMeshPool_def)
  then have "covered (fold deliver ?evs ?n0)" by (rule fold_covered)
  then show "covered n" by (subst p(1)) (simp add: covered_def self_addr_def)
  show "lv_ring n = fold ring_event ?evs (AddNode (self_addr n) (cfg_ring cfg))"
    by (subst p(1), subst p(2)) (simp add: fold_deliver_ring started_ring)
qed

text \<open>The ring and the pool of a node after a run, in terms of the live members.\<close>

lemma node_membership:
  assumes inj: "inj addr" and new: "NewNode host cfg = (None, n)" and ring: "ring_ok (cfg_ring cfg)" "members (cfg_ring cfg) = {}"
    and run: "node_run es n = Some n'" "\<forall>e \<in> set es. \<not> is_close e"
    and st: "stable addr (start_events host cfg (lv_meshPort n) @ gossips es)" and self: "addr (nc_NodeName cfg) = self_addr n"
  defines "S \<equiv> fold live_step (start_events host cfg (lv_meshPort n) @ gossips es) {nc_NodeName cfg}"
  shows "ring_ok (lv_ring n')" "members (lv_ring n') = addr ` S" "partitionDepth (lv_ring n') = partitionDepth (cfg_ring cfg)"
    "addr ` S - {self_addr n} \<subseteq> set (pool_addrs (lv_pool n'))"
proof -
  let ?evs = "start_events host cfg (lv_meshPort n) @ gossips es"
  have r: "lv_ring n' = fold ring_event ?evs (AddNode (self_addr n) (cfg_ring cfg))"
    using run_ring [OF run] NewNode_covered(2) [OF new ring(2)] by simp
  show "ring_ok (lv_ring n')" unfolding r by (intro ring_event_ok ring_ok_AddNode ring)
  show "partitionDepth (lv_ring n') = partitionDepth (cfg_ring cfg)"
    unfolding r ring_event_depth by (simp add: AddNode_def)
  have "members (AddNode (self_addr n) (cfg_ring cfg)) = addr ` {nc_NodeName cfg}" using ring(2) self by simp
  then show m: "members (lv_ring n') = addr ` S" unfolding r S_def by (rule ring_event_members [OF inj st])
  have "covered n'" "self_addr n' = self_addr n"
    using covered_run [OF NewNode_covered(1) [OF new ring(2)] run] by simp_all
  then show "addr ` S - {self_addr n} \<subseteq> set (pool_addrs (lv_pool n'))"
    using m unfolding covered_def by (clarsimp simp: pool_addrs_def dom_map_of_conv_image_fst) blast
qed

section \<open>A concrete host\<close>

text \<open>Nodes at the IP address that is their name, on port 7.\<close>

definition demo_member :: "string \<Rightarrow> Member" where
  "demo_member ip = \<lparr>mb_Name = ip, mb_Addr = ip, mb_Port = 9, mb_Meta = node_meta 7\<rparr>"

definition demo_addr :: "string \<Rightarrow> string" where
  "demo_addr ip = ip @ '':7''"

definition demo_cfg :: "string \<Rightarrow> string list \<Rightarrow> unit NodeSettings" where
  "demo_cfg ip joins =
     \<lparr>nc_BindAddr = ip, nc_DBHandler = None, nc_ClusterSecret = [], nc_DialTimeout = 0, nc_StreamOpenTimeout = 0,
      nc_RequestTimeout = 0, nc_NodeName = ip, nc_BindPort = 0, nc_MeshPort = 0, nc_QuicPort = 0,
      nc_JoinAddrs = joins, nc_Ring = None, nc_PoolSize = 0\<rparr>"

definition demo_host :: "member_event list \<times> (gerror + 16 word) \<Rightarrow> member_event list \<Rightarrow> Member list \<Rightarrow> Host" where
  "demo_host created joined mems =
     \<lparr>ho_Listen = (\<lambda>_. Inr (Some (TCPAddr 7))), ho_Create = (\<lambda>_. created), ho_Join = (\<lambda>_. joined), ho_Members = mems,
      ho_fate = (\<lambda>_. None), ho_quote = (\<lambda>s. s)\<rparr>"

text \<open>A node that starts alone and one that joins it.\<close>

definition host_a :: Host where
  "host_a = demo_host ([Joined (demo_member ''10.0.0.1'')], Inr 9) [] [demo_member ''10.0.0.1'']"

definition host_b :: Host where
  "host_b = demo_host ([Joined (demo_member ''10.0.0.2'')], Inr 9) [Joined (demo_member ''10.0.0.1'')]
     [demo_member ''10.0.0.2'', demo_member ''10.0.0.1'']"

definition node_a :: "unit LiveNode" where
  "node_a = snd (NewNode host_a (demo_cfg ''10.0.0.1'' []))"

definition node_b :: "unit LiveNode" where
  "node_b = snd (NewNode host_b (demo_cfg ''10.0.0.2'' [''10.0.0.1'']))"

lemma demo_started:
  "NewNode host_a (demo_cfg ''10.0.0.1'' []) = (None, node_a)"
  "NewNode host_b (demo_cfg ''10.0.0.2'' [''10.0.0.1'']) = (None, node_b)"
  "lv_meshPort node_a = 7" "lv_meshPort node_b = 7"
  "self_addr node_a = demo_addr ''10.0.0.1''" "self_addr node_b = demo_addr ''10.0.0.2''"
proof -
  have "fst (NewNode host_a (demo_cfg ''10.0.0.1'' [])) = None"
    "fst (NewNode host_b (demo_cfg ''10.0.0.2'' [''10.0.0.1''])) = None" by code_simp+
  then show "NewNode host_a (demo_cfg ''10.0.0.1'' []) = (None, node_a)"
    "NewNode host_b (demo_cfg ''10.0.0.2'' [''10.0.0.1'']) = (None, node_b)"
    by (simp_all add: node_a_def node_b_def prod_eq_iff)
qed code_simp+

lemma demo_ring: "ring_ok (cfg_ring (demo_cfg ip joins))" "members (cfg_ring (demo_cfg ip joins)) = {}"
  "partitionDepth (cfg_ring (demo_cfg ip joins)) = 2"
  by (simp_all add: cfg_ring_def demo_cfg_def ring_ok_NewRing members_def) (simp_all add: NewRing_def)

section \<open>Properties\<close>

text \<open>
  C20: nodes that see the same members route alike. Two nodes are started with empty rings of the same
  depth, get the callbacks of memberlist in any order, before and after, while requests and
  connections come and go. When every member keeps one address and each node's own is the one it
  advertises, then as soon as the callbacks leave both with the same live members, both name the
  same owner for every key, and each has a connection pool for every other member.
\<close>

theorem nodes_route_alike:
  assumes "inj addr" and "partitionDepth (cfg_ring c1) = partitionDepth (cfg_ring c2)"
    and "NewNode h1 c1 = (None, n1)" and "ring_ok (cfg_ring c1)" and "members (cfg_ring c1) = {}"
    and "NewNode h2 c2 = (None, n2)" and "ring_ok (cfg_ring c2)" and "members (cfg_ring c2) = {}"
    and "node_run es1 n1 = Some n1'" and "\<forall>e \<in> set es1. \<not> is_close e"
    and "node_run es2 n2 = Some n2'" and "\<forall>e \<in> set es2. \<not> is_close e"
    and "stable addr (start_events h1 c1 (lv_meshPort n1) @ gossips es1)" and "addr (nc_NodeName c1) = self_addr n1"
    and "stable addr (start_events h2 c2 (lv_meshPort n2) @ gossips es2)" and "addr (nc_NodeName c2) = self_addr n2"
    and "fold live_step (start_events h1 c1 (lv_meshPort n1) @ gossips es1) {nc_NodeName c1} = S"
    and "fold live_step (start_events h2 c2 (lv_meshPort n2) @ gossips es2) {nc_NodeName c2} = S"
  shows "(\<forall>key. GetNode (lv_ring n1') key = GetNode (lv_ring n2') key) \<and> members (lv_ring n1') = addr ` S
    \<and> addr ` S - {self_addr n1} \<subseteq> set (pool_addrs (lv_pool n1')) \<and> addr ` S - {self_addr n2} \<subseteq> set (pool_addrs (lv_pool n2'))"
proof -
  note a = node_membership [OF assms(1,3,4,5,9,10,13,14), unfolded assms(17)]
  note b = node_membership [OF assms(1,6,7,8,11,12,15,16), unfolded assms(18)]
  have "GetNode (lv_ring n1') key = GetNode (lv_ring n2') key" for key
    by (rule GetNode_cong(1)) (use a b assms(2) in simp_all)
  then show ?thesis using a b by simp
qed

theorem nodes_route_alike_witness:
  "\<exists>n. node_run [Gossip (Joined (demo_member ''10.0.0.2''))] node_a = Some n \<and>
     (\<forall>key. GetNode (lv_ring n) key = GetNode (lv_ring node_b) key) \<and>
     {demo_addr ''10.0.0.2''} \<subseteq> set (pool_addrs (lv_pool n))"
proof -
  let ?es = "[Gossip (Joined (demo_member ''10.0.0.2''))]"
  have act: "lv_mlist node_a = Some Active" by code_simp
  then obtain n where n: "node_run ?es node_a = Some n" by simp
  let ?S = "{''10.0.0.1'', ''10.0.0.2''}"
  have inj: "inj demo_addr" by (rule injI) (simp add: demo_addr_def)
  have st: "stable demo_addr (start_events host_a (demo_cfg ''10.0.0.1'' []) 7 @ gossips ?es)"
    "stable demo_addr (start_events host_b (demo_cfg ''10.0.0.2'' [''10.0.0.1'']) 7 @ gossips [])"
    "fold live_step (start_events host_a (demo_cfg ''10.0.0.1'' []) 7 @ gossips ?es) {''10.0.0.1''} = ?S"
    "fold live_step (start_events host_b (demo_cfg ''10.0.0.2'' [''10.0.0.1'']) 7 @ gossips []) {''10.0.0.2''} = ?S"
    by code_simp+
  have names: "nc_NodeName (demo_cfg ip js) = ip" for ip js by (simp add: demo_cfg_def)
  have diff: "demo_addr ''10.0.0.2'' \<noteq> demo_addr ''10.0.0.1''" by code_simp
  from nodes_route_alike [where addr = demo_addr and S = ?S and ?es1.0 = ?es and ?es2.0 = "[]" and ?n1' = n and ?n2' = node_b,
      OF inj _ demo_started(1) demo_ring(1,2) demo_started(2) demo_ring(1,2) n _ _ _ _ _ _ _ _ _]
  show ?thesis using n st diff by (simp add: demo_started(3-6) names demo_ring(3))
qed

text \<open>
  A failed \<open>NewNode\<close> cleans up: whatever it was that failed, the listener is closed and the context
  is done, no connection is open and no pool is left.
\<close>

theorem newnode_failure_clean:
  assumes "NewNode host cfg = (Some err, n)" and "ring_ok (cfg_ring cfg)"
  shows "\<not> lv_listening n \<and> lv_cancelled n \<and> nt_open (lv_net n) = [] \<and> pool_addrs (lv_pool n) = []
    \<and> (case lv_pool n of None \<Rightarrow> True | Some m \<Rightarrow> mp_done m)"
proof (cases "\<exists>port. start_gossip host (started host cfg port) = (Some err, n)")
  case False
  then show ?thesis using assms(1) unfolding NewNode_started Let_def by (auto simp: pool_addrs_def split: sum.splits)
next
  case True
  then obtain port where g: "start_gossip host (started host cfg port) = (Some err, n)" by blast
  let ?n = "(fold deliver (fst (ho_Create host (mlist_config cfg port))) (started host cfg port))\<lparr>lv_listening := False\<rparr>"
  have n: "n = (close_pool ?n)\<lparr>lv_cancelled := True\<rparr>" using g unfolding start_gossip_started by (auto split: sum.splits)
  have "mesh_part_ok (fold deliver (fst (ho_Create host (mlist_config cfg port))) (started host cfg port))"
    by (intro fold_deliver_mesh_part started_mesh_part assms(2))
  then have "mesh_part_ok ?n" by (simp add: mesh_part_ok_def)
  from close_pool_ok [OF this] obtain m where m: "lv_pool (close_pool ?n) = Some m" "mp_done m" "mp_peers m = []"
    "mesh_ok {#} m (lv_net (close_pool ?n))" by auto
  have "nt_open (lv_net (close_pool ?n)) = []" using m(3,4) by (simp add: mesh_ok_def net_ok_def)
  then show ?thesis using m by (simp add: n pool_addrs_def)
qed

theorem newnode_failure_clean_witness:
  "\<exists>n. NewNode (demo_host ([], Inl EOF) [] []) (demo_cfg ''10.0.0.1'' []) = (Some (Wrapped ''memberlist create error: '' EOF), n)
     \<and> \<not> lv_listening n \<and> lv_cancelled n \<and> nt_open (lv_net n) = []"
proof -
  let ?r = "NewNode (demo_host ([], Inl EOF) [] []) (demo_cfg ''10.0.0.1'' [])"
  have "fst ?r = Some (Wrapped ''memberlist create error: '' EOF)" by code_simp
  then have r: "?r = (Some (Wrapped ''memberlist create error: '' EOF), snd ?r)" by (metis prod.collapse)
  from newnode_failure_clean [OF r demo_ring(1)] r show ?thesis by blast
qed

text \<open>But the address of the failed node stays in the ring, which its creator may share with others.\<close>

theorem newnode_failure_leaves_ring:
  "self_addr (snd (NewNode (demo_host ([], Inl EOF) [] []) (demo_cfg ''10.0.0.1'' []))) \<in>
     set (nodes (lv_ring (snd (NewNode (demo_host ([], Inl EOF) [] []) (demo_cfg ''10.0.0.1'' [])))))"
  by code_simp

text \<open>
  C21: \<open>Close\<close> can be called at any time and any number of times. In every state of a run it shuts
  memberlist down exactly once, so that it never panics, stops listening, cancels the context
  and closes the pool; the connections that stay open are those that requests hold. Its wait
  ends: once the accepted connections have ended and the accept loop has seen its error, nothing
  is left to wait for.
\<close>

theorem node_close_returns:
  assumes "NewNode host cfg = (None, n0)" and "ring_ok (cfg_ring cfg)" and "node_run es n0 = Some n"
  shows "\<exists>n'. node_Close evs n = Some n' \<and> node_Close evs' n' = Some n'
    \<and> lv_mlist n' = Some Down \<and> \<not> lv_listening n' \<and> lv_cancelled n' \<and> pool_addrs (lv_pool n') = []
    \<and> mset (nt_open (lv_net n')) = mset (lv_held n)
    \<and> (\<exists>n''. node_run (map ConnEnded (lv_serving n') @ (if lv_accepting n' then [Accepted (Inl err)] else [])) n' = Some n''
        \<and> wait_done n'')"
proof -
  have ok: "node_ok n" by (rule node_ok_run [OF NewNode_ok [OF assms(1,2)] assms(3)])
  obtain n' where n': "node_Close evs n = Some n'" "node_ok n'" "lv_closed n'" "lv_held n' = lv_held n" "node_Close evs' n' = Some n'"
    using node_Close_ok [OF ok, of evs evs'] by blast
  obtain m where m: "lv_pool n' = Some m" "mesh_ok (mset (lv_held n)) m (lv_net n')" "mp_done m"
    using n'(2,3,4) by (auto simp: node_ok_def)
  have "mp_peers m = []" using m(2,3) by (simp add: mesh_ok_def)
  then have net: "pool_addrs (lv_pool n') = []" "mset (nt_open (lv_net n')) = mset (lv_held n)"
    using m by (simp_all add: pool_addrs_def mesh_ok_def net_ok_def)
  have drop: "node_run (map ConnEnded cs) k = Some (k\<lparr>lv_serving := []\<rparr>)"
    if "lv_serving k = cs" "distinct cs" for cs and k :: "'a LiveNode"
    using that
  proof (induction cs arbitrary: k)
    case (Cons c cs)
    then have "node_run (map ConnEnded cs) (k\<lparr>lv_serving := cs\<rparr>) = Some (k\<lparr>lv_serving := []\<rparr>)"
      using Cons.IH [of "k\<lparr>lv_serving := cs\<rparr>"] by simp
    then show ?case using Cons.prems by (simp add: removeAll_id)
  qed simp
  have d: "distinct (lv_serving n')" "lv_cancelled n'" "lv_mlist n' = Some Down" "\<not> lv_listening n'"
    using n'(2,3) by (simp_all add: node_ok_def)
  have "\<exists>n''. node_run (map ConnEnded (lv_serving n') @ (if lv_accepting n' then [Accepted (Inl err)] else [])) n' = Some n'' \<and> wait_done n''"
    using drop [OF refl d(1)] d(2) by (auto simp: node_run_append accept_turn_def wait_done_def)
  then show ?thesis using n'(1,5) net d by blast
qed

theorem node_close_returns_witness:
  "\<exists>n n' n''. node_run [Accepted (Inr 5), TakeConn ''10.0.0.9:7''] node_a = Some n \<and> node_Close [] n = Some n'
     \<and> pool_addrs (lv_pool n') = []
     \<and> node_run (map ConnEnded (lv_serving n') @ (if lv_accepting n' then [Accepted (Inl EOF)] else [])) n' = Some n'' \<and> wait_done n''"
proof -
  let ?es = "[Accepted (Inr 5), TakeConn ''10.0.0.9:7'']"
  have "node_run ?es node_a \<noteq> None" by code_simp
  then obtain n where n: "node_run ?es node_a = Some n" by blast
  from node_close_returns [OF demo_started(1) demo_ring(1) n, of "[]" "[]" EOF] n show ?thesis by blast
qed

text \<open>
  C22: but the wait of \<open>Close\<close> depends on the peers. \<open>Close\<close> ends the connections that the node has dialled
  and not those it has accepted, whose goroutines read without a deadline: while a peer keeps one
  open, idle in its pool, nothing else that happens lets \<open>Close\<close> return.
\<close>

theorem close_waits_for_peers:
  assumes "c \<in> set (lv_serving n)" and "node_run es n = Some n'" and "ConnEnded c \<notin> set es"
  shows "\<not> wait_done n'"
proof -
  have "c \<in> set (lv_serving n')" using assms
  proof (induction es arbitrary: n)
    case (Cons e es)
    then obtain n1 where n1: "node_exec e n = Some n1" "node_run es n1 = Some n'" by (auto split: option.splits)
    have "c \<in> set (lv_serving n1)"
    proof (cases e)
      case (CloseNode evs)
      then show ?thesis using n1(1) Cons.prems(1)
        by (auto simp: node_Close_def cancel_ctx_def Let_def split: if_splits option.splits mlist_state.splits)
    qed (use n1(1) Cons.prems(1,3) in \<open>auto simp: accept_turn_def Let_def split: if_splits option.splits prod.splits sum.splits\<close>)
    then show ?case using Cons.IH [OF _ n1(2)] Cons.prems(3) by simp
  qed simp
  then show ?thesis by (auto simp: wait_done_def)
qed

theorem close_waits_for_peers_witness:
  "\<exists>n. node_run [Accepted (Inr 5), CloseNode [], Accepted (Inl EOF)] node_a = Some n \<and> lv_closed n \<and> \<not> wait_done n"
proof -
  let ?es = "[CloseNode [], Accepted (Inl EOF)]"
  obtain n1 where n1: "node_run [Accepted (Inr 5)] node_a = Some n1" "5 \<in> set (lv_serving n1)"
  proof -
    have "map_option (\<lambda>n. 5 \<in> set (lv_serving n)) (node_run [Accepted (Inr 5)] node_a) = Some True" by code_simp
    then show thesis using that by auto
  qed
  have "map_option lv_closed (node_run ([Accepted (Inr 5)] @ ?es) node_a) = Some True" by code_simp
  then obtain n where n: "node_run ?es n1 = Some n" "lv_closed n" using n1(1) unfolding node_run_append by auto
  have "\<not> wait_done n" by (rule close_waits_for_peers [OF n1(2) n(1)]) simp
  then show ?thesis using n n1(1) node_run_append [of "[Accepted (Inr 5)]" ?es node_a] by simp
qed

text \<open>
  The mesh address that every peer computes from the metadata a node advertises is the address it
  binds and the port it listens on, for every port that a listener can have.
\<close>

theorem advertised_address:
  assumes "NewNode host cfg = (None, n)" and "0 \<le> lv_meshPort n" and "lv_meshPort n \<le> 65535"
    and "mb_Addr m = nc_BindAddr (lv_cfg n)" and "mb_Meta m = ml_Meta (mlist_config cfg (lv_meshPort n))"
  shows "ev_addr m = self_addr n"
proof -
  have "uint (word_of_int (lv_meshPort n) :: 16 word) = lv_meshPort n"
    using assms(2,3) by (simp add: unsigned_of_int take_bit_int_eq_self)
  then have "getMeshPort (node_meta (lv_meshPort n)) = lv_meshPort n" by (simp add: getMeshPort_def node_meta_def)
  then show ?thesis using assms(4,5) by (simp add: ev_addr_def member_addr_def self_addr_def mlist_config_def Let_def)
qed

text \<open>
  A node that binds all interfaces puts the address it binds into its ring next to the one that
  memberlist advertises for it, so its ring differs from those of its peers.
\<close>

theorem wildcard_bind_adds_phantom:
  "nodes (lv_ring (snd (NewNode host_a (demo_cfg ''0.0.0.0'' [])))) = [''0.0.0.0:7'', ''10.0.0.1:7'']"
  by code_simp

text \<open>
  A member whose metadata changes, such as one that restarts on another mesh port, keeps its old
  address in the ring and its old pool, and leaving removes only the new ones.
\<close>

theorem update_keeps_old_address:
  "map_option (\<lambda>n. (nodes (lv_ring n), pool_addrs (lv_pool n)))
     (node_run [Gossip (Joined (demo_member ''10.0.0.2'')), Gossip (Updated ((demo_member ''10.0.0.2'')\<lparr>mb_Meta := node_meta 8\<rparr>)),
        Gossip (Departed ((demo_member ''10.0.0.2'')\<lparr>mb_Meta := node_meta 8\<rparr>))] node_a) =
   Some ([''10.0.0.1:7'', ''10.0.0.2:7''], [''10.0.0.2:7''])"
  by code_simp

text \<open>A request that still goes to a member that left makes a pool for it again, which nothing removes.\<close>

theorem late_request_revives_pool:
  "map_option (\<lambda>n. (nodes (lv_ring n), pool_addrs (lv_pool n)))
     (node_run [Gossip (Joined (demo_member ''10.0.0.2'')), Gossip (Departed (demo_member ''10.0.0.2'')), TakeConn ''10.0.0.2:7''] node_a) =
   Some ([''10.0.0.1:7''], [''10.0.0.2:7''])"
  by code_simp

end
