(* ===== verification/ListFlight.thy ===== *)
theory ListFlight
  imports ListCache Flight
begin

text \<open>
  Overlapping operations on the list cache (pkg/cache/list_cache.go): \<open>ListPage\<close> with its single-flight
  table, and writes of a database, which call the driver and then \<open>InvalidateKey\<close>. They are
  goroutines that interleave where the code gives up its locks: a step is a critical section of
  the cache, an operation of the sync.Map, a call of the driver or the closing of a call.
\<close>

section \<open>Goroutines and steps\<close>

type_synonym listed = "gerror + KeyMeta list \<times> string"

datatype lister =
    LIdle
  | ListStart string ListOptions
  | ListMissed string ListOptions
  | ListLead string ListOptions nat
  | ListFetch string ListOptions nat
  | ListFetched string ListOptions nat listed
  | ListSettled string ListOptions nat listed
  | ListClosing nat listed
  | ListWait nat
  | ListDone listed
  | WriteStart string bytes string
  | WriteStored string "gerror + Object option"
  | WriteDone "gerror + Object option"

record 's lf_world =
  lf_cache :: ListCache
  lf_drv :: 's
  lf_sf :: "string \<Rightarrow> nat option"
  lf_done :: "nat \<Rightarrow> listed option"
  lf_next :: nat
  lf_thr :: "nat \<Rightarrow> lister"

definition query_key :: "string \<Rightarrow> ListOptions \<Rightarrow> ListCacheKey" where
  "query_key prefx opts = \<lparr>lk_Prefix = prefx, lk_Cursor = loCursor opts, lk_Limit = loLimit opts\<rparr>"

definition query_mapKey :: "string \<Rightarrow> ListOptions \<Rightarrow> string" where
  "query_mapKey prefx opts = ListCacheKey_String (query_key prefx opts)"

text \<open>
  The next step of a goroutine; \<open>now\<close> is the time of its clock readings in this step, \<open>cancelled\<close> says
  that the select takes the branch of the context.
\<close>

fun advance_lister ::
  "'s Driver \<Rightarrow> gotime \<Rightarrow> bool \<Rightarrow> lister \<Rightarrow> 's lf_world \<Rightarrow> (lister \<times> 's lf_world) option" where
  "advance_lister d now cancelled (ListStart prefx opts) w =
     (let (hit, c) = list_lookup now (query_mapKey prefx opts) (lf_cache w) in
      Some (case hit of Some e \<Rightarrow> ListDone (Inr (le_items e, le_nextCursor e)) | None \<Rightarrow> ListMissed prefx opts,
        w\<lparr>lf_cache := c\<rparr>))"
| "advance_lister d now cancelled (ListMissed prefx opts) w =
     (case lf_sf w (query_mapKey prefx opts) of
        Some c \<Rightarrow>
          Some (ListWait c, w\<lparr>lf_cache := (lf_cache w)\<lparr>lc_sfHits := lc_sfHits (lf_cache w) + 1\<rparr>\<rparr>)
      | None \<Rightarrow>
          Some (ListLead prefx opts (lf_next w),
            w\<lparr>lf_cache := (lf_cache w)\<lparr>lc_misses := lc_misses (lf_cache w) + 1\<rparr>,
              lf_sf := (lf_sf w)(query_mapKey prefx opts \<mapsto> lf_next w),
              lf_done := (lf_done w)(lf_next w := None), lf_next := lf_next w + 1\<rparr>))"
| "advance_lister d now cancelled (ListLead prefx opts c) w =
     (let (hit, lc) = list_recheck now now (query_mapKey prefx opts) (lf_cache w) in
      Some (case hit of Some e \<Rightarrow> ListSettled prefx opts c (Inr (le_items e, le_nextCursor e)) | None \<Rightarrow> ListFetch prefx opts c,
        w\<lparr>lf_cache := lc\<rparr>))"
| "advance_lister d now cancelled (ListFetch prefx opts c) w =
     (let (r, s) = dList d (lf_drv w) prefx opts in Some (ListFetched prefx opts c r, w\<lparr>lf_drv := s\<rparr>))"
| "advance_lister d now cancelled (ListFetched prefx opts c r) w =
     Some (ListSettled prefx opts c r,
       case r of
         Inl err \<Rightarrow> w
       | Inr (metas, nxt) \<Rightarrow> w\<lparr>lf_cache := list_admit now (query_key prefx opts) metas nxt (lf_cache w)\<rparr>)"
| "advance_lister d now cancelled (ListSettled prefx opts c r) w =
     Some (ListClosing c r, w\<lparr>lf_sf := (lf_sf w)(query_mapKey prefx opts := None)\<rparr>)"
| "advance_lister d now cancelled (ListClosing c r) w = Some (ListDone r, w\<lparr>lf_done := (lf_done w)(c \<mapsto> r)\<rparr>)"
| "advance_lister d now cancelled (ListWait c) w =
     (if cancelled then Some (ListDone (Inl ContextDone), w)
      else map_option (\<lambda>r. (ListDone r, w)) (lf_done w c))"
| "advance_lister d now cancelled (WriteStart key value expectedETag) w =
     (let (r, s) = dPut d (lf_drv w) key value expectedETag in Some (WriteStored key r, w\<lparr>lf_drv := s\<rparr>))"
| "advance_lister d now cancelled (WriteStored key r) w =
     Some (WriteDone r, case r of Inl err \<Rightarrow> w | Inr obj \<Rightarrow> w\<lparr>lf_cache := InvalidateKey key (lf_cache w)\<rparr>)"
| "advance_lister d now cancelled g w = None"

fun is_list_call :: "lister \<Rightarrow> bool" where
  "is_list_call (ListStart p opts) = True"
| "is_list_call (WriteStart k v e) = True"
| "is_list_call g = False"

datatype lf_event = LBegin nat lister | LStep nat gotime bool

fun lf_exec :: "'s Driver \<Rightarrow> lf_event \<Rightarrow> 's lf_world \<Rightarrow> 's lf_world option" where
  "lf_exec d (LBegin t g) w =
     (if lf_thr w t = LIdle \<and> is_list_call g then Some (w\<lparr>lf_thr := (lf_thr w)(t := g)\<rparr>) else None)"
| "lf_exec d (LStep t now cancelled) w =
     map_option (\<lambda>(g, w'). w'\<lparr>lf_thr := (lf_thr w)(t := g)\<rparr>) (advance_lister d now cancelled (lf_thr w t) w)"

fun lf_run :: "'s Driver \<Rightarrow> lf_event list \<Rightarrow> 's lf_world \<Rightarrow> 's lf_world option" where
  "lf_run d [] w = Some w"
| "lf_run d (e # es) w = (case lf_exec d e w of None \<Rightarrow> None | Some w' \<Rightarrow> lf_run d es w')"

definition lf_init :: "ListConfig \<Rightarrow> 's \<Rightarrow> 's lf_world" where
  "lf_init cfg s = \<lparr>lf_cache = NewListCache cfg, lf_drv = s, lf_sf = (\<lambda>_. None), lf_done = (\<lambda>_. None), lf_next = 0,
     lf_thr = (\<lambda>_. LIdle)\<rparr>"

section \<open>Leaders and followers\<close>

fun l_leads :: "lister \<Rightarrow> (string \<times> nat) option" where
  "l_leads (ListLead p opts c) = Some (query_mapKey p opts, c)"
| "l_leads (ListFetch p opts c) = Some (query_mapKey p opts, c)"
| "l_leads (ListFetched p opts c r) = Some (query_mapKey p opts, c)"
| "l_leads (ListSettled p opts c r) = Some (query_mapKey p opts, c)"
| "l_leads g = None"

fun l_owes :: "lister \<Rightarrow> nat option" where
  "l_owes (ListLead p opts c) = Some c"
| "l_owes (ListFetch p opts c) = Some c"
| "l_owes (ListFetched p opts c r) = Some c"
| "l_owes (ListSettled p opts c r) = Some c"
| "l_owes (ListClosing c r) = Some c"
| "l_owes g = None"

fun l_awaits :: "lister \<Rightarrow> nat option" where
  "l_awaits (ListWait c) = Some c"
| "l_awaits g = None"

interpretation lists: coalescing l_leads l_owes l_awaits
proof
  show "l_leads g = Some (k, c) \<Longrightarrow> l_owes g = Some c" for g k c by (cases g) auto
qed

definition lf_ok :: "'s lf_world \<Rightarrow> bool" where
  "lf_ok w \<longleftrightarrow> lists.ok (lf_sf w) (lf_done w) (lf_next w) (lf_thr w)"

lemma lf_exec_ok:
  assumes "lf_ok w" and ex: "lf_exec d e w = Some w'"
  shows "lf_ok w'"
proof (cases e)
  note ok = assms(1) [unfolded lf_ok_def]
  case (LBegin t g)
  with ex have "lf_thr w t = LIdle" "is_list_call g" "w' = w\<lparr>lf_thr := (lf_thr w)(t := g)\<rparr>" by (auto split: if_splits)
  then show ?thesis using lists.ok_local [OF ok, of g t] by (cases g) (simp_all add: lf_ok_def)
next
  note ok = assms(1) [unfolded lf_ok_def]
  case (LStep t now cancelled)
  from ex LStep obtain g w1 where adv: "advance_lister d now cancelled (lf_thr w t) w = Some (g, w1)"
    and w': "w' = w1\<lparr>lf_thr := (lf_thr w)(t := g)\<rparr>" by auto
  show ?thesis
  proof (cases "lf_thr w t")
    case (ListMissed p opts)
    show ?thesis
    proof (cases "lf_sf w (query_mapKey p opts)")
      case None
      then show ?thesis
        using lists.ok_register [OF ok None, of t "ListLead p opts (lf_next w)"] adv w' ListMissed
        by (auto simp: lf_ok_def)
    next
      case (Some c)
      then show ?thesis
        using lists.ok_follow [OF ok Some, of t "ListWait c"] adv w' ListMissed by (auto simp: lf_ok_def)
    qed
  next
    case (ListSettled p opts c r)
    then show ?thesis
      using lists.ok_unregister [OF ok, of t "query_mapKey p opts" c "ListClosing c r"] adv w' by (auto simp: lf_ok_def)
  next
    case (ListClosing c r)
    then show ?thesis
      using lists.ok_close [OF ok, of t c "ListDone r" r] adv w' by (auto simp: lf_ok_def)
  qed (use lists.ok_local [OF ok, of g t] adv w' in
      \<open>auto simp: lf_ok_def split: option.splits prod.splits if_splits sum.splits\<close>)
qed

lemma lf_run_ok: "lf_ok w \<Longrightarrow> lf_run d es w = Some w' \<Longrightarrow> lf_ok w'"
  by (induction es arbitrary: w) (auto split: option.splits intro: lf_exec_ok)

lemma lf_init_ok: "lf_ok (lf_init cfg s)"
  unfolding lf_ok_def lf_init_def by (simp add: lists.ok_start)

lemma lf_run_append: "lf_run d (xs @ ys) w = Option.bind (lf_run d xs w) (lf_run d ys)"
  by (induction xs arbitrary: w) (auto split: option.splits)

section \<open>The cache under overlap\<close>

lemma lookup_bounded:
  assumes b: "lc_bounded c" and l: "list_lookup now mk c = (r, c')"
  shows "lc_bounded c' \<and> lc_max c' = lc_max c"
proof -
  have ok: "lc_ok c" using b by (simp add: lc_bounded_def)
  have "gl_Len (lc_lru c') \<le> gl_Len (lc_lru c)"
    using l gl_Len_touch [OF lc_okD(1) [OF ok]] lc_findD [OF ok]
    by (auto simp: list_lookup_def lc_touch_def gl_Len_def gl_Remove_def AList.delete_eq split: option.splits if_splits)
  with list_lookup_laws(1,2) [OF ok l] b show ?thesis by (auto simp: lc_bounded_def)
qed

lemma recheck_lookup:
  "list_recheck t1 t2 mk c = (r, c') \<Longrightarrow> c' = c \<or> (\<exists>e. list_lookup t2 mk (c\<lparr>lc_ttl := 0\<rparr>) = (Some e, c'\<lparr>lc_ttl := 0\<rparr>) \<and> lc_ttl c' = lc_ttl c)"
  by (auto simp: list_recheck_def list_lookup_def lc_touch_def lc_find_def split: option.splits if_splits)

lemma bounded_ttl: "lc_bounded (c\<lparr>lc_ttl := x\<rparr>) = lc_bounded c" "lc_bounded (c\<lparr>lc_sfHits := y\<rparr>) = lc_bounded c"
  "lc_bounded (c\<lparr>lc_misses := y\<rparr>) = lc_bounded c"
  by (simp_all add: lc_bounded_def lc_ok_def)

lemma recheck_bounded:
  assumes "lc_bounded c" and "list_recheck t1 t2 mk c = (r, c')"
  shows "lc_bounded c' \<and> lc_max c' = lc_max c"
  using recheck_lookup [OF assms(2)] lookup_bounded [of "c\<lparr>lc_ttl := 0\<rparr>" t2 mk] assms(1) bounded_ttl(1)
  by (metis ListCache.select_convs(2) ListCache.surjective ListCache.update_convs(1))

lemma advance_bounded:
  assumes b: "lc_bounded (lf_cache w)" and adv: "advance_lister d now cancelled g w = Some (g', w')"
  shows "lc_bounded (lf_cache w') \<and> lc_max (lf_cache w') = lc_max (lf_cache w)"
proof (cases g)
  case (ListStart p opts)
  then show ?thesis using adv lookup_bounded [OF b] by (auto split: prod.splits)
next
  case (ListMissed p opts)
  then show ?thesis using adv b by (auto simp: bounded_ttl split: option.splits)
next
  case (ListLead p opts c)
  then show ?thesis using adv recheck_bounded [OF b] by (auto split: prod.splits)
next
  case (ListFetched p opts c r)
  then show ?thesis using adv b list_admit_laws [of "lf_cache w"]
    by (cases r) (auto simp: lc_bounded_def split: prod.splits)
next
  case (WriteStored k r)
  then show ?thesis using adv b invalidate_bounded [OF b] by (cases r) (auto simp: InvalidateKey_def)
qed (use adv b in \<open>auto split: prod.splits if_splits\<close>)

lemma exec_bounded:
  assumes "lc_bounded (lf_cache w)" and "lf_exec d e w = Some w'"
  shows "lc_bounded (lf_cache w') \<and> lc_max (lf_cache w') = lc_max (lf_cache w)"
  using assms by (cases e) (auto split: if_splits dest: advance_bounded)

lemma run_bounded:
  "lc_bounded (lf_cache w) \<Longrightarrow> lf_run d es w = Some w' \<Longrightarrow> lc_bounded (lf_cache w') \<and> lc_max (lf_cache w') = lc_max (lf_cache w)"
proof (induction es arbitrary: w)
  case (Cons e es)
  then obtain w1 where w1: "lf_exec d e w = Some w1" "lf_run d es w1 = Some w'" by (auto split: option.splits)
  with exec_bounded [OF Cons.prems(1) w1(1)] Cons.IH [of w1] show ?case by auto
qed simp

section \<open>No waiter is left behind\<close>

text \<open>The owner of a call closes it by at most five steps of its own, from behind.\<close>

definition closes :: "'s Driver \<Rightarrow> gotime \<Rightarrow> nat \<Rightarrow> nat \<Rightarrow> 's lf_world \<Rightarrow> bool" where
  "closes d now t c w \<longleftrightarrow> (\<exists>n w' r. lf_run d (replicate n (LStep t now False)) w = Some w' \<and> lf_done w' c = Some r \<and>
     (\<forall>u. u \<noteq> t \<longrightarrow> lf_thr w' u = lf_thr w u))"

lemma page_step_closes:
  assumes "lf_exec d (LStep t now False) w = Some w1" and "closes d now t c w1"
  shows "closes d now t c w"
proof -
  obtain n w' r where n: "lf_run d (replicate n (LStep t now False)) w1 = Some w'" "lf_done w' c = Some r"
    "\<forall>u. u \<noteq> t \<longrightarrow> lf_thr w' u = lf_thr w1 u" using assms(2) by (auto simp: closes_def)
  have "lf_run d (replicate (Suc n) (LStep t now False)) w = Some w'" using assms(1) n(1) by (simp del: lf_exec.simps)
  moreover have "\<forall>u. u \<noteq> t \<longrightarrow> lf_thr w1 u = lf_thr w u" using assms(1) by auto
  ultimately show ?thesis using n(2,3) unfolding closes_def by metis
qed

lemma page_closing_closes: "lf_thr w t = ListClosing c r \<Longrightarrow> closes d now t c w"
  unfolding closes_def by (intro exI [of _ 1]) auto

lemma page_settled_closes: "lf_thr w t = ListSettled p opts c r \<Longrightarrow> closes d now t c w"
  by (rule page_step_closes [OF _ page_closing_closes]) auto

lemma page_fetched_closes: "lf_thr w t = ListFetched p opts c r \<Longrightarrow> closes d now t c w"
  by (rule page_step_closes [OF _ page_settled_closes]) auto

lemma page_fetch_closes:
  assumes "lf_thr w t = ListFetch p opts c"
  shows "closes d now t c w"
proof -
  obtain r s where "dList d (lf_drv w) p opts = (r, s)" by fastforce
  then show ?thesis using assms by (intro page_step_closes [OF _ page_fetched_closes]) auto
qed

lemma page_lead_closes:
  assumes g: "lf_thr w t = ListLead p opts c"
  shows "closes d now t c w"
proof -
  obtain hit lc where l: "list_recheck now now (query_mapKey p opts) (lf_cache w) = (hit, lc)" by fastforce
  show ?thesis
  proof (cases hit)
    case None
    show ?thesis by (rule page_step_closes [OF _ page_fetch_closes]) (use g l None in auto)
  next
    case (Some e)
    show ?thesis by (rule page_step_closes [OF _ page_settled_closes]) (use g l Some in auto)
  qed
qed

lemma page_owner_closes:
  assumes "l_owes (lf_thr w t) = Some c"
  shows "closes d now t c w"
  using assms page_lead_closes page_fetch_closes page_fetched_closes page_settled_closes page_closing_closes
  by (cases "lf_thr w t") auto

section \<open>Properties\<close>


text \<open>An empty store, its listing, and a write that overlaps it.\<close>

definition list_cfg :: ListConfig where
  "list_cfg = \<lparr>lcfg_TTL = 0, lcfg_MaxPages = 4\<rparr>"

definition coalesced :: "lf_event list" where
  "coalesced = [LBegin 0 (ListStart ''a/'' (page_opts 9 [])), LBegin 1 (ListStart ''a/'' (page_opts 9 [])),
     LStep 0 1 False, LStep 1 2 False, LStep 0 3 False, LStep 1 4 False]"

definition list_race :: "lf_event list" where
  "list_race = [LBegin 0 (ListStart ''a/'' (page_opts 9 [])), LBegin 1 (WriteStart ''a/1'' [1] []),
     LStep 0 1 False, LStep 0 2 False, LStep 0 3 False, LStep 0 4 False,
     LStep 1 5 False, LStep 1 6 False,
     LStep 0 7 False, LStep 0 8 False, LStep 0 9 False,
     LBegin 2 (ListStart ''a/'' (page_opts 9 [])), LStep 2 10 False]"


text \<open>
  But a page that was fetched before a write and admitted after its invalidation stays: the write has
  returned, the document is stored, and every later listing is served without it, until the
  page expires a day after its last use.
\<close>

fun list_answer :: "lister \<Rightarrow> string list option" where
  "list_answer (ListDone (Inr (metas, nxt))) = Some (map kmKey metas)"
| "list_answer g = None"

fun write_answer :: "lister \<Rightarrow> bool" where
  "write_answer (WriteDone (Inr (Some obj))) = True"
| "write_answer g = False"

theorem list_stale_after_write:
  "\<exists>w. lf_run (mem_driver (\<lambda>bs. bs)) list_race (lf_init list_cfg (mem_NewDriver (\<lambda>_. 0))) = Some w
     \<and> write_answer (lf_thr w 1) \<and> mem_stored (lf_drv w) ''a/1'' \<noteq> None \<and> list_answer (lf_thr w 2) = Some []"
proof -
  have "map_option (\<lambda>w. (write_answer (lf_thr w 1), mem_stored (lf_drv w) ''a/1'' \<noteq> None, list_answer (lf_thr w 2)))
    (lf_run (mem_driver (\<lambda>bs. bs)) list_race (lf_init list_cfg (mem_NewDriver (\<lambda>_. 0)))) = Some (True, True, Some [])"
    by code_simp
  then show ?thesis by auto
qed

end
