(* ===== verification/Spec2Isabelle.thy ===== *)
theory Spec2Isabelle
  imports Sharding MemoryDriver CacheRuns ListCache Mesh Cluster Pool Server FsList S3Driver Metrics SingleFlight SysMem NodeLifecycle ListFlight
begin

text \<open>
  JayDB (module github.com/avivklas/jaydb): a document database over cold object storage, made fast
  by a per-process cache, made coherent in a cluster by giving every key one owner, and reachable as
  an embedded library, over a TCP mesh between nodes and over HTTP.

  \<^bold>\<open>The parts and how they interact.\<close> An HTTP request (pkg/server) for a key is served by the node that the
  partition ring (pkg/sharding) names as the owner; other nodes forward it over the mesh
  (pkg/cluster) through pooled connections, in a binary protocol, signed with a shared secret. The
  owner's database (pkg/db) answers from its document cache and list cache (pkg/cache), whose bytes
  are accounted against one budget per process, and reads and writes the storage driver
  (pkg/storage) on a miss or a write. When the ring changes, each database drops what it no longer
  owns before its next operation.

  \<^bold>\<open>The theories.\<close> Each holds the definitions of one component in the order of the source and the lemmas
  about them; the names are those of the source, with a prefix where several types share a method
  name (\<open>mem_Get\<close>, \<open>db_Get\<close>, \<open>Manager_Get\<close>).

  \<^item> \<open>JayPrelude\<close>: what the components share: byte strings, decimal and big-endian encodings, Go's
  string functions, maps as association lists, binary search, collections of simplification rules.
  \<^item> \<open>Sharding\<close>: pkg/sharding/sharding.go, the ring with its 64-bit generation, PartitionKey, owners.
  \<^item> \<open>Storage\<close>: pkg/storage/driver.go, the error values, objects and the Driver interface as a record
  of methods over a driver state, with its contracts as locales (\<open>driver\<close>, \<open>cas_driver\<close>, \<open>list_driver\<close>,
  \<open>pager\<close>, \<open>keyed_driver\<close>, \<open>keyed_cas\<close>). \<open>MemoryDriver\<close>: pkg/storage/memory/memory.go, on which the first
  four are interpreted.
  \<^item> \<open>FilePath\<close>: path/filepath and the calls of package os on a file tree, each of which may fail or be
  cut off as an oracle says. \<open>FsDriver\<close>: pkg/storage/fs/fs.go over it. \<open>FsTree\<close>, \<open>FsProps\<close> and \<open>FsList\<close> hold
  its invariant, the interpretations of \<open>keyed_driver\<close>, \<open>keyed_cas\<close> and \<open>pager\<close>, and its properties.
  \<^item> \<open>S3Driver\<close>: pkg/storage/s3/s3.go over a client of the AWS SDK that is a parameter, with the
  documented behaviour of the service as the locale \<open>s3_service\<close>, interpreted on a bucket in memory.
  \<^item> \<open>GoList\<close>, \<open>Budget\<close>, \<open>CacheManager\<close>: container/list, pkg/cache/budget.go and pkg/cache/cache.go.
  The Managers of a process share one Budget, so the state is a heap of Managers with the Budget
  (\<open>cache_state\<close>), and the Budget's Evictor interface is a locale interpreted on the Manager.
  \<open>CacheLaws\<close>, \<open>CacheProps\<close>, \<open>CacheRecency\<close> and \<open>CacheRuns\<close> build up from shards to runs of any number
  of Managers. \<open>SingleFlight\<close>: overlapping Get, Put and Delete of one Manager as goroutines that
  interleave between their critical sections, with the table of calls in flight. \<open>ListCache\<close>:
  pkg/cache/list_cache.go, and \<open>ListFlight\<close> its overlapping listings and writes. What the two tables
  have in common is the locale \<open>coalescing\<close> of the theory \<open>Flight\<close>, interpreted on the goroutines of both. \<open>SysMem\<close>: pkg/cache/sysmem.go and its variants for the platforms, over
  \<open>GoText\<close>, the reading of numbers, fields and lines in Go's standard library.
  \<^item> \<open>BinaryProtocol\<close>: pkg/cluster/binary.go, writers and readers over byte streams. \<open>Mesh\<close>:
  pkg/cluster/mesh.go, handlers, authentication, the server loop of a connection, forwarding, and the
  membership callbacks. \<open>Pool\<close>: pkg/cluster/pool.go. \<open>NodeLifecycle\<close>: the rest of mesh.go, a node from
  \<open>NewNode\<close> to \<open>Close\<close> with ring, pool, listener and memberlist, the last two as parameters.
  \<^item> \<open>Database\<close>, \<open>DatabaseProps\<close>: pkg/db/db.go, the operations of one database and their properties.
  \<open>Encoding\<close>: pkg/encoding/codec.go. \<open>Cluster\<close>: several databases, the mesh and the ring together.
  \<open>Server\<close>: pkg/server/server.go. \<open>Metrics\<close>: pkg/metrics/metrics.go, as the calls that it makes on the
  Prometheus client.

  \<^bold>\<open>How the code is represented.\<close> A method is a function from the state it reads to its result and the
  new state; errors are values of \<open>gerror\<close>. Go integers that count bytes or durations are unbounded
  integers, words where wrapping matters (hashes, generations, counters, wire fields). A clock is a
  function that gives the time of each reading, a driver, a codec, the network and the cryptographic
  functions are parameters. A mutex-protected method is one step; where methods overlap, their critical
  sections are the steps. None as the result of an
  operation means that it does not return (an endless loop or a panic), and the properties prove that
  it does return. Loops are structural recursion or recursion with a proof of termination, the
  reservation and paging loops, which need an argument about the state, are partial functions whose
  results are proved to exist; no fuel is used.

  \<^bold>\<open>What is shown.\<close> Storage: the in-memory driver is the documented compare-and-swap store and pages
  consistently; so does the file-system driver on clean keys while the operating system does not fail,
  and whatever fails it never shows a torn document or one that was not written for the key; the
  S3 driver loses no update to a conditional write and reports which failures are conflicts. Cache: the budget's count is exact and below the limit in every reachable state,
  every operation returns, eviction is least recently used over the whole Manager, and a cached
  document is the stored one; overlapping reads of a key are fetched once and every waiter is served;
  overlapping reads and writes keep the cache current under a lock of the key. List cache: answers are those of the driver, within the page bound, and overlapping listings are
  coalesced.
  Ring: a sorted set of members on which nodes agree, one owner per key, a generation that counts
  changes. Protocol and mesh: round trips, truncation, requests served in order and once,
  authentication. Pool: no connection leaks. Node: nodes with the same live members route alike,
  Close can be repeated and returns when the accepted connections end. Memory probes: the default
  budget is half of a positive amount that is detected once. Metrics: counters are exact over any
  scrapes and every metric is used as it is registered. Database: one database refines a compare-and-swap map,
  listing is complete, reconciliation leaves nothing foreign, forwarding preserves outcomes. Cluster:
  the main theorem, that every node reads the current document after any membership changes, lost
  messages and restarts, by an invariant that relates each node's reconciled generation to what its
  cache may hold. Server: status, ETag and body of every request and the transparency of forwarding.
  Theorems also record where the code falls short of what it means: stale list pages in a cluster,
  colliding list cache keys, ambiguous authentication input, an overflow in the clock check, retries
  of conditional writes, truncated error lengths, a leak when PutConn and Close overlap, repeated
  directory entries, the inverted meaning of If-Match: *, a stale document or page cached by a read
  that overlaps a write, keys that leave the root directory or share a file, a conditional delete that
  S3 makes unconditional, a Close that waits for its peers, and addresses that stay in the ring.

  \<^bold>\<open>Bounds.\<close> Ring theorems assume fewer than 2^32 members (the hash is taken modulo the count in 32
  bits). The cluster's runs assume that the 64-bit generation does not wrap and that the ring has a
  member; the wire round trips hold within the length prefixes of the fields. Listings through the
  cache exclude prefixes with a bar, where its keys collide.

  \<^bold>\<open>Not modelled.\<close> Overlap of operations beyond the two caches and the pool race (in the
  document cache a reservation with its evictions is one step, and PurgeIf and Close of a Manager do not
  overlap with the others); clusters whose nodes have different views of the ring at one time, beyond
  the theorem that equal members give equal owners; sockets, memberlist, timers, fasthttp and the
  Prometheus registry themselves; encoding/json on arbitrary values; the request metrics of the
  server; trace regions; the example programs.
\<close>

end
